(* ===== verification/Prelude.thy ===== *)
theory Prelude
  imports Main "HOL-Library.Word" "HOL-Library.AList" "HOL-Library.Multiset"
begin

text \<open>
  Shared vocabulary of the development: the Go machine types, Go maps as association lists,
  Go slices with the ``swap with the last element'' deletion, two's complement wrap-around of
  \<open>int64\<close>, the standard library's binary search, and the lemmas on them that the component
  theories use. The collections \<open>gomap_simps\<close> and \<open>seq_simps\<close> carry the facts on Go maps and
  on unsigned sequence numbers.
\<close>

named_theorems gomap_simps "lookup, update, deletion and length of Go maps"
named_theorems seq_simps "successor and predecessor of unsigned sequence numbers"

section \<open>Machine types\<close>

text \<open>
  Sequence numbers, subscription identifiers and byte totals are Go \<open>uint64\<close>; redelivery
  counts are \<open>uint32\<close>. Both wrap. Strings and byte slices are sequences of bytes, and
  \<open>char\<close> is the type of bytes.
\<close>

type_synonym u64 = "64 word"
type_synonym u32 = "32 word"
type_synonym bytes = "char list"

type_synonym ('e, 'a) res = "'e + 'a"

text \<open>Go's \<open>int64\<close> (and \<open>time.Duration\<close>, and \<open>int\<close> on 64-bit targets) wraps around.\<close>

definition i64 :: "int \<Rightarrow> int" where
  "i64 x = (x + 2 ^ 63) mod 2 ^ 64 - 2 ^ 63"

definition in_i64 :: "int \<Rightarrow> bool" where
  "in_i64 x \<longleftrightarrow> - (2 ^ 63) \<le> x \<and> x < 2 ^ 63"

lemma i64_id [simp]: "in_i64 x \<Longrightarrow> i64 x = x"
  by (simp add: in_i64_def i64_def)

lemma in_i64_i64 [simp]: "in_i64 (i64 x)"
proof -
  have "0 \<le> (x + 2 ^ 63) mod 2 ^ 64" "(x + 2 ^ 63) mod 2 ^ 64 < (2 ^ 64 :: int)"
    by simp_all
  then show ?thesis unfolding in_i64_def i64_def by simp
qed

text \<open>The same for \<open>int32\<close>.\<close>

definition i32 :: "int \<Rightarrow> int" where
  "i32 x = (x + 2 ^ 31) mod 2 ^ 32 - 2 ^ 31"

lemma i32_id [simp]: "- (2 ^ 31) \<le> x \<Longrightarrow> x < 2 ^ 31 \<Longrightarrow> i32 x = x"
  by (simp add: i32_def)

lemma in_i64_between: "in_i64 a \<Longrightarrow> in_i64 c \<Longrightarrow> a \<le> b \<Longrightarrow> b \<le> c \<Longrightarrow> in_i64 b"
  by (simp add: in_i64_def)

section \<open>Sequence numbers\<close>

text \<open>The largest \<open>uint64\<close> is \<open>-1\<close> as a word: incrementing it wraps to 0.\<close>

lemma unat_seq_Suc: "x \<noteq> - 1 \<Longrightarrow> unat ((x::u64) + 1) = Suc (unat x)"
  using unatSuc [of x] by (metis add.commute add_eq_0_iff2)

lemma unat_seq_pred: "x \<noteq> 0 \<Longrightarrow> unat ((x::u64) - 1) = unat x - 1"
  by (simp add: unat_minus_one)

lemma of_nat_unat_seq: "(of_nat (unat (w::u64)) :: u64) = w"
  by (simp add: of_nat_unat)

lemma seq_less_Suc [seq_simps]: "x \<noteq> - 1 \<Longrightarrow> (x::u64) < x + 1"
  by (simp add: word_less_nat_alt unat_seq_Suc)

lemma seq_less_Suc_le [seq_simps]: "x \<noteq> - 1 \<Longrightarrow> (y::u64) < x + 1 \<longleftrightarrow> y \<le> x"
  by (auto simp: word_less_nat_alt word_le_nat_alt unat_seq_Suc)

lemma seq_Suc_le [seq_simps]: "x \<noteq> - 1 \<Longrightarrow> (x::u64) + 1 \<le> y \<longleftrightarrow> x < y"
  by (auto simp: word_less_nat_alt word_le_nat_alt unat_seq_Suc)

lemma seq_Suc_neq_0 [seq_simps]: "x \<noteq> - 1 \<Longrightarrow> (x::u64) + 1 \<noteq> 0"
  by (metis add_eq_0_iff2)

lemma seq_pred_less [seq_simps]: "x \<noteq> 0 \<Longrightarrow> (x::u64) - 1 < x"
  by (simp add: word_less_nat_alt unat_seq_pred unat_gt_0)

lemma seq_le_pred [seq_simps]: "x \<noteq> 0 \<Longrightarrow> (y::u64) \<le> x - 1 \<longleftrightarrow> y < x"
  using unat_gt_0 [of x] by (auto simp: word_less_nat_alt word_le_nat_alt unat_seq_pred)

lemma seq_less_not_max: "(x::u64) < y \<Longrightarrow> x \<noteq> - 1"
  by (metis leD word_order.extremum)

section \<open>Go maps\<close>

text \<open>
  A Go map is an association list with distinct keys: its order is one possible iteration
  order, and where the source's result depends on that order the definitions take it as a
  parameter. Lookup is \<open>map_of\<close>, assignment \<open>AList.update\<close>, \<open>delete\<close> is
  \<open>AList.delete\<close> and \<open>len\<close> is \<open>length\<close>.
\<close>

type_synonym ('k, 'v) gomap = "('k \<times> 'v) list"

abbreviation mget :: "('k, 'v) gomap \<Rightarrow> 'k \<Rightarrow> 'v option" where
  "mget \<equiv> map_of"

abbreviation mput :: "'k \<Rightarrow> 'v \<Rightarrow> ('k, 'v) gomap \<Rightarrow> ('k, 'v) gomap" where
  "mput \<equiv> AList.update"

abbreviation mdel :: "'k \<Rightarrow> ('k, 'v) gomap \<Rightarrow> ('k, 'v) gomap" where
  "mdel \<equiv> AList.delete"

definition keys :: "('k, 'v) gomap \<Rightarrow> 'k set" where
  "keys m = fst ` set m"

definition wf_map :: "('k, 'v) gomap \<Rightarrow> bool" where
  "wf_map m \<longleftrightarrow> distinct (map fst m)"

lemma mget_mput [simp, gomap_simps]: "mget (mput k v m) = (mget m)(k \<mapsto> v)"
  by (rule AList.update_conv')

lemma mget_mdel [simp, gomap_simps]: "mget (mdel k m) = (mget m)(k := None)"
  by (rule AList.delete_conv')

lemma set_mput: "set (mput k v m) \<subseteq> insert (k, v) (set m)"
  by (induction m) auto

lemma wf_map_Nil [simp, gomap_simps]: "wf_map []"
  by (simp add: wf_map_def)

lemma wf_map_mput [simp, gomap_simps]: "wf_map m \<Longrightarrow> wf_map (mput k v m)"
  by (simp add: wf_map_def AList.distinct_update)

lemma wf_map_mdel [simp, gomap_simps]: "wf_map m \<Longrightarrow> wf_map (mdel k m)"
  by (simp add: wf_map_def AList.distinct_delete)

lemma keys_dom: "keys m = dom (mget m)"
  by (simp add: keys_def dom_map_of_conv_image_fst)

lemma keys_Nil [simp, gomap_simps]: "keys [] = {}"
  by (simp add: keys_def)

lemma keys_mput [simp, gomap_simps]: "keys (mput k v m) = insert k (keys m)"
  by (auto simp: keys_dom)

lemma keys_mdel [simp, gomap_simps]: "keys (mdel k m) = keys m - {k}"
  by (auto simp: keys_dom)

lemma finite_keys [simp, gomap_simps]: "finite (keys m)"
  by (simp add: keys_def)

lemma mget_None_iff: "mget m k = None \<longleftrightarrow> k \<notin> keys m"
  by (auto simp: keys_dom domIff)

lemma mget_Some_keys: "mget m k = Some v \<Longrightarrow> k \<in> keys m"
  by (auto simp: keys_dom)

lemma length_card_keys: "wf_map m \<Longrightarrow> length m = card (keys m)"
  by (metis wf_map_def keys_def distinct_card length_map set_map)

lemma set_mdel: "set (mdel k m) \<subseteq> set m"
  by (auto simp: AList.delete_eq)

lemma length_mput [gomap_simps]:
  "wf_map m \<Longrightarrow> length (mput k v m) = (if k \<in> keys m then length m else Suc (length m))"
  by (simp add: length_card_keys card_insert_if)

lemma length_mdel [gomap_simps]:
  "wf_map m \<Longrightarrow> length (mdel k m) = (if k \<in> keys m then length m - 1 else length m)"
  by (simp add: length_card_keys)

lemma keys_empty_iff [simp]: "keys m = {} \<longleftrightarrow> m = []"
  by (simp add: keys_def)

lemma mset_values_mput_new:
  "k \<notin> keys m \<Longrightarrow> mset (map snd (mput k v m)) = mset (map snd m) + {#v#}"
  by (induction m) (auto simp: keys_def)

lemma mdel_notin: "k \<notin> keys m \<Longrightarrow> mdel k m = m"
  by (simp add: keys_dom domIff AList.delete_idem keys_def [symmetric] flip: map_of_eq_None_iff)

lemma mset_values_mdel:
  "wf_map m \<Longrightarrow> mget m k = Some v \<Longrightarrow> mset (map snd m) = mset (map snd (mdel k m)) + {#v#}"
proof (induction m)
  case Nil
  then show ?case by simp
next
  case (Cons a m)
  show ?case
  proof (cases "fst a = k")
    case True
    with Cons.prems have "k \<notin> keys m" by (auto simp: wf_map_def keys_def)
    with True Cons.prems show ?thesis by (cases a) (simp add: mdel_notin)
  next
    case False
    with Cons show ?thesis by (cases a) (auto simp: wf_map_def)
  qed
qed

section \<open>Slices: deletion by swapping with the last element\<close>

text \<open>
  \<open>removeFromList\<close> of \<open>util/sublist.go\<close> and \<open>deleteFromList\<close> of \<open>server/server.go\<close>
  find the first occurrence, overwrite it with the last element and cut the slice by one.
\<close>

fun index_of :: "'a \<Rightarrow> 'a list \<Rightarrow> nat option" where
  "index_of x [] = None"
| "index_of x (y # ys) = (if y = x then Some 0 else map_option Suc (index_of x ys))"

definition delete_swap :: "'a \<Rightarrow> 'a list \<Rightarrow> 'a list \<times> bool" where
  "delete_swap x l =
     (case index_of x l of
        None \<Rightarrow> (l, False)
      | Some i \<Rightarrow> (butlast (l[i := last l]), True))"

lemma index_of_None_iff: "index_of x l = None \<longleftrightarrow> x \<notin> set l"
  by (induction l) auto

lemma index_of_Some: "index_of x l = Some i \<Longrightarrow> i < length l \<and> l ! i = x"
  by (induction l arbitrary: i) (auto split: if_splits)

lemma mset_swap_out:
  assumes "i < length l"
  shows "mset (butlast (l[i := last l])) = mset l - {#l ! i#}"
proof -
  from assms obtain b z where l: "l = b @ [z]" by (metis length_0_conv not_less_zero rev_exhaust)
  show ?thesis
  proof (cases "i < length b")
    case True
    then have "b ! i \<in># mset b" by simp
    with True show ?thesis by (simp add: l list_update_append nth_append mset_update)
  next
    case False
    with assms l have "i = length b" by simp
    then show ?thesis by (simp add: l)
  qed
qed

lemma delete_swap_found [simp]: "snd (delete_swap x l) \<longleftrightarrow> x \<in> set l"
  using index_of_None_iff [of x l] by (cases "index_of x l") (simp_all add: delete_swap_def)

lemma mset_delete_swap [simp]: "mset (fst (delete_swap x l)) = mset l - {#x#}"
  by (auto simp: delete_swap_def index_of_None_iff mset_swap_out diff_single_trivial
      split: option.split dest!: index_of_Some)

lemma set_delete_swap: "distinct l \<Longrightarrow> set (fst (delete_swap x l)) = set l - {x}"
  by (metis mset_delete_swap mset_remove1 set_mset_mset set_remove1_eq)

lemma distinct_delete_swap: "distinct l \<Longrightarrow> distinct (fst (delete_swap x l))"
  by (metis distinct_remove1 mset_delete_swap mset_eq_imp_distinct_iff mset_remove1)

lemma length_delete_swap:
  "length (fst (delete_swap x l)) = (if x \<in> set l then length l - 1 else length l)"
  by (metis mset_delete_swap mset_remove1 size_mset length_remove1)

section \<open>Binary search of the standard library\<close>

text \<open>
  \<open>sort.Search(n, f)\<close>: the least index in \<open>[0, n)\<close> at which the monotone predicate
  holds, \<open>n\<close> if there is none.
\<close>

function sort_Search_loop :: "(nat \<Rightarrow> bool) \<Rightarrow> nat \<Rightarrow> nat \<Rightarrow> nat" where
  "sort_Search_loop f i j =
     (if i < j
      then (let h = (i + j) div 2
            in if \<not> f h then sort_Search_loop f (h + 1) j else sort_Search_loop f i h)
      else i)"
  by pat_completeness auto
termination
  by (relation "measure (\<lambda>(f, i, j). j - i)") auto

declare sort_Search_loop.simps [simp del]

definition sort_Search :: "nat \<Rightarrow> (nat \<Rightarrow> bool) \<Rightarrow> nat" where
  "sort_Search n f = sort_Search_loop f 0 n"

lemma sort_Search_loop_least:
  assumes "\<And>a b. a \<le> b \<Longrightarrow> b < n \<Longrightarrow> f a \<Longrightarrow> f b"
    and "i \<le> j" "j \<le> n" "\<And>k. k < i \<Longrightarrow> \<not> f k" "j < n \<Longrightarrow> f j"
  shows "sort_Search_loop f i j \<le> n \<and> (\<forall>k < sort_Search_loop f i j. \<not> f k)
     \<and> (sort_Search_loop f i j < n \<longrightarrow> f (sort_Search_loop f i j))"
  using assms
proof (induction f i j rule: sort_Search_loop.induct)
  case (1 f i j)
  show ?case
  proof (cases "i < j")
    case False
    then have "sort_Search_loop f i j = i" by (subst sort_Search_loop.simps) simp
    moreover from False "1.prems" have "i = j" by simp
    ultimately show ?thesis using "1.prems" by auto
  next
    case True
    define h where "h = (i + j) div 2"
    from True have h: "i \<le> h" "h < j" by (auto simp: h_def)
    show ?thesis
    proof (cases "f h")
      case True
      have "sort_Search_loop f i j = sort_Search_loop f i h"
        using True \<open>i < j\<close> by (subst sort_Search_loop.simps) (simp add: h_def Let_def)
      moreover have "sort_Search_loop f i h \<le> n \<and> (\<forall>k < sort_Search_loop f i h. \<not> f k)
          \<and> (sort_Search_loop f i h < n \<longrightarrow> f (sort_Search_loop f i h))"
        by (rule "1.IH"(2) [OF \<open>i < j\<close> h_def]) (use True "1.prems" h in auto)
      ultimately show ?thesis by simp
    next
      case False
      have "sort_Search_loop f i j = sort_Search_loop f (h + 1) j"
        using False \<open>i < j\<close> by (subst sort_Search_loop.simps) (simp add: h_def Let_def)
      moreover have "\<not> f k" if "k < h + 1" for k
        using "1.prems"(1) [of k h] "1.prems"(3) False that h by auto
      then have "sort_Search_loop f (h + 1) j \<le> n \<and> (\<forall>k < sort_Search_loop f (h + 1) j. \<not> f k)
          \<and> (sort_Search_loop f (h + 1) j < n \<longrightarrow> f (sort_Search_loop f (h + 1) j))"
        by (intro "1.IH"(1) [OF \<open>i < j\<close> h_def False]) (use "1.prems" h in auto)
      ultimately show ?thesis by simp
    qed
  qed
qed

lemma sort_Search_least:
  assumes "\<And>a b. a \<le> b \<Longrightarrow> b < n \<Longrightarrow> f a \<Longrightarrow> f b"
  shows sort_Search_le: "sort_Search n f \<le> n"
    and sort_Search_below: "k < sort_Search n f \<Longrightarrow> \<not> f k"
    and sort_Search_holds: "sort_Search n f < n \<Longrightarrow> f (sort_Search n f)"
  using sort_Search_loop_least [of n f 0 n] assms unfolding sort_Search_def by auto

section \<open>Byte orders\<close>

text \<open>
  \<open>binary.LittleEndian\<close> and \<open>binary.BigEndian\<close> on \<open>n\<close>-byte unsigned integers, with the
  value read modulo \<open>256 ^ n\<close> as the conversions to \<open>uint16\<close>, \<open>uint32\<close> and \<open>uint64\<close> do.
\<close>

fun put_le :: "nat \<Rightarrow> nat \<Rightarrow> bytes" where
  "put_le 0 v = []"
| "put_le (Suc n) v = char_of (v mod 256) # put_le n (v div 256)"

fun get_le :: "bytes \<Rightarrow> nat" where
  "get_le [] = 0"
| "get_le (b # bs) = of_char b + 256 * get_le bs"

definition put_be :: "nat \<Rightarrow> nat \<Rightarrow> bytes" where
  "put_be n v = rev (put_le n v)"

definition get_be :: "bytes \<Rightarrow> nat" where
  "get_be bs = get_le (rev bs)"

lemma length_put_le [simp]: "length (put_le n v) = n"
  by (induction n arbitrary: v) auto

lemma length_put_be [simp]: "length (put_be n v) = n"
  by (simp add: put_be_def)

lemma get_put_le: "get_le (put_le n v) = v mod 256 ^ n"
proof (induction n arbitrary: v)
  case 0
  then show ?case by simp
next
  case (Suc n)
  have "v mod 256 ^ Suc n = 256 * (v div 256 mod 256 ^ n) + v mod 256"
    by (simp add: mod_mult2_eq)
  with Suc show ?case by simp
qed

lemma get_put_be: "get_be (put_be n v) = v mod 256 ^ n"
  by (simp add: get_be_def put_be_def get_put_le)

lemma get_le_bound: "get_le bs < 256 ^ length bs"
proof (induction bs)
  case Nil
  then show ?case by simp
next
  case (Cons b bs)
  have "get_le (b # bs) < 256 * Suc (get_le bs)" using of_char_mod_256 [of b] by simp
  also have "\<dots> \<le> 256 ^ length (b # bs)" using Cons by simp
  finally show ?case .
qed

lemma put_get_le: "put_le (length bs) (get_le bs) = bs"
  by (induction bs) auto

end
