(* ===== verification/Channel_Names.thy ===== *)
theory Channel_Names
  imports Prelude
begin

text \<open>
  Channel names and subjects: \<open>IsChannelNameValid\<close> and \<open>IsChannelNameLiteral\<close> of
  \<open>util/util.go\<close> and the splitting of a subject into tokens that \<open>Insert\<close>, \<open>Match\<close> and
  \<open>Remove\<close> of \<open>util/sublist.go\<close> share. The byte scan of \<open>IsChannelNameValid\<close> is
  shown equal to a specification over tokens.
\<close>

section \<open>Model\<close>

abbreviation btsep :: char where "btsep \<equiv> CHR ''.''"
abbreviation pwc :: char where "pwc \<equiv> CHR ''*''"
abbreviation fwc :: char where "fwc \<equiv> CHR ''>''"
abbreviation slash :: char where "slash \<equiv> CHR ''/''"

text \<open>
  The splitting loop: \<open>cur\<close> is \<open>subject[start:i]\<close>, \<open>toks\<close> the tokens found so far.
\<close>

fun split_loop :: "string \<Rightarrow> string \<Rightarrow> string list \<Rightarrow> string list" where
  "split_loop [] cur toks = toks @ [cur]"
| "split_loop (c # cs) cur toks =
     (if c = btsep then split_loop cs [] (toks @ [cur]) else split_loop cs (cur @ [c]) toks)"

definition tokens :: "string \<Rightarrow> string list" where
  "tokens subject = split_loop subject [] []"

definition channel_byte_ok :: "string \<Rightarrow> bool \<Rightarrow> nat \<Rightarrow> bool" where
  "channel_byte_ok channel wildcardsAllowed i =
     (let c = channel ! i in
      if c = slash then False
      else if c = btsep \<and> (i = length channel - 1 \<or> channel ! (i + 1) = btsep) then False
      else if \<not> wildcardsAllowed then \<not> (c = pwc \<or> c = fwc)
      else if c = pwc \<or> c = fwc then
        (if i > 0 \<and> channel ! (i - 1) \<noteq> btsep then False
         else if c = fwc \<and> i \<noteq> length channel - 1 then False
         else if i < length channel - 1 \<and> channel ! (i + 1) \<noteq> btsep then False
         else True)
      else True)"

function valid_loop :: "string \<Rightarrow> bool \<Rightarrow> nat \<Rightarrow> bool" where
  "valid_loop channel wildcardsAllowed i =
     (if i < length channel then
        (if channel_byte_ok channel wildcardsAllowed i
         then valid_loop channel wildcardsAllowed (i + 1) else False)
      else True)"
  by pat_completeness auto
termination
  by (relation "measure (\<lambda>(c, w, i). length c - i)") auto

declare valid_loop.simps [simp del]

definition IsChannelNameValid :: "string \<Rightarrow> bool \<Rightarrow> bool" where
  "IsChannelNameValid channel wildcardsAllowed =
     (if channel = [] \<or> channel ! 0 = btsep then False
      else valid_loop channel wildcardsAllowed 0)"

fun IsChannelNameLiteral :: "string \<Rightarrow> bool" where
  "IsChannelNameLiteral [] = True"
| "IsChannelNameLiteral (c # cs) =
     (if c = pwc \<or> c = fwc then False else IsChannelNameLiteral cs)"

section \<open>Specification over tokens\<close>

definition literal_token :: "string \<Rightarrow> bool" where
  "literal_token t \<longleftrightarrow> t \<noteq> [] \<and> slash \<notin> set t \<and> pwc \<notin> set t \<and> fwc \<notin> set t"

fun wild_tokens :: "string list \<Rightarrow> bool" where
  "wild_tokens [] = False"
| "wild_tokens [t] = (literal_token t \<or> t = [pwc] \<or> t = [fwc])"
| "wild_tokens (t # ts) = ((literal_token t \<or> t = [pwc]) \<and> wild_tokens ts)"

section \<open>Tokens\<close>

lemma split_loop_acc: "split_loop cs cur toks = toks @ split_loop cs cur []"
proof (induction cs arbitrary: cur toks)
  case (Cons c cs)
  show ?case
  proof (cases "c = btsep")
    case True
    then show ?thesis using Cons [of "[]" "toks @ [cur]"] Cons [of "[]" "[cur]"] by simp
  next
    case False
    then show ?thesis using Cons [of "cur @ [c]" toks] by simp
  qed
qed simp

lemma split_loop_nonempty: "split_loop cs cur toks \<noteq> []"
  by (induction cs arbitrary: cur toks) auto

lemma split_loop_cur:
  "split_loop cs cur [] = (cur @ hd (split_loop cs [] [])) # tl (split_loop cs [] [])"
proof (induction cs arbitrary: cur)
  case (Cons c cs)
  show ?case
  proof (cases "c = btsep")
    case True
    then show ?thesis
      using split_loop_acc [of cs "[]" "[cur]"] split_loop_acc [of cs "[]" "[[]]"] by simp
  next
    case False
    then show ?thesis using Cons [of "cur @ [c]"] Cons [of "[c]"] by simp
  qed
qed simp

lemma tokens_Nil [simp]: "tokens [] = [[]]"
  by (simp add: tokens_def)

lemma tokens_Cons [simp]:
  "tokens (c # cs) =
     (if c = btsep then [] # tokens cs else (c # hd (tokens cs)) # tl (tokens cs))"
  using split_loop_acc [of cs "[]" "[[]]"] split_loop_cur [of cs "[c]"]
  by (simp add: tokens_def)

lemma tokens_nonempty [simp]: "tokens s \<noteq> []"
  by (simp add: tokens_def split_loop_nonempty)

lemma hd_tokens_nonempty: "hd (tokens cs) \<noteq> [] \<longleftrightarrow> cs \<noteq> [] \<and> hd cs \<noteq> btsep"
  by (cases cs) auto

lemma btsep_notin_token: "t \<in> set (tokens s) \<Longrightarrow> btsep \<notin> set t"
proof (induction s arbitrary: t)
  case (Cons c cs)
  have "hd (tokens cs) \<in> set (tokens cs)" by simp
  moreover have "set (tl (tokens cs)) \<subseteq> set (tokens cs)"
    by (meson list.set_sel(2) subsetI tokens_nonempty)
  ultimately show ?case using Cons by (auto split: if_splits)
qed simp

text \<open>A subject is its tokens joined by the separator.\<close>

fun join_tokens :: "string list \<Rightarrow> string" where
  "join_tokens [] = []"
| "join_tokens [t] = t"
| "join_tokens (t # ts) = t @ btsep # join_tokens ts"

lemma join_tokens_Cons: "ts \<noteq> [] \<Longrightarrow> join_tokens (t # ts) = t @ btsep # join_tokens ts"
  by (cases ts) auto

lemma join_tokens_tokens: "join_tokens (tokens s) = s"
proof (induction s)
  case (Cons c cs)
  obtain t ts where t: "tokens cs = t # ts" by (cases "tokens cs") auto
  with Cons show ?case by (cases ts) auto
qed simp

lemma tokens_append_sep: "btsep \<notin> set t \<Longrightarrow> tokens (t @ btsep # s) = t # tokens s"
  by (induction t) auto

lemma tokens_no_sep: "btsep \<notin> set t \<Longrightarrow> tokens t = [t]"
  by (induction t) auto

lemma tokens_join_tokens:
  "ts \<noteq> [] \<Longrightarrow> \<forall>t \<in> set ts. btsep \<notin> set t \<Longrightarrow> tokens (join_tokens ts) = ts"
  by (induction ts rule: join_tokens.induct) (auto simp: tokens_no_sep tokens_append_sep)

lemma tokens_inject: "tokens a = tokens b \<longleftrightarrow> a = b"
  by (metis join_tokens_tokens)

section \<open>The byte scan\<close>

text \<open>The loop as a recursion over the rest of the name, with the byte before it.\<close>

fun scan :: "bool \<Rightarrow> char option \<Rightarrow> string \<Rightarrow> bool" where
  "scan w p [] = True"
| "scan w p (c # cs) =
     (c \<noteq> slash \<and> \<not> (c = btsep \<and> (cs = [] \<or> hd cs = btsep)) \<and>
      (c = pwc \<or> c = fwc \<longrightarrow>
         w \<and> (p = None \<or> p = Some btsep) \<and> (c = fwc \<longrightarrow> cs = []) \<and> (cs = [] \<or> hd cs = btsep)) \<and>
      scan w (Some c) cs)"

lemma channel_byte_ok_step:
  assumes "i < length ch" and "c = ch ! i" and "cs = drop (i + 1) ch"
    and "p = (if i = 0 then None else Some (ch ! (i - 1)))"
  shows "channel_byte_ok ch w i \<longleftrightarrow>
     c \<noteq> slash \<and> \<not> (c = btsep \<and> (cs = [] \<or> hd cs = btsep)) \<and>
     (c = pwc \<or> c = fwc \<longrightarrow>
        w \<and> (p = None \<or> p = Some btsep) \<and> (c = fwc \<longrightarrow> cs = []) \<and> (cs = [] \<or> hd cs = btsep))"
proof -
  have "cs = [] \<longleftrightarrow> i = length ch - 1" "i < length ch - 1 \<longleftrightarrow> i \<noteq> length ch - 1"
    using assms by auto
  moreover have "i \<noteq> length ch - 1 \<Longrightarrow> hd cs = ch ! (i + 1)"
    using assms by (simp add: hd_drop_conv_nth)
  moreover have "p = None \<or> p = Some btsep \<longleftrightarrow> \<not> (i > 0 \<and> ch ! (i - 1) \<noteq> btsep)"
    using assms by simp
  ultimately show ?thesis
    unfolding channel_byte_ok_def Let_def assms(2) [symmetric]
    by (cases "i = length ch - 1"; cases w) simp_all
qed

lemma valid_loop_scan:
  "i \<le> length ch \<Longrightarrow>
   valid_loop ch w i = scan w (if i = 0 then None else Some (ch ! (i - 1))) (drop i ch)"
proof (induction ch w i rule: valid_loop.induct)
  case (1 ch w i)
  show ?case
  proof (cases "i < length ch")
    case False
    with "1.prems" show ?thesis by (subst valid_loop.simps) simp
  next
    case True
    then have dr: "drop i ch = ch ! i # drop (i + 1) ch" by (simp add: Cons_nth_drop_Suc)
    have "channel_byte_ok ch w i \<Longrightarrow>
        valid_loop ch w (i + 1) = scan w (Some (ch ! i)) (drop (i + 1) ch)"
      using "1.IH" [OF True] True by simp
    then show ?thesis
      using channel_byte_ok_step [OF True refl refl refl, of w] True
      by (subst valid_loop.simps) (simp only: dr scan.simps if_True, auto)
  qed
qed

lemma scan_literal:
  "scan False p cs \<longleftrightarrow>
     (slash \<notin> set (hd (tokens cs)) \<and> pwc \<notin> set (hd (tokens cs)) \<and> fwc \<notin> set (hd (tokens cs))) \<and>
     (\<forall>t \<in> set (tl (tokens cs)). literal_token t)"
proof (induction cs arbitrary: p)
  case (Cons c cs)
  obtain t ts where t: "tokens cs = t # ts" by (cases "tokens cs") auto
  with hd_tokens_nonempty [of cs] have "t \<noteq> [] \<longleftrightarrow> cs \<noteq> [] \<and> hd cs \<noteq> btsep" by simp
  with Cons [of "Some c"] t show ?case by (auto simp: literal_token_def)
qed simp

definition mid_tokens :: "string list \<Rightarrow> bool" where
  "mid_tokens ts \<longleftrightarrow>
     slash \<notin> set (hd ts) \<and> pwc \<notin> set (hd ts) \<and> fwc \<notin> set (hd ts) \<and>
     (tl ts \<noteq> [] \<longrightarrow> wild_tokens (tl ts))"

lemma wild_tokens_Cons:
  "ts \<noteq> [] \<Longrightarrow> wild_tokens (t # ts) = ((literal_token t \<or> t = [pwc]) \<and> wild_tokens ts)"
  by (cases ts) auto

lemma wild_tokens_hd: "wild_tokens ts \<Longrightarrow> hd ts \<noteq> []"
  by (induction ts rule: wild_tokens.induct) (auto simp: literal_token_def)

lemma scan_wild:
  "(\<forall>p. p \<noteq> None \<and> p \<noteq> Some btsep \<longrightarrow> scan True p cs = mid_tokens (tokens cs)) \<and>
   (\<forall>p. (p = None \<or> p = Some btsep) \<and> cs \<noteq> [] \<and> hd cs \<noteq> btsep \<longrightarrow>
        scan True p cs = wild_tokens (tokens cs))"
proof (induction cs)
  case Nil
  then show ?case by (simp add: mid_tokens_def)
next
  case (Cons c cs)
  obtain t ts where t: "tokens cs = t # ts" by (cases "tokens cs") auto
  have ne: "t \<noteq> [] \<longleftrightarrow> cs \<noteq> [] \<and> hd cs \<noteq> btsep" using hd_tokens_nonempty [of cs] t by simp
  have mid: "scan True (Some c) cs = mid_tokens (t # ts)" if "c \<noteq> btsep" using Cons t that by simp
  have start: "scan True (Some btsep) cs = wild_tokens (t # ts)" if "t \<noteq> []"
    using Cons t that ne by simp
  have bad: "\<not> wild_tokens (t # ts)" if "t = []" using wild_tokens_hd [of "t # ts"] that by auto
  show ?case
  proof (cases "c = btsep")
    case True
    then show ?thesis using t ne start bad by (auto simp: mid_tokens_def)
  next
    case False
    have tk: "tokens (c # cs) = (c # t) # ts" using False t by simp
    have cst: "cs = [] \<longleftrightarrow> t = [] \<and> ts = []" using t ne by (cases cs) auto
    show ?thesis
      using False mid ne cst unfolding tk
      by (cases ts) (auto simp: mid_tokens_def literal_token_def wild_tokens_Cons)
  qed
qed

lemma IsChannelNameValid_scan:
  "IsChannelNameValid ch w \<longleftrightarrow> ch \<noteq> [] \<and> hd ch \<noteq> btsep \<and> scan w None ch"
  by (auto simp: IsChannelNameValid_def valid_loop_scan hd_conv_nth)

lemma valid_literal_tokens:
  "IsChannelNameValid ch False \<longleftrightarrow> (\<forall>t \<in> set (tokens ch). literal_token t)"
proof -
  obtain t ts where t: "tokens ch = t # ts" by (cases "tokens ch") auto
  with hd_tokens_nonempty [of ch] have "t \<noteq> [] \<longleftrightarrow> ch \<noteq> [] \<and> hd ch \<noteq> btsep" by simp
  then show ?thesis unfolding IsChannelNameValid_scan scan_literal t
    by (auto simp: literal_token_def)
qed

lemma valid_wild_tokens: "IsChannelNameValid ch True \<longleftrightarrow> wild_tokens (tokens ch)"
proof (cases "ch \<noteq> [] \<and> hd ch \<noteq> btsep")
  case True
  then show ?thesis using scan_wild [of ch] by (simp add: IsChannelNameValid_scan)
next
  case False
  then have "hd (tokens ch) = []" using hd_tokens_nonempty [of ch] by blast
  then show ?thesis using wild_tokens_hd [of "tokens ch"] False by (auto simp: IsChannelNameValid_scan)
qed

section \<open>Properties\<close>

text \<open>C37: \<open>IsChannelNameValid\<close> accepts a name without wildcards exactly when every token of it is
  non-empty and has no slash and no wildcard character, and a name with wildcards exactly when
  in addition a wildcard is a whole token and \<open>>\<close> is the last one.\<close>

theorem IsChannelNameValid_spec:
  "IsChannelNameValid ch w = (if w then wild_tokens (tokens ch) else list_all literal_token (tokens ch))"
  by (simp add: valid_literal_tokens valid_wild_tokens list_all_iff)

end
