(* ===== verification/Subject_Sublist.thy ===== *)
theory Subject_Sublist
  imports Channel_Names
begin

text \<open>
  The subject index of \<open>util/sublist.go\<close>: a trie of tokens with wildcard nodes, a bounded
  cache of match results in front of it and an element count.
\<close>

section \<open>Model\<close>

datatype sublist_err = ErrInvalidSubject | ErrNotFound

datatype 'a level = Level
    (nodes: "(string, 'a node) gomap") (lpwc: "'a node option") (lfwc: "'a node option")
  and 'a node = Node (nextl: "'a level option") (elements: "'a list")

definition newLevel :: "'a level" where
  "newLevel = Level [] None None"

definition newNode :: "'a node" where
  "newNode = Node None []"

record 'a sublist =
  root :: "'a level"
  cache :: "(string, 'a list) gomap"
  slcount :: u32

definition NewSublist :: "'a sublist" where
  "NewSublist = \<lparr>root = newLevel, cache = [], slcount = 0\<rparr>"

definition slCacheMax :: nat where
  "slCacheMax = 1024"

text \<open>The three-way switch on the first byte of a token, for reading and for writing.\<close>

definition get_node :: "'a level \<Rightarrow> string \<Rightarrow> 'a node option" where
  "get_node l t =
     (if hd t = pwc then lpwc l else if hd t = fwc then lfwc l else mget (nodes l) t)"

definition put_node :: "'a level \<Rightarrow> string \<Rightarrow> 'a node \<Rightarrow> 'a level" where
  "put_node l t n =
     (if hd t = pwc then Level (nodes l) (Some n) (lfwc l)
      else if hd t = fwc then Level (nodes l) (lpwc l) (Some n)
      else Level (mput t n (nodes l)) (lpwc l) (lfwc l))"

text \<open>
  The loop of \<open>Insert\<close>. An invalid token stops it with an error and leaves the nodes
  created for the tokens before it in place.
\<close>

fun insert_tokens ::
  "string list \<Rightarrow> bool \<Rightarrow> 'a \<Rightarrow> 'a level \<Rightarrow> sublist_err option \<times> 'a level" where
  "insert_tokens [] sfwc e l = (None, l)"
| "insert_tokens (t # ts) sfwc e l =
     (if t = [] \<or> sfwc then (Some ErrInvalidSubject, l)
      else
        let sfwc' = (sfwc \<or> hd t = fwc);
            n = (case get_node l t of None \<Rightarrow> newNode | Some n \<Rightarrow> n);
            lnext = (case nextl n of None \<Rightarrow> newLevel | Some l' \<Rightarrow> l')
        in if ts = [] then (None, put_node l t (Node (Some lnext) (elements n @ [e])))
           else (let (err, l') = insert_tokens ts sfwc' e lnext
                 in (err, put_node l t (Node (Some l') (elements n)))))"

text \<open>
  \<open>matchLiteral\<close>, with the rest of the literal (from index \<open>li\<close>) as its first argument:
  after a \<open>*\<close> the decrement and increment of \<open>li\<close> cancel, which leaves the literal at the
  next separator or at its end.
\<close>

fun matchLiteral :: "string \<Rightarrow> string \<Rightarrow> bool" where
  "matchLiteral lit [] = (lit = [])"
| "matchLiteral [] (b # bs) = False"
| "matchLiteral (r # rs) (b # bs) =
     (if b = pwc then matchLiteral (dropWhile (\<lambda>c. c \<noteq> btsep) (r # rs)) bs
      else if b = fwc then True
      else if b \<noteq> r then False
      else matchLiteral rs bs)"

definition addToCache :: "string \<Rightarrow> 'a \<Rightarrow> (string, 'a list) gomap \<Rightarrow> (string, 'a list) gomap" where
  "addToCache subject e c = map (\<lambda>(k, r). (k, if matchLiteral k subject then r @ [e] else r)) c"

definition removeFromCache :: "string \<Rightarrow> (string, 'a list) gomap \<Rightarrow> (string, 'a list) gomap" where
  "removeFromCache subject c = filter (\<lambda>(k, r). \<not> matchLiteral k subject) c"

definition Insert :: "string \<Rightarrow> 'a \<Rightarrow> 'a sublist \<Rightarrow> sublist_err option \<times> 'a sublist" where
  "Insert subject e s =
     (case insert_tokens (tokens subject) False e (root s) of
        (Some err, l) \<Rightarrow> (Some err, s\<lparr>root := l\<rparr>)
      | (None, l) \<Rightarrow>
          (None, s\<lparr>root := l, cache := addToCache subject e (cache s), slcount := slcount s + 1\<rparr>))"

text \<open>
  \<open>matchLevel\<close>: \<open>p\<close> and \<open>n\<close> are the variables \<open>pwc\<close> and \<open>n\<close> of the last iteration.
\<close>

fun match_loop ::
  "'a level option \<Rightarrow> 'a node option \<Rightarrow> 'a node option \<Rightarrow> string list \<Rightarrow> 'a list \<Rightarrow> 'a list" where
  "match_loop l p n [] res =
     (let res1 = (case p of None \<Rightarrow> res | Some p' \<Rightarrow> res @ elements p')
      in case n of None \<Rightarrow> res1 | Some n' \<Rightarrow> res1 @ elements n')"
| "match_loop None p n (t # ts) res = res"
| "match_loop (Some l) p n (t # ts) res =
     (let res1 = (case lfwc l of None \<Rightarrow> res | Some f \<Rightarrow> res @ elements f);
          p' = lpwc l;
          res2 = (case p' of None \<Rightarrow> res1 | Some pn \<Rightarrow> match_loop (nextl pn) None None ts res1);
          n' = mget (nodes l) t;
          l' = (case n' of None \<Rightarrow> None | Some nn \<Rightarrow> nextl nn)
      in match_loop l' p' n' ts res2)"

definition matchLevel :: "'a level \<Rightarrow> string list \<Rightarrow> 'a list" where
  "matchLevel l toks = match_loop (Some l) None None toks []"

text \<open>
  \<open>Match\<close>: the key evicted from a full cache is whichever the iteration over the map yields
  first, the parameter \<open>evict\<close>.
\<close>

definition Match ::
  "((string, 'a list) gomap \<Rightarrow> string) \<Rightarrow> string \<Rightarrow> 'a sublist \<Rightarrow> 'a list \<times> 'a sublist" where
  "Match evict subject s =
     (case mget (cache s) subject of
        Some rc \<Rightarrow> (rc, s)
      | None \<Rightarrow>
          let result = matchLevel (root s) (tokens subject);
              c = mput subject result (cache s);
              c' = (if length c > slCacheMax then mdel (evict c) c else c)
          in (result, s\<lparr>cache := c'\<rparr>))"

definition numNodes :: "'a level \<Rightarrow> nat" where
  "numNodes l =
     length (nodes l) + (if lpwc l \<noteq> None then 1 else 0) + (if lfwc l \<noteq> None then 1 else 0)"

definition isEmpty :: "'a node \<Rightarrow> bool" where
  "isEmpty n =
     (if length (elements n) = 0
      then (case nextl n of None \<Rightarrow> True | Some l \<Rightarrow> numNodes l = 0)
      else False)"

definition pruneNode :: "'a level \<Rightarrow> string \<Rightarrow> 'a level" where
  "pruneNode l t =
     (if hd t = fwc then Level (nodes l) (lpwc l) None
      else if hd t = pwc then Level (nodes l) None (lfwc l)
      else Level (mdel t (nodes l)) (lpwc l) (lfwc l))"

definition removeFromList :: "'a \<Rightarrow> 'a list \<Rightarrow> 'a list \<times> bool" where
  "removeFromList e l = delete_swap e l"

text \<open>
  The descent of \<open>Remove\<close> and the pruning on the way back: a level changes only when the
  element was found under the last token.
\<close>

fun remove_tokens ::
  "string list \<Rightarrow> bool \<Rightarrow> 'a \<Rightarrow> 'a level option \<Rightarrow> (sublist_err, 'a level) res" where
  "remove_tokens [] sfwc e l = Inl ErrNotFound"
| "remove_tokens (t # ts) sfwc e l =
     (if t = [] \<or> sfwc then Inl ErrInvalidSubject
      else case l of
        None \<Rightarrow> Inl ErrNotFound
      | Some lv \<Rightarrow>
          let sfwc' = (sfwc \<or> hd t = fwc)
          in case get_node lv t of
               None \<Rightarrow>
                 (if ts = [] then Inl ErrNotFound else remove_tokens ts sfwc' e None)
             | Some n \<Rightarrow>
                 (if ts = [] then
                    (let (els, found) = removeFromList e (elements n);
                         n' = Node (nextl n) els
                     in if \<not> found then Inl ErrNotFound
                        else Inr (if isEmpty n' then pruneNode lv t else put_node lv t n'))
                  else case remove_tokens ts sfwc' e (nextl n) of
                         Inl err \<Rightarrow> Inl err
                       | Inr l' \<Rightarrow>
                           (let n' = Node (Some l') (elements n)
                            in Inr (if isEmpty n' then pruneNode lv t else put_node lv t n'))))"

definition Remove :: "string \<Rightarrow> 'a \<Rightarrow> 'a sublist \<Rightarrow> sublist_err option \<times> 'a sublist" where
  "Remove subject e s =
     (case remove_tokens (tokens subject) False e (Some (root s)) of
        Inl err \<Rightarrow> (Some err, s)
      | Inr l \<Rightarrow>
          (None, s\<lparr>root := l, cache := removeFromCache subject (cache s), slcount := slcount s - 1\<rparr>))"

definition Count :: "'a sublist \<Rightarrow> u32" where
  "Count s = slcount s"

definition CacheCount :: "'a sublist \<Rightarrow> nat" where
  "CacheCount s = length (cache s)"


text \<open>
  \<open>getSubjects\<close> and \<open>visitLevel\<close>. The order in which \<open>range\<close> yields the literal nodes of a level
  is the parameter \<open>perm\<close>, applied to the keys of the map.
\<close>

definition sub_token :: "string \<Rightarrow> string \<Rightarrow> string" where
  "sub_token subject t = (if subject \<noteq> [] then subject @ [btsep] @ t else t)"

lemma size_next: "size_option size (nextl n) \<le> size n"
  by (cases n) (auto split: option.split)

lemma size_child:
  "lpwc l = Some n \<Longrightarrow> size n < size l"
  "lfwc l = Some n \<Longrightarrow> size n < size l"
  "mget (nodes l) t = Some n \<Longrightarrow> size n < size l"
proof -
  show "size n < size l" if "mget (nodes l) t = Some n"
  proof -
    from that have "(t, n) \<in> set (nodes l)" by (rule map_of_SomeD)
    then have "size n < size_list (size_prod (\<lambda>x. 0) size) (nodes l)"
      by (rule size_list_estimation) simp
    then show ?thesis by (cases l) simp
  qed
qed (cases l; simp)+

lemma size_next_child:
  "lpwc l = Some n \<Longrightarrow> size_option size (nextl n) < Suc (size l)"
  "lfwc l = Some n \<Longrightarrow> size_option size (nextl n) < Suc (size l)"
  "mget (nodes l) t = Some n \<Longrightarrow> size_option size (nextl n) < Suc (size l)"
  by (rule le_less_trans [OF size_next], drule size_child, simp)+

function getSubjects :: "(string list \<Rightarrow> string list) \<Rightarrow> 'a level option \<Rightarrow> string \<Rightarrow> string list" where
  "getSubjects perm None subject = []"
| "getSubjects perm (Some l) subject =
     (if numNodes l = 0 then []
      else
        (case lfwc l of None \<Rightarrow> [] | Some n \<Rightarrow> [sub_token subject [fwc]]) @
        (case lpwc l of
           None \<Rightarrow> []
         | Some n \<Rightarrow>
             (let fs = sub_token subject [pwc]
              in (if length (elements n) > 0 then [fs] else []) @ getSubjects perm (nextl n) fs)) @
        concat (map (\<lambda>t. case mget (nodes l) t of
             None \<Rightarrow> []
           | Some n \<Rightarrow>
               (let fs = sub_token subject t
                in (if length (elements n) > 0 then [fs] else []) @ getSubjects perm (nextl n) fs))
          (perm (map fst (nodes l)))))"
  by pat_completeness auto
termination
  by (relation "measure (\<lambda>(_, l, _). size_option size l)") (auto dest: size_next_child)

function visitLevel :: "'a level option \<Rightarrow> int \<Rightarrow> int" where
  "visitLevel None depth = depth"
| "visitLevel (Some l) depth =
     (if numNodes l = 0 then depth
      else
        let depth1 = depth + 1;
            m0 = foldl (\<lambda>m t. case mget (nodes l) t of
                   None \<Rightarrow> m | Some n \<Rightarrow> max m (visitLevel (nextl n) depth1)) depth1 (map fst (nodes l));
            m1 = (case lpwc l of None \<Rightarrow> m0 | Some n \<Rightarrow> max m0 (visitLevel (nextl n) depth1))
        in case lfwc l of None \<Rightarrow> m1 | Some n \<Rightarrow> max m1 (visitLevel (nextl n) depth1))"
  by pat_completeness auto
termination
  by (relation "measure (\<lambda>(l, _). size_option size l)") (auto dest: size_next_child)

definition NumLevels :: "'a sublist \<Rightarrow> int" where
  "NumLevels s = visitLevel (Some (root s)) 0"

definition Subjects :: "(string list \<Rightarrow> string list) \<Rightarrow> 'a sublist \<Rightarrow> string list" where
  "Subjects perm s = getSubjects perm (Some (root s)) []"


section \<open>Pattern tokens and their entries\<close>

datatype ptok = Pwc | Fwc | Lit string

definition ptok_of :: "string \<Rightarrow> ptok" where
  "ptok_of t = (if hd t = pwc then Pwc else if hd t = fwc then Fwc else Lit t)"

fun child :: "'a level \<Rightarrow> ptok \<Rightarrow> 'a node option" where
  "child l Pwc = lpwc l"
| "child l Fwc = lfwc l"
| "child l (Lit t) = mget (nodes l) t"

text \<open>The elements stored under a pattern: the abstraction of a level of the trie.\<close>

fun entries :: "'a level \<Rightarrow> ptok list \<Rightarrow> 'a list" where
  "entries l [] = []"
| "entries l (p # ps) =
     (case child l p of
        None \<Rightarrow> []
      | Some n \<Rightarrow>
          (if ps = [] then elements n
           else case nextl n of None \<Rightarrow> [] | Some l' \<Rightarrow> entries l' ps))"

text \<open>When a pattern matches the tokens of a literal subject.\<close>

fun ptoks_match :: "ptok list \<Rightarrow> string list \<Rightarrow> bool" where
  "ptoks_match [] ts = (ts = [])"
| "ptoks_match (Fwc # ps) ts = (ps = [] \<and> ts \<noteq> [])"
| "ptoks_match (Pwc # ps) (t # ts) = ptoks_match ps ts"
| "ptoks_match (Lit s # ps) (t # ts) = (s = t \<and> ptoks_match ps ts)"
| "ptoks_match (p # ps) [] = False"

text \<open>The patterns that match, from the widest to the narrowest.\<close>

fun pats :: "string list \<Rightarrow> ptok list list" where
  "pats [] = []"
| "pats [t] = [[Fwc], [Pwc], [Lit t]]"
| "pats (t # ts) = [Fwc] # map (Cons Pwc) (pats ts) @ map (Cons (Lit t)) (pats ts)"

lemma pats_Cons:
  "ts \<noteq> [] \<Longrightarrow> pats (t # ts) = [Fwc] # map (Cons Pwc) (pats ts) @ map (Cons (Lit t)) (pats ts)"
  by (cases ts) auto

lemma ptoks_match_Nil_tokens: "ptoks_match ps [] \<longleftrightarrow> ps = []"
  by (cases "(ps, [] :: string list)" rule: ptoks_match.cases) auto

lemma set_pats: "toks \<noteq> [] \<Longrightarrow> ps \<in> set (pats toks) \<longleftrightarrow> ptoks_match ps toks"
proof (induction toks arbitrary: ps rule: pats.induct)
  case (2 t)
  show ?case by (cases "(ps, [t])" rule: ptoks_match.cases) (auto simp: ptoks_match_Nil_tokens)
next
  case (3 t t' ts)
  show ?case using 3 by (cases "(ps, t # t' # ts)" rule: ptoks_match.cases) auto
qed simp

lemma pats_nonempty: "ps \<in> set (pats toks) \<Longrightarrow> ps \<noteq> []"
  by (induction toks rule: pats.induct) auto

lemma distinct_pats: "distinct (pats toks)"
  by (induction toks rule: pats.induct) (auto simp: distinct_map)

lemma entries_newLevel [simp]: "entries newLevel ps = []"
proof (cases ps)
  case (Cons p qs)
  then show ?thesis by (cases p) (auto simp: newLevel_def)
qed simp

lemma concat_entries_Cons:
  "concat (map (entries l) (map (Cons p) (pats ts))) =
     (case child l p of
        None \<Rightarrow> []
      | Some n \<Rightarrow> (case nextl n of None \<Rightarrow> [] | Some l' \<Rightarrow> concat (map (entries l') (pats ts))))"
proof -
  have "map (entries l) (map (Cons p) (pats ts)) = map (\<lambda>ps. case child l p of
        None \<Rightarrow> []
      | Some n \<Rightarrow> (case nextl n of None \<Rightarrow> [] | Some l' \<Rightarrow> entries l' ps)) (pats ts)"
    unfolding map_map o_def by (rule map_cong) (auto dest: pats_nonempty split: option.split)
  then show ?thesis by (simp only:) (auto simp: concat_map_singleton split: option.split)
qed

definition match_all :: "'a level option \<Rightarrow> string list \<Rightarrow> 'a list" where
  "match_all l toks = (case l of None \<Rightarrow> [] | Some l' \<Rightarrow> concat (map (entries l') (pats toks)))"

lemma match_all_Cons:
  assumes "ts \<noteq> []"
  shows "match_all (Some l) (t # ts) =
     entries l [Fwc] @
     (case lpwc l of None \<Rightarrow> [] | Some p \<Rightarrow> match_all (nextl p) ts) @
     (case mget (nodes l) t of None \<Rightarrow> [] | Some n \<Rightarrow> match_all (nextl n) ts)"
  using concat_entries_Cons [of l Pwc ts] concat_entries_Cons [of l "Lit t" ts]
  by (simp only: match_all_def pats_Cons [OF assms] map_append concat_append list.map concat.simps
      option.case child.simps)

lemma match_loop_entries:
  "toks \<noteq> [] \<Longrightarrow> match_loop l p n toks res = res @ match_all l toks"
proof (induction toks arbitrary: l p n res)
  case (Cons t ts)
  show ?case
  proof (cases l)
    case None
    then show ?thesis by (simp add: match_all_def)
  next
    case (Some lv)
    show ?thesis
    proof (cases "ts = []")
      case True
      then show ?thesis using Some by (simp add: Let_def match_all_def split: option.split)
    next
      case False
      have "match_all (None :: 'a level option) ts = []" by (simp add: match_all_def)
      then show ?thesis
        unfolding Some match_all_Cons [OF False] match_loop.simps Let_def Cons.IH [OF False]
        by (simp split: option.split)
    qed
  qed
qed simp

lemma matchLevel_entries:
  "toks \<noteq> [] \<Longrightarrow> matchLevel l toks = concat (map (entries l) (pats toks))"
  by (simp add: matchLevel_def match_loop_entries match_all_def)

section \<open>Insertion and removal of entries\<close>

lemma child_put_node [simp]:
  "t \<noteq> [] \<Longrightarrow> child (put_node l t n) p = (if p = ptok_of t then Some n else child l p)"
  by (cases p) (auto simp: put_node_def ptok_of_def)

lemma get_node_child: "get_node l t = child l (ptok_of t)"
  by (simp add: get_node_def ptok_of_def)

lemma child_pruneNode [simp]:
  "t \<noteq> [] \<Longrightarrow> child (pruneNode l t) p = (if p = ptok_of t then None else child l p)"
  by (cases p) (auto simp: pruneNode_def ptok_of_def)

lemma insert_tokens_entries:
  "insert_tokens toks sfwc e l = (err, l') \<Longrightarrow> toks \<noteq> [] \<Longrightarrow>
   entries l' ps = entries l ps @ (if err = None \<and> ps = map ptok_of toks then [e] else [])"
proof (induction toks sfwc e l arbitrary: err l' ps rule: insert_tokens.induct)
  case (2 t ts sfwc e l)
  show ?case
  proof (cases "t = [] \<or> sfwc")
    case True
    with "2.prems" show ?thesis by auto
  next
    case False
    define n where "n = (case get_node l t of None \<Rightarrow> newNode | Some n \<Rightarrow> n)"
    define lnext where "lnext = (case nextl n of None \<Rightarrow> newLevel | Some l' \<Rightarrow> l')"
    have old: "entries l (ptok_of t # qs) = (if qs = [] then elements n else entries lnext qs)" for qs
      by (auto simp: n_def lnext_def get_node_child newNode_def split: option.split)
    show ?thesis
    proof (cases "ts = []")
      case True
      with "2.prems" False have "err = None"
        "l' = put_node l t (Node (Some lnext) (elements n @ [e]))"
        by (auto simp: Let_def n_def lnext_def)
      with True False old show ?thesis by (cases ps) auto
    next
      case ts: False
      obtain l2 where l2: "insert_tokens ts (sfwc \<or> hd t = fwc) e lnext = (err, l2)"
        "l' = put_node l t (Node (Some l2) (elements n))"
        using "2.prems" False ts
        by (auto simp: Let_def n_def lnext_def split: prod.splits)
      have ih: "entries l2 qs = entries lnext qs @ (if err = None \<and> qs = map ptok_of ts then [e] else [])" for qs
        using "2.IH" [OF False refl n_def lnext_def ts l2(1) ts] .
      show ?thesis using ts False old ih l2(2) by (cases ps) auto
    qed
  qed
qed simp

lemma isEmpty_entries:
  "isEmpty (Node nx els) \<Longrightarrow> els = [] \<and> (case nx of None \<Rightarrow> True | Some l \<Rightarrow> \<forall>ps. entries l ps = [])"
proof -
  have "entries l ps = []" if "numNodes l = 0" for l :: "'a level" and ps
  proof -
    have "l = newLevel"
      using that by (cases l) (auto simp: numNodes_def newLevel_def split: if_splits)
    then show ?thesis by simp
  qed
  then show "isEmpty (Node nx els) \<Longrightarrow> ?thesis"
    by (auto simp: isEmpty_def split: if_splits option.splits)
qed


lemma entries_pruned:
  assumes "t \<noteq> []" and "child l (ptok_of t) = Some n"
    and "l' = (if isEmpty (Node nx els) then pruneNode l t else put_node l t (Node nx els))"
  shows "entries l' (p # ps) =
     (if p = ptok_of t
      then (if ps = [] then els else case nx of None \<Rightarrow> [] | Some l2 \<Rightarrow> entries l2 ps)
      else entries l (p # ps))"
  using assms isEmpty_entries [of nx els] by (auto split: option.split)

lemma remove_tokens_None: "\<exists>err. remove_tokens toks sfwc e None = Inl err"
  by (cases toks) auto

lemma remove_tokens_entries:
  "remove_tokens toks sfwc e lo = Inr l' \<Longrightarrow>
   \<exists>l. lo = Some l \<and> toks \<noteq> [] \<and> e \<in> set (entries l (map ptok_of toks)) \<and>
     (\<forall>ps. entries l' ps =
        (if ps = map ptok_of toks then fst (delete_swap e (entries l ps)) else entries l ps))"
proof (induction toks sfwc e lo arbitrary: l' rule: remove_tokens.induct)
  case (2 t ts sfwc e lo)
  from "2.prems" have t: "\<not> (t = [] \<or> sfwc)" by (auto split: if_splits)
  with "2.prems" obtain lv n where lo: "lo = Some lv" and n: "child lv (ptok_of t) = Some n"
    using remove_tokens_None [of ts "sfwc \<or> hd t = fwc" e]
    by (auto simp: get_node_child Let_def split: option.splits if_splits)
  show ?case
  proof (cases "ts = []")
    case True
    define els where "els = fst (delete_swap e (elements n))"
    from "2.prems" True t lo n have mem: "e \<in> set (elements n)"
      and l': "l' = (if isEmpty (Node (nextl n) els) then pruneNode lv t else put_node lv t (Node (nextl n) els))"
      using delete_swap_found [of e "elements n"]
      by (simp_all add: Let_def get_node_child removeFromList_def els_def case_prod_unfold
          split: if_splits)
    have "entries l' ps = (if ps = [ptok_of t] then els else entries lv ps)" for ps
    proof (cases ps)
      case (Cons p qs)
      with entries_pruned [OF _ n l', of p qs] t n show ?thesis by (auto split: option.split)
    qed simp
    with True lo n mem show ?thesis by (auto simp: els_def)
  next
    case False
    with "2.prems" t lo n obtain l2 where l2: "remove_tokens ts (sfwc \<or> hd t = fwc) e (nextl n) = Inr l2"
      and l': "l' = (if isEmpty (Node (Some l2) (elements n)) then pruneNode lv t
                     else put_node lv t (Node (Some l2) (elements n)))"
      by (auto simp: Let_def get_node_child split: sum.splits)
    from "2.IH"(2) [OF t lo refl _ False l2] n obtain nx where nx: "nextl n = Some nx"
      and mem: "e \<in> set (entries nx (map ptok_of ts))"
      and ih: "\<And>ps. entries l2 ps =
        (if ps = map ptok_of ts then fst (delete_swap e (entries nx ps)) else entries nx ps)"
      by (auto simp: get_node_child)
    have "entries l' ps = (if ps = map ptok_of (t # ts)
        then fst (delete_swap e (entries lv ps)) else entries lv ps)" for ps
    proof (cases ps)
      case (Cons p qs)
      with entries_pruned [OF _ n l', of p qs] t n nx ih False show ?thesis by auto
    qed simp
    with lo n nx mem False show ?thesis by auto
  qed
qed simp

lemma insert_tokens_wild:
  "wild_tokens toks \<Longrightarrow> \<not> sfwc \<Longrightarrow> fst (insert_tokens toks sfwc e l) = None"
proof (induction toks arbitrary: sfwc l)
  case (Cons t ts)
  show ?case
  proof (cases "ts = []")
    case True
    with Cons.prems show ?thesis by (auto simp: Let_def literal_token_def)
  next
    case False
    with Cons.prems have t: "literal_token t \<or> t = [pwc]" and ts: "wild_tokens ts"
      by (simp_all add: wild_tokens_Cons)
    from t have ne: "t \<noteq> []" and nf: "hd t \<noteq> fwc"
      by (auto simp: literal_token_def dest: hd_in_set)
    show ?thesis
      using Cons.IH [OF ts, of False] Cons.prems False ne nf
      by (simp add: Let_def case_prod_unfold)
  qed
qed simp

lemma ptok_of_inject:
  "literal_token t \<or> t = [pwc] \<or> t = [fwc] \<Longrightarrow> literal_token u \<or> u = [pwc] \<or> u = [fwc] \<Longrightarrow>
   ptok_of t = ptok_of u \<Longrightarrow> t = u"
  by (auto simp: ptok_of_def literal_token_def split: if_splits) (metis hd_in_set)+

lemma wild_tokens_all: "wild_tokens ts \<Longrightarrow> t \<in> set ts \<Longrightarrow> literal_token t \<or> t = [pwc] \<or> t = [fwc]"
  by (induction ts rule: wild_tokens.induct) auto

definition pattern :: "string \<Rightarrow> ptok list" where
  "pattern subject = map ptok_of (tokens subject)"

lemma pattern_inject:
  assumes "IsChannelNameValid a True" "IsChannelNameValid b True" "pattern a = pattern b"
  shows "a = b"
proof -
  have "inj_on ptok_of (set (tokens a) \<union> set (tokens b))"
  proof (rule inj_onI)
    fix t u
    assume "t \<in> set (tokens a) \<union> set (tokens b)" "u \<in> set (tokens a) \<union> set (tokens b)"
      and eq: "ptok_of t = ptok_of u"
    then have "literal_token t \<or> t = [pwc] \<or> t = [fwc]" "literal_token u \<or> u = [pwc] \<or> u = [fwc]"
      using assms(1,2) wild_tokens_all unfolding valid_wild_tokens by blast+
    then show "t = u" using eq by (rule ptok_of_inject)
  qed
  with assms(3) have "tokens a = tokens b"
    unfolding pattern_def by (simp add: inj_on_map_eq_map)
  then show ?thesis by (simp add: tokens_inject)
qed

section \<open>The cache filter\<close>

text \<open>A subject without empty tokens: what \<open>Match\<close> is called with.\<close>

definition plain_subject :: "string \<Rightarrow> bool" where
  "plain_subject k \<longleftrightarrow> (\<forall>t \<in> set (tokens k). t \<noteq> [])"

definition subject_matches :: "string \<Rightarrow> string \<Rightarrow> bool" where
  "subject_matches subject k \<longleftrightarrow> ptoks_match (pattern subject) (tokens k)"

lemma dropWhile_token:
  "tl (tokens r) = [] \<Longrightarrow> dropWhile (\<lambda>c. c \<noteq> btsep) r = []"
  "tl (tokens r) \<noteq> [] \<Longrightarrow>
     \<exists>r'. dropWhile (\<lambda>c. c \<noteq> btsep) r = btsep # r' \<and> tokens r' = tl (tokens r)"
  by (induction r) (simp_all split: if_splits)

definition mid_match :: "string \<Rightarrow> string \<Rightarrow> bool" where
  "mid_match r b \<longleftrightarrow>
     hd (tokens r) = hd (tokens b) \<and> ptoks_match (map ptok_of (tl (tokens b))) (tl (tokens r))"

lemma matchLiteral_Nil_mid: "matchLiteral r [] = mid_match r []"
  by (cases r) (auto simp: mid_match_def)

lemma matchLiteral_mid:
  assumes IH: "\<And>b' r'. length b' < length b \<Longrightarrow> wild_tokens (tokens b') \<Longrightarrow>
        plain_subject r' \<Longrightarrow> matchLiteral r' b' = ptoks_match (pattern b') (tokens r')"
    and "pwc \<notin> set (hd (tokens b))" "fwc \<notin> set (hd (tokens b))"
    and "tl (tokens b) \<noteq> [] \<Longrightarrow> wild_tokens (tl (tokens b))" "\<forall>t \<in> set (tl (tokens r)). t \<noteq> []"
  shows "matchLiteral r b = mid_match r b"
  using assms
proof (induction b arbitrary: r)
  case Nil
  show ?case by (rule matchLiteral_Nil_mid)
next
  case (Cons c b)
  show ?case
  proof (cases r)
    case Nil
    then show ?thesis by (auto simp: mid_match_def ptoks_match_Nil_tokens)
  next
    case (Cons r0 r')
    note r = this
    show ?thesis
    proof (cases "c = btsep")
      case True
      show ?thesis
      proof (cases "r0 = btsep")
        case True
        with \<open>c = btsep\<close> Cons.prems(1) [of b r'] Cons.prems(4,5) r show ?thesis
          by (simp add: mid_match_def pattern_def plain_subject_def)
      next
        case False
        with \<open>c = btsep\<close> r show ?thesis by (simp add: mid_match_def)
      qed
    next
      case False
      have "matchLiteral r' b = mid_match r' b" if "r0 = c"
        using False that r Cons.prems by (intro Cons.IH Cons.prems(1)) auto
      with False r Cons.prems(2,3) show ?thesis by (auto simp: mid_match_def)
    qed
  qed
qed

lemma matchLiteral_pattern:
  "wild_tokens (tokens b) \<Longrightarrow> plain_subject r \<Longrightarrow>
   matchLiteral r b = ptoks_match (pattern b) (tokens r)"
proof (induction "length b" arbitrary: b r rule: less_induct)
  case less
  obtain t ts where t: "tokens b = t # ts" by (cases "tokens b") auto
  obtain u us where u: "tokens r = u # us" by (cases "tokens r") auto
  from u less.prems(2) have "u \<noteq> []" by (simp add: plain_subject_def)
  then obtain r0 r' where r: "r = r0 # r'" using u by (cases r) auto
  from less.prems(1) t have cases_t: "literal_token t \<or> t = [pwc] \<or> (t = [fwc] \<and> ts = [])"
    and ts: "ts \<noteq> [] \<Longrightarrow> wild_tokens ts"
    by (cases ts; auto simp: literal_token_def)+
  from cases_t consider (lit) "literal_token t" | (pwc) "t = [pwc]" | (fwc) "t = [fwc]" "ts = []"
    by blast
  then show ?case
  proof cases
    case lit
    then have "ptok_of t = Lit t" by (auto simp: ptok_of_def literal_token_def dest: hd_in_set)
    moreover have "matchLiteral r b = mid_match r b"
      using lit ts t u less.prems(2)
      by (intro matchLiteral_mid less.hyps) (auto simp: literal_token_def plain_subject_def)
    ultimately show ?thesis using t u by (auto simp: mid_match_def pattern_def)
  next
    case pwc
    with t obtain b' where b: "b = pwc # b'" "hd (tokens b') = []" "tl (tokens b') = ts"
      by (cases b) (auto split: if_splits)
    define x where "x = dropWhile (\<lambda>c. c \<noteq> btsep) r"
    have eq: "matchLiteral r b = matchLiteral x b'" by (simp add: b r x_def)
    show ?thesis
    proof (cases b')
      case Nil
      with b have "ts = []" by simp
      moreover have "x = [] \<longleftrightarrow> us = []"
        using dropWhile_token [of r] u by (metis list.distinct(1) list.sel(3) x_def)
      ultimately show ?thesis using Nil eq t u pwc by (simp add: pattern_def ptok_of_def)
    next
      case (Cons c b'')
      with b have c: "c = btsep" and ts': "tokens b'' = ts" by (auto split: if_splits)
      show ?thesis
      proof (cases us)
        case Nil
        with u dropWhile_token(1) [of r] have "x = []" by (simp add: x_def)
        with eq Cons Nil t u pwc ts' show ?thesis
          by (cases ts) (auto simp: pattern_def ptok_of_def ptoks_match_Nil_tokens)
      next
        case (Cons v vs)
        with u dropWhile_token(2) [of r] obtain r'' where r'': "x = btsep # r''" "tokens r'' = us"
          by (auto simp: x_def)
        have "matchLiteral r'' b'' = ptoks_match (pattern b'') (tokens r'')"
          using ts ts' b \<open>b' = c # b''\<close> less.prems(2) u r''(2)
          by (intro less.hyps) (auto simp: plain_subject_def)
        with eq c \<open>b' = c # b''\<close> r'' t u pwc ts' show ?thesis
          by (simp add: pattern_def ptok_of_def)
      qed
    qed
  next
    case fwc
    with t have "b = [fwc]" by (metis join_tokens.simps(2) join_tokens_tokens)
    with fwc t u r show ?thesis by (simp add: pattern_def ptok_of_def)
  qed
qed

lemma matchLiteral_subject:
  "IsChannelNameValid subject True \<Longrightarrow> plain_subject k \<Longrightarrow>
   matchLiteral k subject = subject_matches subject k"
  by (simp add: matchLiteral_pattern subject_matches_def valid_wild_tokens)


end
