(* ===== verification/Subject_Index.thy ===== *)
theory Subject_Index
  imports Subject_Sublist
begin

text \<open>
  What the subject index promises: the trie, its cache and its count refine a multiset of
  subscriptions. The first part gives the abstraction relation and the laws of the operations,
  packed as the interface \<open>subject_index\<close>; the second part is about \<open>Subjects\<close>, which lists the
  patterns from the widest to the narrowest.
\<close>

section \<open>The index as a multiset of subscriptions\<close>

text \<open>
  The abstract contents: a multiset of pairs of a subject pattern and an element. What a literal
  subject matches is the elements of the pairs whose pattern matches it.
\<close>

definition abs_match :: "(string \<times> 'a) multiset \<Rightarrow> string \<Rightarrow> 'a multiset" where
  "abs_match A k = image_mset snd (filter_mset (\<lambda>x. subject_matches (fst x) k) A)"

definition trie_abs :: "'a level \<Rightarrow> (string \<times> 'a) multiset \<Rightarrow> bool" where
  "trie_abs l A \<longleftrightarrow>
     (\<forall>x \<in># A. IsChannelNameValid (fst x) True) \<and>
     (\<forall>ps. mset (entries l ps) = image_mset snd (filter_mset (\<lambda>x. pattern (fst x) = ps) A))"

definition cache_ok :: "'a sublist \<Rightarrow> bool" where
  "cache_ok s \<longleftrightarrow>
     wf_map (cache s) \<and> length (cache s) \<le> slCacheMax \<and>
     (\<forall>(k, r) \<in> set (cache s).
        plain_subject k \<and> mset r = mset (matchLevel (root s) (tokens k)))"

definition sl_abs :: "'a sublist \<Rightarrow> (string \<times> 'a) multiset \<Rightarrow> bool" where
  "sl_abs s A \<longleftrightarrow> trie_abs (root s) A \<and> cache_ok s \<and> slcount s = of_nat (size A)"

lemma sum_list_filter_mset:
  "distinct L \<Longrightarrow> (\<Sum>p\<leftarrow>L. filter_mset (\<lambda>x. f x = p) A) = filter_mset (\<lambda>x. f x \<in> set L) A"
proof (induction L)
  case (Cons p L)
  then have "(\<Sum>q\<leftarrow>p # L. filter_mset (\<lambda>x. f x = q) A) =
      filter_mset (\<lambda>x. f x = p) A + filter_mset (\<lambda>x. f x \<in> set L) A" by simp
  also have "\<dots> = filter_mset (\<lambda>x. f x \<in> set (p # L)) A"
    using Cons.prems by (intro multiset_eqI) (auto simp: count_eq_zero_iff)
  finally show ?case .
qed simp

lemma mset_concat_entries:
  "mset (concat (map f L)) = (\<Sum>p\<leftarrow>L. mset (f p))"
  by (induction L) auto

lemma image_mset_sum_list: "(\<Sum>p\<leftarrow>L. image_mset g (F p)) = image_mset g (\<Sum>p\<leftarrow>L. F p)"
  by (induction L) auto

lemma trie_abs_match:
  assumes "trie_abs l A"
  shows "mset (matchLevel l (tokens k)) = abs_match A k"
proof -
  let ?L = "pats (tokens k)"
  have "mset (matchLevel l (tokens k)) = (\<Sum>p\<leftarrow>?L. mset (entries l p))"
    by (simp add: matchLevel_entries mset_concat_entries)
  also have "\<dots> = (\<Sum>p\<leftarrow>?L. image_mset snd (filter_mset (\<lambda>x. pattern (fst x) = p) A))"
    using assms by (simp add: trie_abs_def)
  also have "\<dots> = image_mset snd (filter_mset (\<lambda>x. pattern (fst x) \<in> set ?L) A)"
    by (simp add: image_mset_sum_list sum_list_filter_mset distinct_pats)
  also have "\<dots> = abs_match A k"
    by (simp add: abs_match_def subject_matches_def set_pats)
  finally show ?thesis .
qed

lemma sl_abs_NewSublist: "sl_abs NewSublist {#}"
  by (simp add: sl_abs_def NewSublist_def trie_abs_def cache_ok_def)

lemma insert_valid_None:
  "IsChannelNameValid q True \<Longrightarrow> \<exists>l'. insert_tokens (tokens q) False e l = (None, l')"
  using insert_tokens_wild [of "tokens q" False e l]
  by (cases "insert_tokens (tokens q) False e l") (simp add: valid_wild_tokens)

lemma trie_abs_insert:
  assumes "trie_abs l A" "IsChannelNameValid q True" "insert_tokens (tokens q) False e l = (None, l')"
  shows "trie_abs l' (A + {#(q, e)#})"
  using assms insert_tokens_entries [OF assms(3)]
  by (auto simp: trie_abs_def pattern_def)

lemma abs_match_add:
  "abs_match (A + {#(q, e)#}) k = abs_match A k + (if subject_matches q k then {#e#} else {#})"
  by (simp add: abs_match_def)

lemma keys_addToCache: "map fst (addToCache subject e c) = map fst c"
  by (induction c) (auto simp: addToCache_def)

lemma cache_ok_addToCache:
  assumes "cache_ok s" "trie_abs (root s) A" "trie_abs l' (A + {#(q, e)#})" "IsChannelNameValid q True"
  shows "cache_ok (s\<lparr>root := l', cache := addToCache q e (cache s), slcount := n\<rparr>)"
proof -
  have "plain_subject k \<and> mset r = mset (matchLevel l' (tokens k))"
    if "(k, r) \<in> set (addToCache q e (cache s))" for k r
  proof -
    from that obtain r0 where r0: "(k, r0) \<in> set (cache s)" "r = (if matchLiteral k q then r0 @ [e] else r0)"
      by (auto simp: addToCache_def)
    with assms(1,2) have "plain_subject k" "mset r0 = abs_match A k"
      by (auto simp: cache_ok_def trie_abs_match)
    with r0(2) assms(3,4) show ?thesis
      by (simp add: trie_abs_match [OF assms(3)] matchLiteral_subject abs_match_def)
  qed
  then show ?thesis
    using assms(1) keys_addToCache [of q e "cache s"]
    by (auto simp: cache_ok_def wf_map_def) (metis length_map)
qed

lemma Insert_valid:
  assumes "sl_abs s A" "IsChannelNameValid q True"
  shows "\<exists>s'. Insert q e s = (None, s') \<and> sl_abs s' (A + {#(q, e)#})"
proof -
  obtain l' where l': "insert_tokens (tokens q) False e (root s) = (None, l')"
    using insert_valid_None [OF assms(2), of e "root s"] by blast
  have "trie_abs l' (A + {#(q, e)#})"
    using trie_abs_insert [OF _ assms(2) l'] assms(1) by (simp add: sl_abs_def)
  with assms l' cache_ok_addToCache [of s A l' q e] show ?thesis
    by (auto simp: Insert_def sl_abs_def)
qed

lemma insert_tokens_err: "fst (insert_tokens toks sfwc e l) \<in> {None, Some ErrInvalidSubject}"
  by (induction toks sfwc e l rule: insert_tokens.induct) (auto simp: Let_def case_prod_unfold)

lemma Insert_error:
  assumes "sl_abs s A" "Insert q e s = (Some err, s')"
  shows "err = ErrInvalidSubject \<and> sl_abs s' A"
proof -
  from assms(2) obtain l where l: "insert_tokens (tokens q) False e (root s) = (Some err, l)"
    "s' = s\<lparr>root := l\<rparr>"
    by (auto simp: Insert_def split: prod.splits option.splits)
  have same: "entries l ps = entries (root s) ps" for ps
    using insert_tokens_entries [OF l(1)] by simp
  then have "matchLevel l (tokens k) = matchLevel (root s) (tokens k)" for k
    by (simp add: matchLevel_entries cong: map_cong)
  with same assms(1) l insert_tokens_err [of "tokens q" False e "root s"] show ?thesis
    by (simp add: sl_abs_def trie_abs_def cache_ok_def)
qed

lemma remove_tokens_wild:
  "wild_tokens toks \<Longrightarrow> \<not> sfwc \<Longrightarrow> remove_tokens toks sfwc e lo \<noteq> Inl ErrInvalidSubject"
proof (induction toks arbitrary: sfwc lo)
  case (Cons t ts)
  show ?case
  proof (cases "ts = []")
    case True
    with Cons.prems show ?thesis
      by (auto simp: Let_def literal_token_def case_prod_unfold split: option.split)
  next
    case False
    with Cons.prems have t: "literal_token t \<or> t = [pwc]" and ts: "wild_tokens ts"
      by (simp_all add: wild_tokens_Cons)
    from t have ne: "t \<noteq> []" and nf: "hd t \<noteq> fwc"
      by (auto simp: literal_token_def dest: hd_in_set)
    show ?thesis
      using Cons.IH [OF ts, of False] Cons.prems False ne nf
      by (auto simp: Let_def split: option.split sum.split)
  qed
qed simp

lemma remove_tokens_found:
  "wild_tokens toks \<Longrightarrow> \<not> sfwc \<Longrightarrow> e \<in> set (entries l (map ptok_of toks)) \<Longrightarrow>
   \<exists>l'. remove_tokens toks sfwc e (Some l) = Inr l'"
proof (induction toks arbitrary: sfwc l)
  case (Cons t ts)
  from Cons.prems(3) obtain n where n: "child l (ptok_of t) = Some n"
    by (cases "child l (ptok_of t)") auto
  show ?case
  proof (cases "ts = []")
    case True
    with Cons.prems n delete_swap_found [of e "elements n"] show ?thesis
      by (auto simp: Let_def literal_token_def get_node_child removeFromList_def case_prod_unfold)
  next
    case False
    with Cons.prems have t: "literal_token t \<or> t = [pwc]" and ts: "wild_tokens ts"
      by (simp_all add: wild_tokens_Cons)
    from t have ne: "t \<noteq> []" and nf: "hd t \<noteq> fwc"
      by (auto simp: literal_token_def dest: hd_in_set)
    from Cons.prems(3) n False obtain nx where
      nx: "nextl n = Some nx" "e \<in> set (entries nx (map ptok_of ts))"
      by (cases "nextl n") auto
    from Cons.IH [OF ts _ nx(2), of False] obtain l' where
      "remove_tokens ts False e (Some nx) = Inr l'" by auto
    with Cons.prems(2) n ne nf nx False show ?thesis by (simp add: Let_def get_node_child)
  qed
qed simp

lemma trie_abs_entries:
  "trie_abs l A \<Longrightarrow>
   mset (entries l ps) = image_mset snd (filter_mset (\<lambda>x. pattern (fst x) = ps) A)"
  by (simp add: trie_abs_def)

lemma trie_abs_mem:
  assumes "trie_abs l A" "IsChannelNameValid q True"
  shows "e \<in> set (entries l (pattern q)) \<longleftrightarrow> (q, e) \<in># A"
proof -
  have "set (entries l (pattern q)) =
      snd ` {x. x \<in># A \<and> pattern (fst x) = pattern q}"
    using arg_cong [OF trie_abs_entries [OF assms(1)], of set_mset] by (simp only: set_mset_mset set_image_mset set_mset_filter)
  moreover have "fst x = q" if "x \<in># A" "pattern (fst x) = pattern q" for x
    using that assms pattern_inject [of "fst x" q] by (auto simp: trie_abs_def)
  ultimately show ?thesis by force
qed

lemma trie_abs_remove:
  assumes "trie_abs l A" "IsChannelNameValid q True" "remove_tokens (tokens q) False e (Some l) = Inr l'"
  shows "(q, e) \<in># A" "trie_abs l' (A - {#(q, e)#})"
proof -
  from remove_tokens_entries [OF assms(3)] have mem: "e \<in> set (entries l (pattern q))"
    and ent: "\<And>ps. entries l' ps =
        (if ps = pattern q then fst (delete_swap e (entries l ps)) else entries l ps)"
    by (auto simp: pattern_def)
  with trie_abs_mem [OF assms(1,2), of e] show A: "(q, e) \<in># A" by simp
  then obtain B where B: "A = B + {#(q, e)#}"
    by (metis add_mset_add_single insert_DiffM)
  have "mset (entries l' ps) = image_mset snd (filter_mset (\<lambda>x. pattern (fst x) = ps) B)" for ps
    using trie_abs_entries [OF assms(1), of ps] mem by (cases "ps = pattern q") (simp_all add: ent B)
  with assms(1) show "trie_abs l' (A - {#(q, e)#})" by (simp add: trie_abs_def B)
qed

lemma cache_ok_removeFromCache:
  assumes "cache_ok s" "trie_abs (root s) (B + {#(q, e)#})" "trie_abs l' B" "IsChannelNameValid q True"
  shows "cache_ok (s\<lparr>root := l', cache := removeFromCache q (cache s), slcount := n\<rparr>)"
proof -
  have "mset r = mset (matchLevel l' (tokens k))"
    if "(k, r) \<in> set (cache s)" "\<not> matchLiteral k q" for k r
  proof -
    from that assms(1) have "plain_subject k" "mset r = mset (matchLevel (root s) (tokens k))"
      by (auto simp: cache_ok_def)
    with that(2) assms(4) show ?thesis
      by (simp add: trie_abs_match [OF assms(2)] trie_abs_match [OF assms(3)] matchLiteral_subject
          abs_match_def)
  qed
  moreover have "wf_map (removeFromCache q (cache s))"
    using assms(1) by (auto simp: cache_ok_def wf_map_def removeFromCache_def distinct_map_filter)
  moreover have "length (removeFromCache q (cache s)) \<le> slCacheMax"
    using assms(1) by (auto simp: cache_ok_def removeFromCache_def intro: le_trans [OF length_filter_le])
  ultimately show ?thesis
    using assms(1) by (auto simp: cache_ok_def removeFromCache_def)
qed

lemma Remove_found:
  assumes "sl_abs s A" "IsChannelNameValid q True" "(q, e) \<in># A"
  shows "\<exists>s'. Remove q e s = (None, s') \<and> sl_abs s' (A - {#(q, e)#})"
proof -
  from assms have "e \<in> set (entries (root s) (pattern q))"
    using trie_abs_mem [of "root s" A q e] by (simp add: sl_abs_def)
  with assms(2) obtain l' where l': "remove_tokens (tokens q) False e (Some (root s)) = Inr l'"
    using remove_tokens_found [of "tokens q" False e "root s"]
    by (auto simp: pattern_def valid_wild_tokens)
  obtain B where B: "A = B + {#(q, e)#}"
    using assms(3) by (metis add_mset_add_single insert_DiffM)
  have "trie_abs l' B"
    using trie_abs_remove(2) [OF _ assms(2) l', of A] assms(1) B by (simp add: sl_abs_def)
  with l' assms B cache_ok_removeFromCache [of s B q e l'] show ?thesis
    by (auto simp: Remove_def sl_abs_def)
qed

lemma Remove_not_found:
  assumes "sl_abs s A" "IsChannelNameValid q True" "(q, e) \<notin># A"
  shows "Remove q e s = (Some ErrNotFound, s)"
proof (cases "remove_tokens (tokens q) False e (Some (root s))")
  case (Inl err)
  then have "err = ErrNotFound"
    using remove_tokens_wild [of "tokens q" False e "Some (root s)"] assms(2)
    by (cases err) (auto simp: valid_wild_tokens)
  with Inl show ?thesis by (simp add: Remove_def)
next
  case (Inr l')
  with trie_abs_remove(1) [OF _ assms(2) Inr] assms show ?thesis by (simp add: sl_abs_def)
qed

lemma Match_abs:
  assumes "sl_abs s A" "plain_subject k" "\<And>c. c \<noteq> [] \<Longrightarrow> evict c \<in> keys c"
    and "Match evict k s = (r, s')"
  shows "mset r = abs_match A k \<and> sl_abs s' A"
proof (cases "mget (cache s) k")
  case None
  let ?r = "matchLevel (root s) (tokens k)"
  let ?c = "mput k ?r (cache s)"
  from None assms(1) have wf: "wf_map ?c" and len: "length ?c = Suc (length (cache s))"
    and le: "length (cache s) \<le> slCacheMax"
    using mget_None_iff [of "cache s" k] by (simp_all add: sl_abs_def cache_ok_def length_mput)
  have ok: "plain_subject k' \<and> mset r' = mset (matchLevel (root s) (tokens k'))"
    if "(k', r') \<in> set ?c" for k' r'
  proof -
    from that wf have "mget ?c k' = Some r'" unfolding wf_map_def by (rule map_of_is_SomeI [rotated])
    then show ?thesis
      using assms(1,2) by (auto simp: sl_abs_def cache_ok_def split: if_splits dest!: map_of_SomeD)
  qed
  define c' where "c' = (if length ?c > slCacheMax then mdel (evict ?c) ?c else ?c)"
  have "evict ?c \<in> keys ?c" using assms(3) [of ?c] len by (cases ?c) auto
  then have "set c' \<subseteq> set ?c" "wf_map c'" "length c' \<le> slCacheMax"
    using wf len le set_mdel [of "evict ?c" ?c] by (auto simp: c'_def length_mdel)
  moreover have "r = ?r" "s' = s\<lparr>cache := c'\<rparr>"
    using None assms(4) by (auto simp: Match_def Let_def c'_def)
  ultimately show ?thesis
    using ok assms(1) by (auto simp: sl_abs_def cache_ok_def trie_abs_match)
next
  case (Some rc)
  then have "(k, rc) \<in> set (cache s)" by (rule map_of_SomeD)
  with Some assms(1,4) show ?thesis
    by (auto simp: Match_def sl_abs_def cache_ok_def trie_abs_match)
qed



section \<open>The interface of the index\<close>

text \<open>\<open>Match\<close> as a relation: the evicted key is any key of the full cache.\<close>

definition match_result :: "string \<Rightarrow> 'a sublist \<Rightarrow> 'a list \<Rightarrow> 'a sublist \<Rightarrow> bool" where
  "match_result k s r s' \<longleftrightarrow>
     (\<exists>evict. (\<forall>c. c \<noteq> [] \<longrightarrow> evict c \<in> keys c) \<and> Match evict k s = (r, s'))"

locale subject_index =
  fixes empty_ix :: 's
    and insert_ix :: "string \<Rightarrow> 'a \<Rightarrow> 's \<Rightarrow> sublist_err option \<times> 's"
    and remove_ix :: "string \<Rightarrow> 'a \<Rightarrow> 's \<Rightarrow> sublist_err option \<times> 's"
    and match_ix :: "string \<Rightarrow> 's \<Rightarrow> 'a list \<Rightarrow> 's \<Rightarrow> bool"
    and contents :: "'s \<Rightarrow> (string \<times> 'a) multiset \<Rightarrow> bool"
  assumes contents_empty: "contents empty_ix {#}"
    and contents_insert: "contents s A \<Longrightarrow> IsChannelNameValid q True \<Longrightarrow>
      \<exists>s'. insert_ix q e s = (None, s') \<and> contents s' (A + {#(q, e)#})"
    and contents_remove: "contents s A \<Longrightarrow> IsChannelNameValid q True \<Longrightarrow> (q, e) \<in># A \<Longrightarrow>
      \<exists>s'. remove_ix q e s = (None, s') \<and> contents s' (A - {#(q, e)#})"
    and contents_match: "contents s A \<Longrightarrow> plain_subject k \<Longrightarrow> match_ix k s r s' \<Longrightarrow>
      mset r = abs_match A k \<and> contents s' A"
begin

lemma contents_insert_all:
  "contents s A \<Longrightarrow> \<forall>x \<in> set xs. IsChannelNameValid (fst x) True \<Longrightarrow>
   contents (fold (\<lambda>(q, e) s. snd (insert_ix q e s)) xs s) (A + mset xs)"
proof (induction xs arbitrary: s A)
  case (Cons x xs)
  obtain q e where x: "x = (q, e)" by (cases x)
  with Cons.prems obtain s' where s': "insert_ix q e s = (None, s')" "contents s' (A + {#x#})"
    using contents_insert [of s A q e] by auto
  show ?case using Cons.IH [OF s'(2)] Cons.prems(2) s'(1) x by simp
qed simp

lemma match_insert_all:
  assumes "\<forall>x \<in> set xs. IsChannelNameValid (fst x) True" "plain_subject k"
    and "match_ix k (fold (\<lambda>(q, e) s. snd (insert_ix q e s)) xs empty_ix) r s'"
  shows "mset r = mset (map snd (filter (\<lambda>x. subject_matches (fst x) k) xs))"
  using contents_match [OF contents_insert_all [OF contents_empty assms(1)] assms(2,3)]
  by (simp add: abs_match_def)

lemma insert_remove_match:
  assumes "contents s A" "IsChannelNameValid q True" "plain_subject k"
    and "insert_ix q e s = (None, s1)" "remove_ix q e s1 = (err, s2)"
    and "match_ix k s2 r s3" "match_ix k s r' s4"
  shows "err = None \<and> mset r = mset r'"
proof -
  from contents_insert [OF assms(1,2), of e] assms(4) have "contents s1 (A + {#(q, e)#})" by simp
  from contents_remove [OF this assms(2), of e] assms(5) have "err = None" "contents s2 A" by auto
  with contents_match [OF _ assms(3,6), of A] contents_match [OF assms(1,3,7)] show ?thesis by simp
qed

end

interpretation sublist_index: subject_index NewSublist Insert Remove match_result sl_abs
proof
  show "sl_abs NewSublist {#}" by (rule sl_abs_NewSublist)
next
  fix s :: "'a sublist" and A q e
  assume "sl_abs s A" "IsChannelNameValid q True"
  then show "\<exists>s'. Insert q e s = (None, s') \<and> sl_abs s' (A + {#(q, e)#})" by (rule Insert_valid)
next
  fix s :: "'a sublist" and A q e
  assume "sl_abs s A" "IsChannelNameValid q True" "(q, e) \<in># A"
  then show "\<exists>s'. Remove q e s = (None, s') \<and> sl_abs s' (A - {#(q, e)#})" by (rule Remove_found)
next
  fix s s' :: "'a sublist" and A k r
  assume "sl_abs s A" "plain_subject k" "match_result k s r s'"
  then obtain evict where "\<And>c. c \<noteq> [] \<Longrightarrow> evict c \<in> keys c" "Match evict k s = (r, s')"
    by (auto simp: match_result_def)
  with \<open>sl_abs s A\<close> \<open>plain_subject k\<close> show "mset r = abs_match A k \<and> sl_abs s' A" by (rule Match_abs)
qed

section \<open>Well-formed tries\<close>

inductive trie_ok :: "'a level \<Rightarrow> bool" where
  trie_okI: "trie_ok l" if
    "wf_map (nodes l)"
    "\<forall>p n l'. p \<noteq> Fwc \<longrightarrow> child l p = Some n \<longrightarrow> nextl n = Some l' \<longrightarrow> trie_ok l'"
    "\<forall>n. lfwc l = Some n \<longrightarrow> elements n \<noteq> [] \<and> (\<forall>l'. nextl n = Some l' \<longrightarrow> numNodes l' = 0)"

inductive_simps trie_ok_simps: "trie_ok l"

lemma child_newLevel [simp]: "child newLevel p = None"
  by (cases p) (simp_all add: newLevel_def)

lemma trie_ok_newLevel: "trie_ok newLevel"
  by (subst trie_ok_simps) (simp add: newLevel_def, simp flip: newLevel_def)

definition node_ok :: "ptok \<Rightarrow> 'a node \<Rightarrow> bool" where
  "node_ok p n \<longleftrightarrow>
     (if p = Fwc then elements n \<noteq> [] \<and> (\<forall>l'. nextl n = Some l' \<longrightarrow> numNodes l' = 0)
      else (\<forall>l'. nextl n = Some l' \<longrightarrow> trie_ok l'))"

lemma trie_ok_iff:
  "trie_ok l \<longleftrightarrow> wf_map (nodes l) \<and> (\<forall>p n. child l p = Some n \<longrightarrow> node_ok p n)"
  unfolding trie_ok_simps [of l] node_ok_def
  by (auto simp del: child.simps simp flip: child.simps(2) split: if_splits)

lemma trie_ok_update:
  assumes "trie_ok l" "wf_map (nodes l')" "\<And>p. child l' p = (if p = q then n else child l p)"
    and "\<And>n'. n = Some n' \<Longrightarrow> node_ok q n'"
  shows "trie_ok l'"
  using assms unfolding trie_ok_iff by simp

lemma numNodes_0: "numNodes l = 0 \<longleftrightarrow> l = newLevel"
  by (cases l) (auto simp: numNodes_def newLevel_def)

lemma wild_tokens_ptok:
  "wild_tokens (t # ts) \<Longrightarrow> t \<noteq> [] \<and> (ptok_of t = Fwc \<longrightarrow> ts = []) \<and> (ts \<noteq> [] \<longrightarrow> hd t \<noteq> fwc \<and> wild_tokens ts)"
  by (cases ts) (auto simp: ptok_of_def literal_token_def split: if_splits dest: hd_in_set)

lemma trie_ok_insert:
  "trie_ok l \<Longrightarrow> wild_tokens toks \<Longrightarrow> insert_tokens toks False e l = (err, l') \<Longrightarrow> trie_ok l'"
proof (induction toks arbitrary: l l' err)
  case (Cons t ts)
  note t = wild_tokens_ptok [OF Cons.prems(2)]
  define n where "n = (case get_node l t of None \<Rightarrow> newNode | Some n \<Rightarrow> n)"
  define lnext where "lnext = (case nextl n of None \<Rightarrow> newLevel | Some l' \<Rightarrow> l')"
  have "node_ok (ptok_of t) m" if "child l (ptok_of t) = Some m" for m
    using Cons.prems(1) that by (simp add: trie_ok_iff)
  then have next_ok: "ptok_of t \<noteq> Fwc \<Longrightarrow> trie_ok lnext" "ptok_of t = Fwc \<Longrightarrow> numNodes lnext = 0"
    using trie_ok_newLevel
    by (auto simp: n_def lnext_def get_node_child newNode_def numNodes_0 node_ok_def split: option.split)
  obtain l2 els where l': "l' = put_node l t (Node (Some l2) els)"
    and l2: "ptok_of t \<noteq> Fwc \<Longrightarrow> trie_ok l2" "ptok_of t = Fwc \<Longrightarrow> numNodes l2 = 0 \<and> els \<noteq> []"
  proof (cases "ts = []")
    case True
    with Cons.prems(3) t have "l' = put_node l t (Node (Some lnext) (elements n @ [e]))"
      by (auto simp: Let_def n_def lnext_def)
    with next_ok show ?thesis by (auto intro: that)
  next
    case False
    with Cons.prems(3) t obtain l2 where l2: "insert_tokens ts False e lnext = (err, l2)"
      "l' = put_node l t (Node (Some l2) (elements n))"
      by (auto simp: Let_def n_def lnext_def split: prod.splits)
    from False t have "ptok_of t \<noteq> Fwc" "wild_tokens ts" by auto
    moreover from this have "trie_ok l2" using Cons.IH [OF next_ok(1) _ l2(1)] by blast
    ultimately show ?thesis by (intro that [OF l2(2)]) auto
  qed
  have "node_ok (ptok_of t) (Node (Some l2) els)"
    using t l2 by (simp add: node_ok_def)
  moreover have "wf_map (nodes l')"
    using Cons.prems(1) by (simp add: l' put_node_def trie_ok_iff)
  ultimately show ?case
    using t l' by (intro trie_ok_update [OF Cons.prems(1), of _ "ptok_of t" "Some (Node (Some l2) els)"]) auto
qed simp

lemma trie_ok_remove:
  "remove_tokens toks sfwc e (Some l) = Inr l' \<Longrightarrow> trie_ok l \<Longrightarrow> trie_ok l'"
proof (induction toks arbitrary: l l' sfwc)
  case (Cons t ts)
  from Cons.prems obtain n where n: "child l (ptok_of t) = Some n" and t: "t \<noteq> []"
    using remove_tokens_None [of ts "sfwc \<or> hd t = fwc" e]
    by (auto simp: get_node_child Let_def split: option.splits if_splits)
  have ok: "node_ok (ptok_of t) n" using Cons.prems(2) n by (simp add: trie_ok_iff)
  obtain nx els where
    l': "l' = (if isEmpty (Node nx els) then pruneNode l t else put_node l t (Node nx els))"
    and ok': "\<not> isEmpty (Node nx els) \<Longrightarrow> node_ok (ptok_of t) (Node nx els)"
  proof (cases "ts = []")
    case True
    with Cons.prems t n have "l' = (if isEmpty (Node (nextl n) (fst (delete_swap e (elements n))))
        then pruneNode l t else put_node l t (Node (nextl n) (fst (delete_swap e (elements n)))))"
      by (simp add: Let_def get_node_child removeFromList_def case_prod_unfold split: if_splits)
    then show ?thesis
    proof (rule that)
      show "node_ok (ptok_of t) (Node (nextl n) (fst (delete_swap e (elements n))))"
        if "\<not> isEmpty (Node (nextl n) (fst (delete_swap e (elements n))))"
        using that ok by (auto simp: node_ok_def isEmpty_def split: if_splits option.splits)
    qed
  next
    case False
    with Cons.prems t n obtain l2 where
      l2: "remove_tokens ts (sfwc \<or> hd t = fwc) e (nextl n) = Inr l2"
      "l' = (if isEmpty (Node (Some l2) (elements n)) then pruneNode l t
             else put_node l t (Node (Some l2) (elements n)))"
      by (auto simp: Let_def get_node_child split: sum.splits if_splits)
    then obtain nx where nx: "nextl n = Some nx"
      using remove_tokens_None [of ts "sfwc \<or> hd t = fwc" e] by (cases "nextl n") auto
    have "\<not> sfwc" using Cons.prems(1) by (auto split: if_splits)
    have "ptok_of t \<noteq> Fwc"
    proof
      assume "ptok_of t = Fwc"
      then have "remove_tokens ts True e (Some nx) = Inr l2" using l2(1) nx
        by (simp add: ptok_of_def split: if_splits)
      with False show False by (cases ts) auto
    qed
    moreover from this ok nx have "trie_ok nx" by (simp add: node_ok_def)
    ultimately show ?thesis
      using that [OF l2(2)] ok l2(1) nx Cons.IH [of "sfwc \<or> hd t = fwc" nx l2] by (simp add: node_ok_def)
  qed
  have "wf_map (nodes l')"
    using Cons.prems(2) by (simp add: l' put_node_def pruneNode_def trie_ok_iff)
  with t ok' show ?case
    by (intro trie_ok_update [OF Cons.prems(2), of _ "ptok_of t"
          "if isEmpty (Node nx els) then None else Some (Node nx els)"]) (auto simp: l' split: if_splits)
qed simp


section \<open>The order of the subjects\<close>

fun ptok_str :: "ptok \<Rightarrow> string" where
  "ptok_str Pwc = [pwc]"
| "ptok_str Fwc = [fwc]"
| "ptok_str (Lit t) = t"

fun pjoin :: "string \<Rightarrow> ptok list \<Rightarrow> string" where
  "pjoin subject [] = subject"
| "pjoin subject (p # ps) = pjoin (sub_token subject (ptok_str p)) ps"

text \<open>The traversal of \<open>getSubjects\<close> on patterns instead of strings.\<close>

function listed :: "(string list \<Rightarrow> string list) \<Rightarrow> 'a level option \<Rightarrow> ptok list list" where
  "listed perm None = []"
| "listed perm (Some l) =
     (case lfwc l of None \<Rightarrow> [] | Some n \<Rightarrow> [[Fwc]]) @
     (case lpwc l of
        None \<Rightarrow> []
      | Some n \<Rightarrow> (if elements n \<noteq> [] then [[Pwc]] else []) @ map (Cons Pwc) (listed perm (nextl n))) @
     concat (map (\<lambda>t. case mget (nodes l) t of
          None \<Rightarrow> []
        | Some n \<Rightarrow>
            (if elements n \<noteq> [] then [[Lit t]] else []) @ map (Cons (Lit t)) (listed perm (nextl n)))
       (perm (map fst (nodes l))))"
  by pat_completeness auto
termination
  by (relation "measure (\<lambda>(_, l). size_option size l)") (auto dest: size_next_child)

lemma perm_Nil: "(\<And>xs. mset (perm xs) = mset xs) \<Longrightarrow> perm [] = []"
  by (metis mset_zero_iff)

lemma listed_newLevel [simp]: "(\<And>xs. mset (perm xs) = mset xs) \<Longrightarrow> listed perm (Some newLevel) = []"
  by (simp add: newLevel_def perm_Nil)

lemma getSubjects_listed:
  assumes "\<And>xs. mset (perm xs) = mset xs"
  shows "getSubjects perm lo subject = map (pjoin subject) (listed perm lo)"
  using assms
proof (induction perm lo subject rule: getSubjects.induct)
  case (2 perm l subject)
  show ?case
  proof (cases "numNodes l = 0")
    case True
    with "2.prems" show ?thesis by (simp add: numNodes_0 del: listed.simps)
  next
    case False
    have ih1: "getSubjects perm (nextl n) (sub_token subject [pwc]) =
        map (pjoin (sub_token subject [pwc])) (listed perm (nextl n))" if "lpwc l = Some n" for n
      using "2.IH"(1) [OF False that refl] "2.prems" by blast
    have ih2: "getSubjects perm (nextl n) (sub_token subject t) =
        map (pjoin (sub_token subject t)) (listed perm (nextl n))"
      if "t \<in> set (perm (map fst (nodes l)))" "mget (nodes l) t = Some n" for t n
      using "2.IH"(2) [OF False that refl] "2.prems" by blast
    show ?thesis
      by (auto simp: False Let_def map_concat o_def ih1 ih2 split: option.split
          intro!: arg_cong [where f = concat] map_cong)
  qed
qed simp

lemma set_keys_perm: "(\<And>xs. mset (perm xs) = mset xs) \<Longrightarrow> set (perm xs) = set xs"
  by (metis set_mset_mset)

definition branch :: "(string list \<Rightarrow> string list) \<Rightarrow> 'a level \<Rightarrow> ptok \<Rightarrow> ptok list list" where
  "branch perm l p =
     (case child l p of
        None \<Rightarrow> []
      | Some n \<Rightarrow>
          if p = Fwc then [[Fwc]]
          else (if elements n \<noteq> [] then [[p]] else []) @ map (Cons p) (listed perm (nextl n)))"

lemma listed_branches:
  "listed perm (Some l) =
     branch perm l Fwc @ branch perm l Pwc @
     concat (map (\<lambda>t. branch perm l (Lit t)) (perm (map fst (nodes l))))"
  by (simp add: branch_def cong: option.case_cong)

declare listed.simps(2) [simp del]

lemma branch_hd: "qs \<in> set (branch perm l p) \<Longrightarrow> \<exists>rs. qs = p # rs"
  by (auto simp: branch_def split: option.splits if_splits)

lemma branch_key: "qs \<in> set (branch perm l (Lit t)) \<Longrightarrow> t \<in> set (map fst (nodes l))"
  using mget_None_iff [of "nodes l" t] by (auto simp: branch_def keys_def split: option.splits)

lemma listed_Cons:
  assumes "\<And>xs. mset (perm xs) = mset xs"
  shows "p # qs \<in> set (listed perm (Some l)) \<longleftrightarrow> p # qs \<in> set (branch perm l p)"
proof -
  have "set (listed perm (Some l)) =
      set (branch perm l Fwc) \<union> set (branch perm l Pwc) \<union>
      (\<Union>t \<in> set (map fst (nodes l)). set (branch perm l (Lit t)))"
    by (simp add: listed_branches set_keys_perm [OF assms] Un_assoc)
  then show ?thesis using branch_hd branch_key [of "p # qs" perm l] by (cases p) fastforce+
qed

lemma Nil_listed: "[] \<notin> set (listed perm lo)"
  by (cases lo) (auto simp: listed_branches dest: branch_hd)

lemma set_listed:
  assumes "\<And>xs. mset (perm xs) = mset xs"
  shows "trie_ok l \<Longrightarrow> ps \<in> set (listed perm (Some l)) \<longleftrightarrow> entries l ps \<noteq> []"
proof (induction ps arbitrary: l)
  case (Cons p qs)
  have ok: "node_ok p n" if "child l p = Some n" for n
    using Cons.prems that by (simp add: trie_ok_iff)
  show ?case
    using ok Cons.IH
    by (cases "child l p"; cases "nextl (the (child l p))")
      (auto simp: listed_Cons [OF assms] branch_def Nil_listed node_ok_def numNodes_0)
qed (simp add: Nil_listed)

fun ptok_rank :: "ptok \<Rightarrow> nat" where
  "ptok_rank Fwc = 0"
| "ptok_rank Pwc = 1"
| "ptok_rank (Lit t) = 2"

text \<open>The first token in which two patterns differ is wider in the first one.\<close>

fun wider :: "ptok list \<Rightarrow> ptok list \<Rightarrow> bool" where
  "wider (p # ps) (q # qs) = (ptok_rank p < ptok_rank q \<or> (p = q \<and> wider ps qs))"
| "wider _ _ = False"

lemma sorted_wrt_concat_map:
  assumes "\<And>t u x y. t \<noteq> u \<Longrightarrow> x \<in> set (f t) \<Longrightarrow> y \<in> set (f u) \<Longrightarrow> P x y"
  shows "distinct ts \<Longrightarrow> \<forall>t \<in> set ts. sorted_wrt P (f t) \<Longrightarrow> sorted_wrt P (concat (map f ts))"
  by (induction ts) (auto simp: sorted_wrt_append dest: assms [rotated])

definition before :: "ptok list \<Rightarrow> ptok list \<Rightarrow> bool" where
  "before ps qs \<longleftrightarrow> ps \<noteq> qs \<and> \<not> wider qs ps"

lemma before_Cons [simp]: "before (p # ps) (p # qs) = before ps qs" "before [] qs = (qs \<noteq> [])"
  by (auto simp: before_def)

lemma sorted_listed:
  assumes "\<And>xs. mset (perm xs) = mset xs"
  shows "trie_ok l \<Longrightarrow> sorted_wrt before (listed perm (Some l))"
proof (induction l rule: trie_ok.induct)
  case (trie_okI l)
  have one: "sorted_wrt before (branch perm l p)" for p
  proof (cases "child l p")
    case (Some n)
    have "sorted_wrt before (listed perm (nextl n))" if "p \<noteq> Fwc"
      using trie_okI.IH that Some by (cases "nextl n") auto
    then show ?thesis
      by (auto simp: Some branch_def sorted_wrt_map Nil_listed)
  qed (simp add: branch_def)
  have two: "before x y" if "x \<in> set (branch perm l p)" "y \<in> set (branch perm l q)"
    "p \<noteq> q" "ptok_rank p \<le> ptok_rank q" for p q x y
    using branch_hd [OF that(1)] branch_hd [OF that(2)] that(3,4) by (auto simp: before_def)
  have "distinct (perm (map fst (nodes l)))"
    using trie_okI.hyps(1) assms unfolding wf_map_def by (metis mset_eq_imp_distinct_iff)
  then have "sorted_wrt before (concat (map (\<lambda>t. branch perm l (Lit t)) (perm (map fst (nodes l)))))"
    using one two by (intro sorted_wrt_concat_map) auto
  with one two show ?case
    by (auto simp: listed_branches sorted_wrt_append)
qed

section \<open>The subjects of an index\<close>

lemma ptok_str_of: "literal_token t \<or> t = [pwc] \<or> t = [fwc] \<Longrightarrow> ptok_str (ptok_of t) = t"
  by (auto simp: ptok_of_def literal_token_def dest: hd_in_set)

lemma pjoin_append: "s \<noteq> [] \<Longrightarrow> ps \<noteq> [] \<Longrightarrow> pjoin s ps = s @ btsep # join_tokens (map ptok_str ps)"
proof (induction ps arbitrary: s)
  case (Cons p ps)
  then show ?case by (cases "ps = []") (simp_all add: sub_token_def join_tokens_Cons)
qed simp

lemma pjoin_pattern:
  assumes "IsChannelNameValid q True"
  shows "pjoin [] (pattern q) = q"
proof -
  have "map ptok_str (pattern q) = tokens q"
    using wild_tokens_all assms unfolding valid_wild_tokens pattern_def
    by (auto simp: o_def ptok_str_of intro!: map_idI)
  moreover obtain p ps where p: "pattern q = p # ps" by (cases "pattern q") (auto simp: pattern_def)
  moreover have "ptok_str p \<noteq> []"
    using calculation wild_tokens_hd [of "tokens q"] assms by (metis list.sel(1) list.simps(9) valid_wild_tokens)
  ultimately have "pjoin [] (pattern q) = join_tokens (tokens q)"
    using pjoin_append [of "ptok_str p" ps]
    by (cases "ps = []") (auto simp: sub_token_def join_tokens_Cons simp flip: \<open>_ = tokens q\<close>)
  then show ?thesis by (simp add: join_tokens_tokens)
qed

lemma entries_names:
  assumes "trie_abs l A"
  shows "entries l ps \<noteq> [] \<longleftrightarrow> (\<exists>x \<in># A. pattern (fst x) = ps)"
proof -
  have "entries l ps \<noteq> [] \<longleftrightarrow> filter_mset (\<lambda>x. pattern (fst x) = ps) A \<noteq> {#}"
    using trie_abs_entries [OF assms, of ps] by (metis image_mset_is_empty_iff mset_zero_iff)
  then show ?thesis unfolding filter_mset_eq_mempty_iff by blast
qed

lemma map_pattern_Subjects:
  assumes "trie_ok (root s)" "trie_abs (root s) A" "\<And>xs. mset (perm xs) = mset xs"
  shows "map pattern (Subjects perm s) = listed perm (Some (root s))"
    and "set (Subjects perm s) = fst ` set_mset A"
proof -
  have ex: "\<exists>x \<in># A. pattern (fst x) = ps \<and> pjoin [] ps = fst x"
    if "ps \<in> set (listed perm (Some (root s)))" for ps
    using that entries_names [OF assms(2), of ps] assms(2) pjoin_pattern
    by (auto simp: set_listed [OF assms(3,1)] trie_abs_def)
  have sub: "Subjects perm s = map (pjoin []) (listed perm (Some (root s)))"
    unfolding Subjects_def by (rule getSubjects_listed [OF assms(3)])
  show "map pattern (Subjects perm s) = listed perm (Some (root s))"
    unfolding sub map_map by (rule map_idI) (use ex in force)
  have "fst x \<in> set (Subjects perm s)" if "x \<in># A" for x
  proof -
    have "pattern (fst x) \<in> set (listed perm (Some (root s)))"
      using that by (auto simp: set_listed [OF assms(3,1)] entries_names [OF assms(2)])
    moreover have "pjoin [] (pattern (fst x)) = fst x"
      using that assms(2) by (auto simp: trie_abs_def pjoin_pattern)
    ultimately show ?thesis unfolding sub by (metis image_eqI list.set_map)
  qed
  moreover have "set (Subjects perm s) \<subseteq> fst ` set_mset A"
    unfolding sub using ex by fastforce
  ultimately show "set (Subjects perm s) = fst ` set_mset A" by auto
qed

lemma Subjects_sorted:
  assumes "trie_ok (root s)" "trie_abs (root s) A" "\<And>xs. mset (perm xs) = mset xs"
  shows "sorted_wrt (\<lambda>a b. a \<noteq> b \<and> \<not> wider (pattern b) (pattern a)) (Subjects perm s)"
proof -
  have "sorted_wrt (\<lambda>a b. before (pattern a) (pattern b)) (Subjects perm s)"
    using sorted_listed [OF assms(3,1)] map_pattern_Subjects(1) [OF assms]
    by (metis sorted_wrt_map)
  then show ?thesis by (rule sorted_wrt_mono_rel [rotated]) (auto simp: before_def)
qed


section \<open>Sequences of operations\<close>

datatype 'a sl_op = InsertOp string 'a | RemoveOp string 'a | MatchOp string

fun sl_step :: "((string, 'a list) gomap \<Rightarrow> string) \<Rightarrow> 'a sl_op \<Rightarrow> 'a sublist \<Rightarrow> 'a sublist" where
  "sl_step evict (InsertOp q e) s = snd (Insert q e s)"
| "sl_step evict (RemoveOp q e) s = snd (Remove q e s)"
| "sl_step evict (MatchOp k) s = snd (Match evict k s)"

fun abs_step :: "'a sl_op \<Rightarrow> (string \<times> 'a) multiset \<Rightarrow> (string \<times> 'a) multiset" where
  "abs_step (InsertOp q e) A = A + {#(q, e)#}"
| "abs_step (RemoveOp q e) A = A - {#(q, e)#}"
| "abs_step (MatchOp k) A = A"

fun valid_op :: "'a sl_op \<Rightarrow> bool" where
  "valid_op (InsertOp q e) = IsChannelNameValid q True"
| "valid_op (RemoveOp q e) = IsChannelNameValid q True"
| "valid_op (MatchOp k) = plain_subject k"

definition evict_ok :: "((string, 'a list) gomap \<Rightarrow> string) \<Rightarrow> bool" where
  "evict_ok evict \<longleftrightarrow> (\<forall>c. c \<noteq> [] \<longrightarrow> evict c \<in> keys c)"

definition perm_ok :: "(string list \<Rightarrow> string list) \<Rightarrow> bool" where
  "perm_ok perm \<longleftrightarrow> (\<forall>xs. mset (perm xs) = mset xs)"

lemma sl_step_abs:
  assumes "evict_ok evict" "valid_op x" "sl_abs s A"
  shows "sl_abs (sl_step evict x s) (abs_step x A)"
proof (cases x)
  case (InsertOp q e)
  then show ?thesis using assms Insert_valid [of s A q e] by auto
next
  case (RemoveOp q e)
  then show ?thesis
    using assms Remove_found [of s A q e] Remove_not_found [of s A q e]
    by (cases "(q, e) \<in># A") (auto simp: diff_single_trivial)
next
  case (MatchOp k)
  then show ?thesis
    using assms Match_abs [of s A k evict] by (cases "Match evict k s") (auto simp: evict_ok_def)
qed

lemma sl_step_trie_ok:
  "valid_op x \<Longrightarrow> trie_ok (root s) \<Longrightarrow> trie_ok (root (sl_step evict x s))"
  by (cases x)
    (auto simp: Insert_def Remove_def Match_def Let_def valid_wild_tokens
      split: prod.split option.split sum.split dest: trie_ok_insert trie_ok_remove)

definition sl_run :: "((string, 'a list) gomap \<Rightarrow> string) \<Rightarrow> 'a sl_op list \<Rightarrow> 'a sublist" where
  "sl_run evict ops = fold (sl_step evict) ops NewSublist"

definition abs_run :: "'a sl_op list \<Rightarrow> (string \<times> 'a) multiset" where
  "abs_run ops = fold abs_step ops {#}"

lemma sl_run_abs:
  assumes "evict_ok evict" "list_all valid_op ops"
  shows "sl_abs (sl_run evict ops) (abs_run ops) \<and> trie_ok (root (sl_run evict ops))"
  using assms(2)
proof (induction ops rule: rev_induct)
  case Nil
  then show ?case
    using sl_abs_NewSublist trie_ok_newLevel by (simp add: sl_run_def abs_run_def NewSublist_def)
next
  case (snoc x ops)
  then show ?case
    using sl_step_abs [OF assms(1)] sl_step_trie_ok by (auto simp: sl_run_def abs_run_def)
qed

lemma evict_hd: "evict_ok (\<lambda>c. fst (hd c))"
  by (auto simp: evict_ok_def keys_def)

lemma perm_rev: "perm_ok rev"
  by (simp add: perm_ok_def)

section \<open>Properties\<close>

text \<open>C1: after any sequence of insertions, removals and matches on valid subjects, starting from
  \<open>NewSublist\<close>, \<open>Match\<close> of a literal subject returns exactly the elements whose pattern matches
  it, each as often as it was inserted and not removed, whichever cache entries were evicted;
  the cache never holds more than \<open>slCacheMax\<close> results and \<open>Count\<close> is the number of elements
  modulo \<open>2 ^ 32\<close>.\<close>

theorem sublist_refines_multiset:
  assumes "evict_ok evict" "list_all valid_op ops" "plain_subject k"
  shows "mset (fst (Match evict k (sl_run evict ops))) = abs_match (abs_run ops) k \<and>
    CacheCount (sl_run evict ops) \<le> slCacheMax \<and>
    Count (sl_run evict ops) = of_nat (size (abs_run ops))"
proof -
  note abs = sl_run_abs [OF assms(1,2)]
  let ?m = "Match evict k (sl_run evict ops)"
  have "match_result k (sl_run evict ops) (fst ?m) (snd ?m)"
    unfolding match_result_def using assms(1) by (intro exI [of _ evict]) (simp add: evict_ok_def)
  from sublist_index.contents_match [OF conjunct1 [OF abs] assms(3) this]
  have "mset (fst ?m) = abs_match (abs_run ops) k" by simp
  with abs show ?thesis by (simp add: sl_abs_def cache_ok_def CacheCount_def Count_def)
qed

theorem sublist_refines_multiset_witness:
  "mset (fst (Match (\<lambda>c. fst (hd c)) ''a.b''
     (sl_run (\<lambda>c. fst (hd c)) [InsertOp ''a.*'' (1::nat), MatchOp ''a.b'', InsertOp ''>'' 2, RemoveOp ''a.*'' 1])))
   = {#2#}"
  using sublist_refines_multiset [OF evict_hd,
      of "[InsertOp ''a.*'' (1::nat), MatchOp ''a.b'', InsertOp ''>'' 2, RemoveOp ''a.*'' 1]" "''a.b''"]
  by (simp add: plain_subject_def valid_wild_tokens literal_token_def
      abs_run_def abs_match_def subject_matches_def pattern_def ptok_of_def)

text \<open>C34: after any such sequence \<open>Subjects\<close> lists every stored pattern exactly once, and a pattern
  is never listed after one that is narrower at the first token where the two differ, whatever
  the iteration order over the literal nodes.\<close>

theorem Subjects_widest_first:
  assumes "evict_ok evict" "list_all valid_op ops" "perm_ok perm"
  shows "set (Subjects perm (sl_run evict ops)) = fst ` set_mset (abs_run ops) \<and>
    sorted_wrt (\<lambda>a b. a \<noteq> b \<and> \<not> wider (pattern b) (pattern a)) (Subjects perm (sl_run evict ops))"
proof -
  note abs = sl_run_abs [OF assms(1,2)]
  from abs have ok: "trie_ok (root (sl_run evict ops))" "trie_abs (root (sl_run evict ops)) (abs_run ops)"
    by (simp_all add: sl_abs_def)
  from assms(3) have perm: "mset (perm xs) = mset xs" for xs by (simp add: perm_ok_def)
  show ?thesis
    using map_pattern_Subjects(2) [OF ok perm] Subjects_sorted [OF ok perm] by (rule conjI)
qed

theorem Subjects_widest_first_witness:
  "set (Subjects rev (sl_run (\<lambda>c. fst (hd c)) [InsertOp ''a.b'' (1::nat), InsertOp ''a.>'' 2, InsertOp ''>'' 3]))
   = {''a.b'', ''a.>'', ''>''}"
  using Subjects_widest_first [OF evict_hd,
      of "[InsertOp ''a.b'' (1::nat), InsertOp ''a.>'' 2, InsertOp ''>'' 3]", OF _ perm_rev]
  by (auto simp: valid_wild_tokens literal_token_def abs_run_def)

end
