(* ===== verification/Subject_Matches.thy ===== *)
theory Subject_Matches
  imports Subject_Index
begin

text \<open>
  The list that \<open>Match\<close> returns, in order, for an index that is first filled and then only
  queried. The clients that rely on the order (limits) or that match wildcard names (limits and
  partitions) use the index in this way: the cache is empty while it is filled.
\<close>

definition listed_matches :: "(string \<times> 'a) list \<Rightarrow> string \<Rightarrow> 'a list" where
  "listed_matches A k = concat (map (\<lambda>p. map snd (filter (\<lambda>x. pattern (fst x) = p) A)) (pats (tokens k)))"

definition holds_list :: "'a sublist \<Rightarrow> (string \<times> 'a) list \<Rightarrow> bool" where
  "holds_list s A \<longleftrightarrow>
     (\<forall>ps. entries (root s) ps = map snd (filter (\<lambda>x. pattern (fst x) = ps) A)) \<and>
     (\<forall>x \<in> set (cache s). snd x = listed_matches A (fst x)) \<and> trie_ok (root s)"

lemma entries_NewSublist [simp]: "entries (root NewSublist) ps = []"
  by (simp add: NewSublist_def)

lemma holds_list_New: "holds_list NewSublist []"
  by (simp add: holds_list_def NewSublist_def trie_ok_newLevel)

lemma tokens_nonempty_names [simp]: "tokens k \<noteq> []"
  by (simp add: tokens_nonempty)

lemma holds_list_Insert:
  assumes "holds_list s A" "cache s = []" "IsChannelNameValid q True"
  shows "holds_list (snd (Insert q e s)) (A @ [(q, e)])" "cache (snd (Insert q e s)) = []"
    "fst (Insert q e s) = None"
proof -
  obtain l' where l': "insert_tokens (tokens q) False e (root s) = (None, l')"
    using insert_valid_None [OF assms(3), of e "root s"] by blast
  have ok: "trie_ok l'"
    using trie_ok_insert [OF _ _ l'] assms(1,3) by (auto simp: holds_list_def valid_wild_tokens)
  have "entries l' ps = map snd (filter (\<lambda>x. pattern (fst x) = ps) (A @ [(q, e)]))" for ps
    using insert_tokens_entries [OF l', of ps] assms(1) by (auto simp: holds_list_def pattern_def)
  with ok l' assms(2) show "holds_list (snd (Insert q e s)) (A @ [(q, e)])" "cache (snd (Insert q e s)) = []"
    "fst (Insert q e s) = None"
    by (auto simp: Insert_def holds_list_def addToCache_def)
qed

lemma holds_list_Match:
  assumes "holds_list s A"
  shows "fst (Match evict k s) = listed_matches A k" "holds_list (snd (Match evict k s)) A"
proof -
  have m: "matchLevel (root s) (tokens k) = listed_matches A k"
    using assms unfolding holds_list_def listed_matches_def
    by (subst matchLevel_entries) (auto intro!: arg_cong [of _ _ concat])
  have "fst (Match evict k s) = listed_matches A k \<and> holds_list (snd (Match evict k s)) A"
  proof (cases "mget (cache s) k")
    case None
    have "snd x = listed_matches A (fst x)" if "x \<in> set (mput k (listed_matches A k) (cache s))" for x
      using that assms set_mput [of k "listed_matches A k" "cache s"] by (auto simp: holds_list_def)
    with None m assms show ?thesis
      by (auto simp: Match_def Let_def holds_list_def AList.delete_eq)
  next
    case (Some r)
    then have "(k, r) \<in> set (cache s)" by (rule map_of_SomeD)
    with Some assms show ?thesis by (auto simp: Match_def holds_list_def)
  qed
  then show "fst (Match evict k s) = listed_matches A k" "holds_list (snd (Match evict k s)) A" by simp_all
qed

lemma listed_matches_mem:
  "x \<in> set (listed_matches A k) \<longleftrightarrow> (\<exists>q. (q, x) \<in> set A \<and> ptoks_match (pattern q) (tokens k))"
  by (force simp: listed_matches_def set_pats)

end
