(* ===== verification/Codec.thy ===== *)
theory Codec
  imports Prelude
begin

text \<open>
  Binary encodings and the back-off timer of \<open>util/util.go\<close>, and the list of channels that
  partitioned servers exchange (\<open>util/channels.go\<close>). The \<open>CtrlMsg\<close> that wraps a list is generated code: a
  request is the content of its data field, and \<open>headerSize\<close> is the size of the rest.
\<close>

section \<open>Integers\<close>

definition WriteInt :: "int \<Rightarrow> bytes" where
  "WriteInt v = put_le 4 (nat (v mod 2 ^ 32))"

text \<open>The value and the rest of the input; \<open>None\<close> when it is too short.\<close>

definition ReadInt :: "bytes \<Rightarrow> (int \<times> bytes) option" where
  "ReadInt bs = (if length bs < 4 then None else Some (int (get_le (take 4 bs)), drop 4 bs))"

section \<open>Lists of channels\<close>

definition encodedChannelLen :: nat where
  "encodedChannelLen = 2"

definition encode_channel :: "string \<Rightarrow> bytes" where
  "encode_channel c = put_le encodedChannelLen (length c) @ c"

text \<open>The loop of \<open>encodeChannelsRequest\<close>: the data and the number of channels in it.\<close>

fun encode_loop :: "nat \<Rightarrow> string list \<Rightarrow> nat \<Rightarrow> bytes \<times> nat" where
  "encode_loop maxPayload [] estimatedSize = ([], 0)"
| "encode_loop maxPayload (c # cs) estimatedSize =
     (let needed = encodedChannelLen + length c in
      if estimatedSize + needed > maxPayload then ([], 0)
      else let (data, count) = encode_loop maxPayload cs (estimatedSize + needed) in (encode_channel c @ data, Suc count))"

definition encodeChannelsRequest :: "nat \<Rightarrow> nat \<Rightarrow> string list \<Rightarrow> nat \<Rightarrow> bytes \<times> nat" where
  "encodeChannelsRequest headerSize maxPayload channels start =
     encode_loop maxPayload (drop start channels) headerSize"

text \<open>The requests that are sent; \<open>None\<close> when the payload is too small.\<close>

function send_loop :: "nat \<Rightarrow> nat \<Rightarrow> string list \<Rightarrow> nat \<Rightarrow> bytes list option" where
  "send_loop headerSize maxPayload channels start =
     (if start < length channels then
        let (data, count) = encodeChannelsRequest headerSize maxPayload channels start
        in if count = 0 then None
           else map_option (\<lambda>reqs. data # reqs) (send_loop headerSize maxPayload channels (start + count))
      else Some [])"
  by pat_completeness auto
termination
  by (relation "measure (\<lambda>(_, _, channels, start). length channels - start)") auto

declare send_loop.simps [simp del]

definition SendChannelsList :: "nat \<Rightarrow> nat \<Rightarrow> string list \<Rightarrow> bytes list option" where
  "SendChannelsList headerSize maxPayload channels = send_loop headerSize maxPayload channels 0"

function decode_loop :: "bytes \<Rightarrow> nat \<Rightarrow> string list option" where
  "decode_loop data pos =
     (if pos < length data then
        if pos + 2 > length data then None
        else
          let cl = get_le (take 2 (drop pos data)); pos' = pos + encodedChannelLen in
          if pos' + cl > length data then None
          else map_option (\<lambda>cs. take cl (drop pos' data) # cs) (decode_loop data (pos' + cl))
      else Some [])"
  by pat_completeness auto
termination
  by (relation "measure (\<lambda>(data, pos). length data - pos)") (auto simp: encodedChannelLen_def)

declare decode_loop.simps [simp del]

definition DecodeChannels :: "bytes \<Rightarrow> string list option" where
  "DecodeChannels data = decode_loop data 0"

section \<open>Back-off\<close>

text \<open>Times are nanoseconds; \<open>bp_nextTime\<close> is \<open>None\<close> for the zero time.\<close>

record backoff =
  bp_nextTime :: "int option"
  bp_frequency :: int
  bp_minFrequency :: int
  bp_maxFrequency :: int
  bp_factor :: int

definition NewBackoffTimeCheck :: "int \<Rightarrow> int \<Rightarrow> int \<Rightarrow> backoff option" where
  "NewBackoffTimeCheck minFrequency factor maxFrequency =
     (if minFrequency \<le> 0 \<or> factor < 1 \<or> maxFrequency < minFrequency then None
      else Some \<lparr>bp_nextTime = None, bp_frequency = minFrequency, bp_minFrequency = minFrequency,
                 bp_maxFrequency = maxFrequency, bp_factor = factor\<rparr>)"

definition bp_Reset :: "backoff \<Rightarrow> backoff" where
  "bp_Reset bp = bp\<lparr>bp_nextTime := None, bp_frequency := bp_minFrequency bp\<rparr>"

definition bp_Ok :: "int \<Rightarrow> backoff \<Rightarrow> bool \<times> backoff" where
  "bp_Ok now bp =
     (case bp_nextTime bp of
        None \<Rightarrow> (True, bp\<lparr>bp_nextTime := Some (now + bp_minFrequency bp)\<rparr>)
      | Some t \<Rightarrow>
          if now < t then (False, bp)
          else if bp_frequency bp = bp_maxFrequency bp \<and> now - t \<ge> i64 (2 * bp_maxFrequency bp) then (True, bp_Reset bp)
          else
            let f = (if bp_frequency bp < bp_maxFrequency bp
                     then let g = i64 (bp_frequency bp * bp_factor bp)
                          in if g > bp_maxFrequency bp then bp_maxFrequency bp else g
                     else bp_frequency bp)
            in (True, bp\<lparr>bp_frequency := f, bp_nextTime := Some (now + f)\<rparr>))"

section \<open>Proofs\<close>

lemma ReadInt_WriteInt_app: "ReadInt (WriteInt v @ rest) = Some (v mod 2 ^ 32, rest)"
proof -
  have "0 \<le> v mod 2 ^ 32" "v mod 2 ^ 32 < 2 ^ 32" by (simp_all only: pos_mod_sign pos_mod_bound zero_less_power zero_less_numeral)
  then have "nat (v mod 2 ^ 32) mod 256 ^ 4 = nat (v mod 2 ^ 32)"
    by (intro mod_less) (simp add: nat_less_iff)
  then show ?thesis using \<open>0 \<le> v mod 2 ^ 32\<close> by (simp add: ReadInt_def WriteInt_def get_put_le)
qed

lemma length_encode_channel [simp]: "length (encode_channel c) = 2 + length c"
  by (simp add: encode_channel_def encodedChannelLen_def)

lemma decode_loop_end [simp]: "decode_loop data (length data) = Some []"
  by (subst decode_loop.simps) simp

lemma decode_loop_channel:
  assumes "length c < 65536"
  shows "decode_loop (pre @ encode_channel c @ post) (length pre) =
         map_option (\<lambda>cs. c # cs) (decode_loop (pre @ encode_channel c @ post) (length (pre @ encode_channel c)))"
  using assms
  by (subst decode_loop.simps) (simp add: encode_channel_def encodedChannelLen_def get_put_le numeral_2_eq_2 Let_def)

lemma decode_loop_encoded:
  "\<forall>c \<in> set cs. length c < 65536 \<Longrightarrow>
   decode_loop (pre @ concat (map encode_channel cs)) (length pre) = Some cs"
proof (induction cs arbitrary: pre)
  case Nil
  show ?case using decode_loop_end [of pre] by simp
next
  case (Cons c cs)
  then show ?case
    using decode_loop_channel [of c pre "concat (map encode_channel cs)"] Cons.IH [of "pre @ encode_channel c"] by simp
qed

lemma encode_loop_prefix:
  "encode_loop maxPayload cs n = (data, num) \<Longrightarrow>
   num \<le> length cs \<and> data = concat (map encode_channel (take num cs)) \<and>
   (num > 0 \<longrightarrow> n + length data \<le> maxPayload)"
proof (induction cs arbitrary: n data num)
  case Nil
  then show ?case by simp
next
  case (Cons c cs)
  show ?case
  proof (cases "n + (encodedChannelLen + length c) > maxPayload")
    case True
    with Cons.prems show ?thesis by simp
  next
    case False
    obtain d k where e: "encode_loop maxPayload cs (n + (encodedChannelLen + length c)) = (d, k)" by fastforce
    with False Cons.prems have "data = encode_channel c @ d" "num = Suc k" by simp_all
    with Cons.IH [OF e] False show ?thesis by (cases k) (auto simp: encodedChannelLen_def)
  qed
qed

lemma send_loop_chunks:
  "send_loop headerSize maxPayload channels start = Some reqs \<Longrightarrow> start \<le> length channels \<Longrightarrow>
   \<exists>chunks. concat chunks = drop start channels \<and> reqs = map (\<lambda>cs. concat (map encode_channel cs)) chunks \<and>
     (\<forall>r \<in> set reqs. headerSize + length r \<le> maxPayload)"
proof (induction headerSize maxPayload channels start arbitrary: reqs rule: send_loop.induct)
  case (1 headerSize maxPayload channels start)
  show ?case
  proof (cases "start < length channels")
    case False
    with "1.prems" have "reqs = []" "drop start channels = []" by (subst (asm) send_loop.simps, simp)+
    then show ?thesis by (intro exI [of _ "[]"]) simp
  next
    case True
    obtain data num where e: "encodeChannelsRequest headerSize maxPayload channels start = (data, num)" by fastforce
    note p = encode_loop_prefix [OF e [unfolded encodeChannelsRequest_def]]
    from True e "1.prems" have num: "num \<noteq> 0" by (subst (asm) send_loop.simps) (auto split: if_splits)
    from True e "1.prems" num obtain rs where
      rs: "reqs = data # rs" "send_loop headerSize maxPayload channels (start + num) = Some rs"
      by (subst (asm) send_loop.simps) auto
    from p True have le: "start + num \<le> length channels" by auto
    from "1.IH" [OF True e [symmetric] refl num rs(2) le] obtain chunks where
      c: "concat chunks = drop (start + num) channels" "rs = map (\<lambda>cs. concat (map encode_channel cs)) chunks"
        "\<forall>r \<in> set rs. headerSize + length r \<le> maxPayload" by blast
    show ?thesis
    proof (intro exI [of _ "take num (drop start channels) # chunks"] conjI)
      have "drop start channels = take num (drop start channels) @ drop num (drop start channels)"
        by (rule append_take_drop_id [symmetric])
      then show "concat (take num (drop start channels) # chunks) = drop start channels"
        using c(1) by (simp only: concat.simps drop_drop add.commute)
      show "reqs = map (\<lambda>cs. concat (map encode_channel cs)) (take num (drop start channels) # chunks)"
        using rs(1) c(2) p by simp
      show "\<forall>r \<in> set reqs. headerSize + length r \<le> maxPayload" using rs(1) c(3) p num by auto
    qed
  qed
qed


definition bp_calls :: "int list \<Rightarrow> backoff \<Rightarrow> backoff" where
  "bp_calls ts bp = fold (\<lambda>t b. snd (bp_Ok t b)) ts bp"

definition bp_wf :: "int \<Rightarrow> int \<Rightarrow> int \<Rightarrow> backoff \<Rightarrow> bool" where
  "bp_wf mn f mx bp \<longleftrightarrow>
     bp_minFrequency bp = mn \<and> bp_maxFrequency bp = mx \<and> bp_factor bp = f \<and>
     mn \<le> bp_frequency bp \<and> bp_frequency bp \<le> mx"

lemma bp_factor_bounds:
  assumes "0 < mn" "1 \<le> f" "mn \<le> fr" "fr \<le> mx" "mx * f < 2 ^ 63"
  shows "i64 (fr * f) = fr * f" "mn \<le> fr * f"
proof -
  have l: "fr \<le> fr * f" using mult_left_mono [of 1 f fr] assms by linarith
  have u: "fr * f \<le> mx * f" using assms by (intro mult_right_mono) auto
  from l assms show "mn \<le> fr * f" by linarith
  have "in_i64 (fr * f)" unfolding in_i64_def using l u assms by linarith
  then show "i64 (fr * f) = fr * f" by (rule i64_id)
qed

lemma bp_wf_Ok:
  assumes "bp_wf mn f mx bp" "0 < mn" "1 \<le> f" "mx * f < 2 ^ 63"
  shows "bp_wf mn f mx (snd (bp_Ok t bp))"
  using assms bp_factor_bounds [of mn f "bp_frequency bp" mx]
  by (auto simp: bp_wf_def bp_Ok_def bp_Reset_def Let_def split: option.splits)

lemma bp_wf_calls:
  "bp_wf mn f mx bp \<Longrightarrow> 0 < mn \<Longrightarrow> 1 \<le> f \<Longrightarrow> mx * f < 2 ^ 63 \<Longrightarrow> bp_wf mn f mx (bp_calls ts bp)"
  unfolding bp_calls_def by (induction ts arbitrary: bp) (simp_all add: bp_wf_Ok)

section \<open>Properties\<close>

text \<open>What \<open>WriteInt\<close> writes, \<open>ReadInt\<close> reads back up to its conversion to 32 bits, and it leaves the
  rest of the input: the round trip is exact for the values of \<open>uint32\<close>, and a negative value comes back as
  its unsigned counterpart. \<open>ReadInt\<close> fails exactly on less than four bytes.
\<close>

theorem ReadInt_WriteInt:
  "ReadInt (WriteInt v @ rest) = Some (v mod 2 ^ 32, rest) \<and>
   (ReadInt (WriteInt v @ rest) = Some (v, rest)) = (0 \<le> v \<and> v < 2 ^ 32) \<and>
   (ReadInt bs = None) = (length bs < 4)"
  using pos_mod_sign [of "2 ^ 32" v] pos_mod_bound [of "2 ^ 32" v]
  by (auto simp: ReadInt_WriteInt_app) (auto simp: ReadInt_def split: if_splits)

text \<open>C35: When \<open>SendChannelsList\<close> can send a list of channels with names of less than 64 KB, every request fits in the
  payload together with its header, every request can be decoded, and the decoded lists in order are the
  list that was sent.
\<close>

theorem channels_list_roundtrip:
  assumes "SendChannelsList headerSize maxPayload channels = Some reqs"
    and "\<forall>c \<in> set channels. length c < 65536"
  shows "(\<forall>r \<in> set reqs. headerSize + length r \<le> maxPayload) \<and>
         (\<exists>lists. map DecodeChannels reqs = map Some lists \<and> concat lists = channels)"
proof -
  from send_loop_chunks [of headerSize maxPayload channels 0 reqs] assms(1) obtain chunks where
    c: "concat chunks = channels" "reqs = map (\<lambda>cs. concat (map encode_channel cs)) chunks"
      "\<forall>r \<in> set reqs. headerSize + length r \<le> maxPayload" by (auto simp: SendChannelsList_def)
  have "DecodeChannels (concat (map encode_channel cs)) = Some cs" if "cs \<in> set chunks" for cs
    using decode_loop_encoded [of cs "[]"] that c(1) assms(2) by (auto simp: DecodeChannels_def)
  with c show ?thesis by (intro conjI exI [of _ chunks]) auto
qed

theorem channels_list_roundtrip_witness:
  "SendChannelsList 10 20 [''foo'', ''ba'', ''x''] = Some [encode_channel ''foo'' @ encode_channel ''ba'', encode_channel ''x''] \<and>
   (\<exists>lists. map DecodeChannels [encode_channel ''foo'' @ encode_channel ''ba'', encode_channel ''x''] = map Some lists \<and>
     concat lists = [''foo'', ''ba'', ''x''])"
proof -
  have s: "SendChannelsList 10 20 [''foo'', ''ba'', ''x''] =
    Some [encode_channel ''foo'' @ encode_channel ''ba'', encode_channel ''x'']" by code_simp
  show ?thesis using channels_list_roundtrip [OF s] s by simp
qed



end
