(* ===== verification/Store_Types.thy ===== *)
theory Store_Types
  imports Prelude
begin

text \<open>
  The types every store shares: the errors and limits of \<open>stores/store.go\<close> and the fields of a
  \<open>pb.MsgProto\<close> that the stores and the server read. Embedded structs are record extensions.
  Go's \<open>int\<close>, \<open>int64\<close> and \<open>time.Duration\<close> fields are \<open>int\<close>; arithmetic on them that can leave
  the 64-bit range goes through \<open>i64\<close>.
\<close>

datatype store_err =
    ErrTooManyChannels
  | ErrTooManySubs
  | ErrNotSupported
  | ErrAlreadyExists
  | ErrNotFound
  | ErrNoSrvButChannels

record MsgStoreLimits =
  MaxMsgs :: int
  MaxBytes :: int
  MaxAge :: int

record ChannelLimits = MsgStoreLimits +
  MaxSubscriptions :: int
  MaxInactivity :: int

record StoreLimits = ChannelLimits +
  MaxChannels :: int
  PerChannel :: "(string, ChannelLimits) gomap"

definition DefaultStoreLimits :: StoreLimits where
  "DefaultStoreLimits =
     \<lparr>MaxMsgs = 1000000, MaxBytes = 1000000 * 1024, MaxAge = 0,
      MaxSubscriptions = 1000, MaxInactivity = 0, MaxChannels = 100, PerChannel = []\<rparr>"

record MsgProto =
  Sequence :: u64
  Subject :: string
  Reply :: string
  Data :: bytes
  Timestamp :: int
  Redelivered :: bool
  RedeliveryCount :: u32
  CRC32 :: u32

end
