(* ===== verification/Partitions.thy ===== *)
theory Partitions
  imports Subject_Matches Codec Store_Types
begin

text \<open>
  Partitions (\<open>server/partitions.go\<close>): a server only handles the channels, or patterns of channels, of its
  configuration, and the servers of a cluster check that no two of them handle the same channel.
  A reply is the name of a channel in conflict, or empty.
\<close>

record partitions =
  p_serverID :: string
  p_channels :: "string list"
  p_sl :: "unit sublist"

definition createChannelsMapAndSublist :: "string \<Rightarrow> (string, ChannelLimits) gomap \<Rightarrow> partitions" where
  "createChannelsMapAndSublist serverID storeChannels =
     \<lparr>p_serverID = serverID, p_channels = map fst storeChannels,
      p_sl = fold (\<lambda>c s. snd (Insert c () s)) (map fst storeChannels) NewSublist\<rparr>"

text \<open>\<open>initPartitions\<close> up to the check of the cluster; \<open>None\<close> is \<open>ErrNoChannel\<close>.\<close>

definition initPartitions :: "string \<Rightarrow> StoreLimits \<Rightarrow> partitions option" where
  "initPartitions serverID limits =
     (if length (PerChannel limits) = 0 then None else Some (createChannelsMapAndSublist serverID (PerChannel limits)))"

type_synonym evictor = "(string, unit list) gomap \<Rightarrow> string"

text \<open>The two loops of \<open>processChannelsListRequests\<close>: the others' channels in our index, which also
  fills an index of theirs, and our channels in their index.\<close>

fun check_theirs :: "evictor \<Rightarrow> string list \<Rightarrow> unit sublist \<Rightarrow> unit sublist \<Rightarrow> string option \<times> unit sublist \<times> unit sublist" where
  "check_theirs evict [] ours theirs = (None, ours, theirs)"
| "check_theirs evict (c # cs) ours theirs =
     (let (r, ours') = Match evict c ours in
      if length r > 0 then (Some c, ours', theirs) else check_theirs evict cs ours' (snd (Insert c () theirs)))"

fun check_ours :: "evictor \<Rightarrow> string list \<Rightarrow> unit sublist \<Rightarrow> string option" where
  "check_ours evict [] theirs = None"
| "check_ours evict (c # cs) theirs =
     (let (r, theirs') = Match evict c theirs in if length r > 0 then Some c else check_ours evict cs theirs')"

definition conflict_reply :: "string option \<Rightarrow> string" where
  "conflict_reply x = (case x of None \<Rightarrow> [] | Some c \<Rightarrow> c)"

text \<open>The reply to a request of another server, if there is one.\<close>

definition processChannelsListRequests ::
  "evictor \<Rightarrow> string \<times> bytes \<Rightarrow> partitions \<Rightarrow> string option \<times> partitions" where
  "processChannelsListRequests evict req p =
     (if fst req = p_serverID p then (None, p)
      else
        case DecodeChannels (snd req) of
          None \<Rightarrow> (None, p)
        | Some channels \<Rightarrow>
            let (conflict, ours, theirs) = check_theirs evict channels (p_sl p) NewSublist
            in (Some (conflict_reply (if conflict = None then check_ours evict (p_channels p) theirs else conflict)),
                p\<lparr>p_sl := ours\<rparr>))"

text \<open>The requestor reads the replies until it times out; the result is the first conflict.\<close>

fun read_replies :: "string list \<Rightarrow> string option" where
  "read_replies [] = None"
| "read_replies (data # replies) = (if length data > 0 then Some data else read_replies replies)"

section \<open>Proofs\<close>

definition overlap_tokens :: "string \<Rightarrow> string \<Rightarrow> bool" where
  "overlap_tokens a b \<longleftrightarrow> ptoks_match (pattern a) (tokens b)"

lemma holds_fold_Insert:
  "holds_list s A \<Longrightarrow> cache s = [] \<Longrightarrow> \<forall>c \<in> set cs. IsChannelNameValid c True \<Longrightarrow>
   holds_list (fold (\<lambda>c s. snd (Insert c () s)) cs s) (A @ map (\<lambda>c. (c, ())) cs)"
proof (induction cs arbitrary: s A)
  case (Cons c cs)
  then show ?case using holds_list_Insert [of s A c "()"] Cons.IH [of "snd (Insert c () s)" "A @ [(c, ())]"] by simp
qed simp

lemma matches_empty:
  "length (listed_matches (map (\<lambda>c. (c, ())) cs) k) > 0 \<longleftrightarrow> (\<exists>c \<in> set cs. overlap_tokens c k)"
proof -
  have "(\<exists>x. x \<in> set (listed_matches (map (\<lambda>c. (c, ())) cs) k)) \<longleftrightarrow> (\<exists>c \<in> set cs. overlap_tokens c k)"
    by (auto simp: listed_matches_mem overlap_tokens_def)
  then show ?thesis by (metis length_greater_0_conv list.set_intros(1) list.set_cases empty_iff list.set(1) neq_Nil_conv)
qed

lemma check_theirs_spec:
  assumes "holds_list ours (map (\<lambda>c. (c, ())) mine)"
  shows "holds_list theirs A \<Longrightarrow> cache theirs = [] \<Longrightarrow> \<forall>c \<in> set cs. IsChannelNameValid c True \<Longrightarrow>
    check_theirs evict cs ours theirs = (res, ours', theirs') \<Longrightarrow>
    (res = None \<longleftrightarrow> (\<forall>c \<in> set cs. \<forall>d \<in> set mine. \<not> overlap_tokens d c)) \<and> (\<forall>c. res = Some c \<longrightarrow> c \<in> set cs) \<and>
    (res = None \<longrightarrow> holds_list theirs' (A @ map (\<lambda>c. (c, ())) cs)) \<and> holds_list ours' (map (\<lambda>c. (c, ())) mine)"
  using assms
proof (induction cs arbitrary: ours theirs A)
  case (Cons c cs)
  obtain r o1 where m: "Match evict c ours = (r, o1)" by fastforce
  have r: "r = listed_matches (map (\<lambda>c. (c, ())) mine) c" "holds_list o1 (map (\<lambda>c. (c, ())) mine)"
    using holds_list_Match [OF Cons.prems(5), of evict c] m by simp_all
  show ?case
  proof (cases "length r > 0")
    case True
    with Cons.prems m r matches_empty [of mine c] show ?thesis by auto
  next
    case False
    note i = holds_list_Insert [OF Cons.prems(1,2), of c "()"]
    have "check_theirs evict cs o1 (snd (Insert c () theirs)) = (res, ours', theirs')"
      using Cons.prems(4) m False by simp
    from Cons.IH [OF i(1,2) _ this r(2)] Cons.prems(3) False r matches_empty [of mine c] show ?thesis by auto
  qed
qed auto

lemma check_ours_spec:
  "holds_list theirs (map (\<lambda>c. (c, ())) cs) \<Longrightarrow>
   (check_ours evict mine theirs = None \<longleftrightarrow> (\<forall>c \<in> set cs. \<forall>d \<in> set mine. \<not> overlap_tokens c d)) \<and>
   (\<forall>d. check_ours evict mine theirs = Some d \<longrightarrow> d \<in> set mine)"
proof (induction mine arbitrary: theirs)
  case (Cons d mine)
  obtain r t1 where m: "Match evict d theirs = (r, t1)" by fastforce
  have r: "r = listed_matches (map (\<lambda>c. (c, ())) cs) d" "holds_list t1 (map (\<lambda>c. (c, ())) cs)"
    using holds_list_Match [OF Cons.prems, of evict d] m by simp_all
  show ?case
    using Cons.IH [OF r(2)] m r(1) matches_empty [of cs d] by (cases "length r > 0") auto
qed simp

definition valid_names :: "string list \<Rightarrow> bool" where
  "valid_names cs \<longleftrightarrow> list_all (\<lambda>c. IsChannelNameValid c True) cs"

lemma valid_name_nonempty: "valid_names cs \<Longrightarrow> c \<in> set cs \<Longrightarrow> c \<noteq> []"
  by (auto simp: valid_names_def list_all_iff IsChannelNameValid_def)

section \<open>Properties\<close>

text \<open>C26: A server answers the list of another server, when it can decode it, with an empty reply exactly when no name of
  one list matches, as a literal subject, a pattern of the other list; otherwise it answers with a name of one of the lists.
\<close>

theorem partition_reply_spec:
  assumes "valid_names (map fst storeChannels)" "valid_names theirs" "serverID' \<noteq> serverID"
    and "DecodeChannels data = Some theirs"
    and "processChannelsListRequests evict (serverID', data) (createChannelsMapAndSublist serverID storeChannels) = (reply, p)"
  shows "\<exists>c. reply = Some c \<and>
    (c = [] \<longleftrightarrow> (\<forall>a \<in> set theirs. \<forall>b \<in> fst ` set storeChannels. \<not> overlap_tokens a b \<and> \<not> overlap_tokens b a)) \<and>
    (c \<noteq> [] \<longrightarrow> c \<in> set theirs \<union> fst ` set storeChannels)"
proof -
  let ?mine = "map fst storeChannels"
  let ?sl = "fold (\<lambda>c s. snd (Insert c () s)) ?mine NewSublist"
  have sl: "holds_list ?sl (map (\<lambda>c. (c, ())) ?mine)"
    using holds_fold_Insert [OF holds_list_New, of ?mine] assms(1)
    by (simp add: NewSublist_def valid_names_def list_all_iff)
  obtain res o1 t1 where t: "check_theirs evict theirs ?sl NewSublist = (res, o1, t1)" by (metis prod_cases3)
  have spec: "(res = None \<longleftrightarrow> (\<forall>c \<in> set theirs. \<forall>d \<in> set ?mine. \<not> overlap_tokens d c)) \<and> (\<forall>c. res = Some c \<longrightarrow> c \<in> set theirs) \<and>
    (res = None \<longrightarrow> holds_list t1 (map (\<lambda>c. (c, ())) theirs))"
    using check_theirs_spec [OF sl holds_list_New _ _ t] assms(2) by (simp add: NewSublist_def valid_names_def list_all_iff)
  from t assms(3-5) have reply: "reply = Some (conflict_reply (if res = None then check_ours evict ?mine t1 else res))"
    by (auto simp: processChannelsListRequests_def createChannelsMapAndSublist_def)
  show ?thesis
  proof (cases res)
    case None
    note o = check_ours_spec [of t1 theirs evict ?mine]
    show ?thesis
      using None spec reply o valid_name_nonempty [OF assms(1)]
      by (cases "check_ours evict ?mine t1") (auto simp: conflict_reply_def)
  next
    case (Some c)
    with spec have "c \<in> set theirs" by simp
    with Some spec reply valid_name_nonempty [OF assms(2)] show ?thesis by (auto simp: conflict_reply_def)
  qed
qed

definition no_limits :: ChannelLimits where
  "no_limits = \<lparr>MaxMsgs = 0, MaxBytes = 0, MaxAge = 0, MaxSubscriptions = 0, MaxInactivity = 0\<rparr>"

theorem partition_reply_spec_witness:
  "\<exists>c. fst (processChannelsListRequests (\<lambda>c. fst (hd c)) (''B'', encode_channel ''a.b'')
          (createChannelsMapAndSublist ''A'' [(''a.*'', no_limits)])) = Some c \<and> c \<noteq> []"
proof -
  have v: "valid_names (map fst [(''a.*'', no_limits)])" "valid_names [''a.b'']" "''B'' \<noteq> ''A''"
    "DecodeChannels (encode_channel ''a.b'') = Some [''a.b'']" "overlap_tokens ''a.*'' ''a.b''" by code_simp+
  show ?thesis
    using partition_reply_spec [OF v(1-4) prod.collapse [symmetric], of "\<lambda>c. fst (hd c)"] v(5) by auto
qed


end
