(* ===== verification/Sub_Store.thy ===== *)
theory Sub_Store
  imports Store_Types
begin

text \<open>
  The subscription stores that assign subscription IDs: \<open>genericSubStore\<close>
  (\<open>stores/common.go\<close>), on which the memory, file and SQL stores are built, and
  \<open>RaftSubStore\<close> (\<open>stores/raftstore.go\<close>). The map of subscriptions only carries its keys.
\<close>

record spbSubState =
  ID :: u64
  ClientID :: string
  QGroup :: string
  Inbox :: string
  AckInbox :: string
  MaxInFlight :: int
  AckWaitInSecs :: int
  DurableName :: string
  LastSent :: u64
  IsDurable :: bool
  IsClosed :: bool

record sub_store =
  ss_limit :: int
  ss_subs :: "(u64, unit) gomap"
  ss_maxSubID :: u64

definition ss_init :: "int \<Rightarrow> sub_store" where
  "ss_init limit = \<lparr>ss_limit = limit, ss_subs = [], ss_maxSubID = 0\<rparr>"

definition ss_full :: "sub_store \<Rightarrow> bool" where
  "ss_full ss \<longleftrightarrow> ss_limit ss > 0 \<and> int (length (ss_subs ss)) \<ge> ss_limit ss"

definition createSub :: "sub_store \<Rightarrow> store_err + u64 \<times> sub_store" where
  "createSub ss =
     (if ss_full ss then Inl ErrTooManySubs
      else let i = ss_maxSubID ss + 1
           in Inr (i, ss\<lparr>ss_maxSubID := i, ss_subs := mput i () (ss_subs ss)\<rparr>))"

definition ss_DeleteSub :: "u64 \<Rightarrow> sub_store \<Rightarrow> sub_store" where
  "ss_DeleteSub subid ss = ss\<lparr>ss_subs := mdel subid (ss_subs ss)\<rparr>"

text \<open>\<open>RaftSubStore.CreateSub\<close>, given the ID of the \<open>SubState\<close>; it returns the ID it has after the call.\<close>

definition raft_CreateSub :: "u64 \<Rightarrow> sub_store \<Rightarrow> store_err + u64 \<times> sub_store" where
  "raft_CreateSub subid ss =
     (if subid > 0 \<and> subid \<in> keys (ss_subs ss) then Inr (subid, ss)
      else if ss_full ss then Inl ErrTooManySubs
      else
        let i = (if subid = 0 then ss_maxSubID ss + 1 else subid);
            m = (if subid = 0 then i else if subid > ss_maxSubID ss then subid else ss_maxSubID ss)
        in Inr (i, ss\<lparr>ss_maxSubID := m, ss_subs := mput i () (ss_subs ss)\<rparr>))"

text \<open>\<open>RaftStore.replaceSubStore\<close> on the IDs of the recovered subscriptions: the highest of them is kept.\<close>

definition recovered_maxSubID :: "u64 list \<Rightarrow> u64" where
  "recovered_maxSubID ids = fold (\<lambda>i m. if i > m then i else m) ids 0"

definition replaceSubStore :: "int \<Rightarrow> u64 \<Rightarrow> sub_store" where
  "replaceSubStore limit maxSubID = (ss_init limit)\<lparr>ss_maxSubID := maxSubID\<rparr>"

section \<open>IDs are fresh\<close>

text \<open>The interface the server relies on: a created subscription has an ID no live subscription has.\<close>

definition ss_ok :: "sub_store \<Rightarrow> bool" where
  "ss_ok ss \<longleftrightarrow> wf_map (ss_subs ss) \<and> (\<forall>i \<in> keys (ss_subs ss). i \<noteq> 0 \<and> i \<le> ss_maxSubID ss)"

lemma ss_ok_init: "ss_ok (ss_init limit)" "ss_ok (replaceSubStore limit m)"
  by (simp_all add: ss_ok_def ss_init_def replaceSubStore_def)

locale sub_ids =
  fixes ok :: "'s \<Rightarrow> bool" and room :: "'s \<Rightarrow> bool" and live :: "'s \<Rightarrow> u64 set"
    and create :: "'s \<Rightarrow> store_err + u64 \<times> 's" and remove :: "u64 \<Rightarrow> 's \<Rightarrow> 's"
  assumes create_ok: "ok s \<Longrightarrow> room s \<Longrightarrow> create s = Inr (i, s') \<Longrightarrow> ok s'"
    and create_fresh: "ok s \<Longrightarrow> room s \<Longrightarrow> create s = Inr (i, s') \<Longrightarrow> i \<noteq> 0 \<and> i \<notin> live s \<and> live s' = insert i (live s)"
    and remove_ok: "ok s \<Longrightarrow> ok (remove i s)"
    and remove_live: "ok s \<Longrightarrow> live (remove i s) = live s - {i}"

lemma seq_le_Suc_max: "(i::u64) \<le> m \<Longrightarrow> m \<noteq> - 1 \<Longrightarrow> i < m + 1"
  by (metis order_le_less_trans seq_less_Suc)

interpretation generic_ids: sub_ids ss_ok "\<lambda>s. ss_maxSubID s \<noteq> - 1" "\<lambda>s. keys (ss_subs s)" createSub ss_DeleteSub
proof unfold_locales
  fix s s' i
  assume s: "ss_ok s" "ss_maxSubID s \<noteq> - 1" "createSub s = Inr (i, s')"
  then have i: "i = ss_maxSubID s + 1" "s' = s\<lparr>ss_maxSubID := i, ss_subs := mput i () (ss_subs s)\<rparr>"
    by (auto simp: createSub_def Let_def split: if_splits)
  have new: "j < i" if "j \<in> keys (ss_subs s)" for j
    using that s(1,2) i(1) seq_le_Suc_max by (auto simp: ss_ok_def)
  show "ss_ok s'" "i \<noteq> 0 \<and> i \<notin> keys (ss_subs s) \<and> keys (ss_subs s') = insert i (keys (ss_subs s))"
    using s(1,2) i new seq_Suc_neq_0 [of "ss_maxSubID s"] by (auto simp: ss_ok_def less_imp_le)
qed (auto simp: ss_ok_def ss_DeleteSub_def)

end
