(* ===== verification/Msg_Store.thy ===== *)
theory Msg_Store
  imports Store_Types
begin

text \<open>
  The message store of a channel: \<open>genericMsgStore\<close> of \<open>stores/common.go\<close> and
  \<open>MemoryMsgStore\<close> of \<open>stores/memstore.go\<close>. The size of an encoded message
  (\<open>MsgProto.Size\<close>, generated code of another module) is the parameter \<open>msize\<close>, on an
  optional message because \<open>removeFirstMsg\<close> calls it on whatever the map returns. The clock is
  the parameter \<open>now\<close>. The age timer is the duration it was last set to.
\<close>

section \<open>Model\<close>

record msg_store =
  ms_closed :: bool
  ms_limits :: MsgStoreLimits
  ms_subject :: string
  ms_first :: u64
  ms_last :: u64
  ms_totalCount :: int
  ms_totalBytes :: u64
  ms_hitLimit :: bool
  ms_msgs :: "(u64, MsgProto) gomap"
  ms_ageTimer :: "int option"

definition ms_init :: "string \<Rightarrow> MsgStoreLimits \<Rightarrow> msg_store" where
  "ms_init subject limits =
     \<lparr>ms_closed = False, ms_limits = limits, ms_subject = subject, ms_first = 0, ms_last = 0,
      ms_totalCount = 0, ms_totalBytes = 0, ms_hitLimit = False, ms_msgs = [], ms_ageTimer = None\<rparr>"

definition State :: "msg_store \<Rightarrow> int \<times> u64" where
  "State ms = (ms_totalCount ms, ms_totalBytes ms)"

definition FirstSequence :: "msg_store \<Rightarrow> u64" where
  "FirstSequence ms = ms_first ms"

definition LastSequence :: "msg_store \<Rightarrow> u64" where
  "LastSequence ms = ms_last ms"

definition FirstAndLastSequence :: "msg_store \<Rightarrow> u64 \<times> u64" where
  "FirstAndLastSequence ms = (ms_first ms, ms_last ms)"

definition ms_empty :: "msg_store \<Rightarrow> msg_store" where
  "ms_empty ms =
     ms\<lparr>ms_first := 0, ms_last := 0, ms_totalCount := 0, ms_totalBytes := 0, ms_hitLimit := False\<rparr>"

definition msgExpireIn :: "int \<Rightarrow> msg_store \<Rightarrow> int \<Rightarrow> int" where
  "msgExpireIn now ms timestamp =
     (let fireIn = i64 (i64 (timestamp + MaxAge (ms_limits ms)) - now)
      in if fireIn < 0 then 0 else fireIn)"

definition removeFirstMsg :: "(MsgProto option \<Rightarrow> nat) \<Rightarrow> msg_store \<Rightarrow> msg_store" where
  "removeFirstMsg msize ms =
     (let firstMsg = mget (ms_msgs ms) (ms_first ms)
      in ms\<lparr>ms_totalBytes := ms_totalBytes ms - of_nat (msize firstMsg),
            ms_totalCount := ms_totalCount ms - 1,
            ms_msgs := mdel (ms_first ms) (ms_msgs ms),
            ms_first := ms_first ms + 1\<rparr>)"

definition over_limits :: "msg_store \<Rightarrow> bool" where
  "over_limits ms \<longleftrightarrow>
     ms_totalCount ms > 1 \<and>
     ((MaxMsgs (ms_limits ms) > 0 \<and> ms_totalCount ms > MaxMsgs (ms_limits ms)) \<or>
      (MaxBytes (ms_limits ms) > 0 \<and> ms_totalBytes ms > of_int (MaxBytes (ms_limits ms))))"

function limit_loop :: "(MsgProto option \<Rightarrow> nat) \<Rightarrow> msg_store \<Rightarrow> msg_store" where
  "limit_loop msize ms =
     (if over_limits ms then limit_loop msize ((removeFirstMsg msize ms)\<lparr>ms_hitLimit := True\<rparr>) else ms)"
  by pat_completeness auto
termination
  by (relation "measure (\<lambda>(_, ms). nat (ms_totalCount ms))")
    (auto simp: over_limits_def removeFirstMsg_def Let_def)

declare limit_loop.simps [simp del]

definition append_msg :: "(MsgProto option \<Rightarrow> nat) \<Rightarrow> MsgProto \<Rightarrow> msg_store \<Rightarrow> msg_store" where
  "append_msg msize m ms =
     (let ms1 = (if ms_first ms = 0 then ms\<lparr>ms_first := Sequence m\<rparr> else ms)
      in ms1\<lparr>ms_last := Sequence m,
             ms_msgs := mput (Sequence m) m (ms_msgs ms1),
             ms_totalCount := ms_totalCount ms1 + 1,
             ms_totalBytes := ms_totalBytes ms1 + of_nat (msize (Some m))\<rparr>)"

definition Store :: "(MsgProto option \<Rightarrow> nat) \<Rightarrow> int \<Rightarrow> MsgProto \<Rightarrow> msg_store \<Rightarrow> u64 \<times> msg_store" where
  "Store msize now m ms =
     (if Sequence m \<le> ms_last ms then (Sequence m, ms)
      else
        let ms2 = append_msg msize m ms;
            ms3 = (if MaxAge (ms_limits ms2) > 0 \<and> ms_ageTimer ms2 = None
                   then ms2\<lparr>ms_ageTimer := Some (msgExpireIn now ms2 (Timestamp m))\<rparr> else ms2);
            ms4 = (if MaxMsgs (ms_limits ms3) > 0 \<or> MaxBytes (ms_limits ms3) > 0
                   then limit_loop msize ms3 else ms3)
        in (ms_last ms4, ms4))"

definition Lookup :: "msg_store \<Rightarrow> u64 \<Rightarrow> MsgProto option" where
  "Lookup ms seq = mget (ms_msgs ms) seq"

definition FirstMsg :: "msg_store \<Rightarrow> MsgProto option" where
  "FirstMsg ms = mget (ms_msgs ms) (ms_first ms)"

definition LastMsg :: "msg_store \<Rightarrow> MsgProto option" where
  "LastMsg ms = mget (ms_msgs ms) (ms_last ms)"

text \<open>
  \<open>GetSequenceFromTimestamp\<close> reads the time stamp of map entries without testing that they
  exist; \<open>None\<close> is the panic on a missing entry. \<open>sort_Search_opt\<close> is \<open>sort.Search\<close> for a
  predicate that may panic.
\<close>

function sort_Search_opt_loop :: "(nat \<Rightarrow> bool option) \<Rightarrow> nat \<Rightarrow> nat \<Rightarrow> nat option" where
  "sort_Search_opt_loop f i j =
     (if i < j
      then (let h = (i + j) div 2
            in case f h of
                 None \<Rightarrow> None
               | Some b \<Rightarrow> if \<not> b then sort_Search_opt_loop f (h + 1) j else sort_Search_opt_loop f i h)
      else Some i)"
  by pat_completeness auto
termination
  by (relation "measure (\<lambda>(f, i, j). j - i)") auto

declare sort_Search_opt_loop.simps [simp del]

definition ms_timestamp :: "msg_store \<Rightarrow> u64 \<Rightarrow> int option" where
  "ms_timestamp ms seq = map_option Timestamp (mget (ms_msgs ms) seq)"

definition GetSequenceFromTimestamp :: "msg_store \<Rightarrow> int \<Rightarrow> u64 option" where
  "GetSequenceFromTimestamp ms timestamp =
     (if ms_first ms = 0 then Some 0
      else if ms_first ms > ms_last ms then Some (ms_last ms + 1)
      else case ms_timestamp ms (ms_first ms) of
        None \<Rightarrow> None
      | Some tfirst \<Rightarrow>
          if timestamp \<le> tfirst then Some (ms_first ms)
          else case ms_timestamp ms (ms_last ms) of
            None \<Rightarrow> None
          | Some tlast \<Rightarrow>
              if timestamp = tlast then Some (ms_last ms)
              else if timestamp > tlast then Some (ms_last ms + 1)
              else
                (case sort_Search_opt_loop
                        (\<lambda>i. map_option (\<lambda>t. t \<ge> timestamp) (ms_timestamp ms (of_nat i + ms_first ms)))
                        0 (length (ms_msgs ms)) of
                   None \<Rightarrow> None
                 | Some index \<Rightarrow> Some (of_nat index + ms_first ms)))"

lemma length_mdel_less: "mget m k = Some v \<Longrightarrow> length (mdel k m) < length m"
proof (induction m)
  case (Cons a m)
  then show ?case
    using AList.length_delete_le [of k m] by (cases a) (auto simp: less_Suc_eq_le split: if_splits)
qed simp

function expire_loop :: "(MsgProto option \<Rightarrow> nat) \<Rightarrow> int \<Rightarrow> msg_store \<Rightarrow> msg_store" where
  "expire_loop msize now ms =
     (case mget (ms_msgs ms) (ms_first ms) of
        None \<Rightarrow>
          if ms_first ms < ms_last ms then expire_loop msize now (ms\<lparr>ms_first := ms_first ms + 1\<rparr>)
          else ms\<lparr>ms_ageTimer := None\<rparr>
      | Some m \<Rightarrow>
          (let maxAge = MaxAge (ms_limits ms); elapsed = i64 (now - Timestamp m)
           in if elapsed \<ge> maxAge then expire_loop msize now (removeFirstMsg msize ms)
              else if elapsed < 0
                   then ms\<lparr>ms_ageTimer := Some (i64 (i64 (Timestamp m - now) + maxAge))\<rparr>
                   else ms\<lparr>ms_ageTimer := Some (i64 (maxAge - elapsed))\<rparr>))"
  by pat_completeness auto

termination
proof (relation "inv_image (less_than <*lex*> less_than)
    (\<lambda>(_, _, ms). (length (ms_msgs ms), unat (ms_last ms) - unat (ms_first ms)))")
  fix msize :: "MsgProto option \<Rightarrow> nat" and now ms
  assume "ms_first ms < ms_last ms"
  then have "unat (ms_last ms) - unat (ms_first ms + 1) < unat (ms_last ms) - unat (ms_first ms)"
    using seq_less_not_max [of "ms_first ms" "ms_last ms"]
    by (simp add: unat_seq_Suc word_less_nat_alt)
  then show "((msize, now, ms\<lparr>ms_first := ms_first ms + 1\<rparr>), msize, now, ms)
    \<in> inv_image (less_than <*lex*> less_than)
       (\<lambda>(_, _, ms). (length (ms_msgs ms), unat (ms_last ms) - unat (ms_first ms)))"
    by simp
qed (auto simp: removeFirstMsg_def Let_def dest: length_mdel_less)

declare expire_loop.simps [simp del]

definition expireMsgs :: "(MsgProto option \<Rightarrow> nat) \<Rightarrow> int \<Rightarrow> msg_store \<Rightarrow> msg_store" where
  "expireMsgs msize now ms = (if ms_closed ms then ms else expire_loop msize now ms)"

definition Empty :: "msg_store \<Rightarrow> msg_store" where
  "Empty ms = (ms_empty (ms\<lparr>ms_ageTimer := None\<rparr>))\<lparr>ms_msgs := []\<rparr>"

definition Close :: "msg_store \<Rightarrow> msg_store" where
  "Close ms = (if ms_closed ms then ms else ms\<lparr>ms_closed := True\<rparr>)"


section \<open>The store as a list of messages\<close>

definition total_size :: "(MsgProto option \<Rightarrow> nat) \<Rightarrow> MsgProto list \<Rightarrow> nat" where
  "total_size msize xs = (\<Sum>m\<leftarrow>xs. msize (Some m))"

fun consec :: "nat \<Rightarrow> MsgProto list \<Rightarrow> bool" where
  "consec n [] = True"
| "consec n (x # xs) = (unat (Sequence x) = n \<and> consec (Suc n) xs)"

definition ms_log :: "(MsgProto option \<Rightarrow> nat) \<Rightarrow> msg_store \<Rightarrow> MsgProto list \<Rightarrow> bool" where
  "ms_log msize ms xs \<longleftrightarrow>
     wf_map (ms_msgs ms) \<and>
     mget (ms_msgs ms) = map_of (map (\<lambda>m. (Sequence m, m)) xs) \<and>
     ms_totalCount ms = int (length xs) \<and>
     ms_totalBytes ms = of_nat (total_size msize xs) \<and>
     ms_last ms \<noteq> - 1 \<and>
     (if ms_first ms = 0 then xs = [] \<and> ms_last ms = 0
      else consec (unat (ms_first ms)) xs \<and>
           unat (ms_first ms) + length xs = Suc (unat (ms_last ms)))"

text \<open>What the limits leave of a list: the oldest messages go, at least one message stays.\<close>

definition over :: "(MsgProto option \<Rightarrow> nat) \<Rightarrow> MsgStoreLimits \<Rightarrow> MsgProto list \<Rightarrow> bool" where
  "over msize lim xs \<longleftrightarrow>
     length xs > 1 \<and>
     ((MaxMsgs lim > 0 \<and> int (length xs) > MaxMsgs lim) \<or>
      (MaxBytes lim > 0 \<and> (of_nat (total_size msize xs) :: u64) > of_int (MaxBytes lim)))"

fun trim :: "(MsgProto option \<Rightarrow> nat) \<Rightarrow> MsgStoreLimits \<Rightarrow> MsgProto list \<Rightarrow> MsgProto list" where
  "trim msize lim [] = []"
| "trim msize lim (x # xs) = (if over msize lim (x # xs) then trim msize lim xs else x # xs)"

lemma total_size_simps [simp]:
  "total_size msize [] = 0"
  "total_size msize (x # xs) = msize (Some x) + total_size msize xs"
  "total_size msize (xs @ ys) = total_size msize xs + total_size msize ys"
  by (simp_all add: total_size_def)

lemma ms_log_init: "ms_log msize (ms_init subject limits) []"
  by (simp add: ms_log_def ms_init_def)

lemma consec_nth: "consec n xs \<Longrightarrow> i < length xs \<Longrightarrow> unat (Sequence (xs ! i)) = n + i"
  by (induction xs arbitrary: n i) (auto simp: nth_Cons split: nat.split)

lemma consec_append: "consec n (xs @ ys) \<longleftrightarrow> consec n xs \<and> consec (n + length xs) ys"
  by (induction xs arbitrary: n) auto

lemma consec_range: "consec n xs \<Longrightarrow> x \<in> set xs \<Longrightarrow> n \<le> unat (Sequence x) \<and> unat (Sequence x) < n + length xs"
  by (auto simp: in_set_conv_nth consec_nth)

lemma consec_distinct: "consec n xs \<Longrightarrow> distinct (map Sequence xs)"
proof (induction xs arbitrary: n)
  case (Cons x xs)
  then have "unat (Sequence x) < unat (Sequence y)" if "y \<in> set xs" for y
    using consec_range [of "Suc n" xs y] that by auto
  with Cons show ?case by fastforce
qed simp

lemma ms_log_first:
  assumes "ms_log msize ms (x # xs)"
  shows "ms_first ms \<noteq> 0" "Sequence x = ms_first ms" "ms_first ms \<le> ms_last ms"
    "ms_first ms \<noteq> - 1" "mget (ms_msgs ms) (ms_first ms) = Some x"
proof -
  show ne: "ms_first ms \<noteq> 0" using assms by (auto simp: ms_log_def)
  with assms have "unat (Sequence x) = unat (ms_first ms)" and le: "unat (ms_first ms) \<le> unat (ms_last ms)"
    by (auto simp: ms_log_def)
  then show x: "Sequence x = ms_first ms" and "ms_first ms \<le> ms_last ms"
    by (simp_all add: word_le_nat_alt word_unat_eq_iff)
  then show "ms_first ms \<noteq> - 1" using assms by (auto simp: ms_log_def word_order.extremum_unique)
  show "mget (ms_msgs ms) (ms_first ms) = Some x" using assms x by (simp add: ms_log_def)
qed

lemma ms_log_distinct: "ms_log msize ms xs \<Longrightarrow> distinct (map Sequence xs)"
  by (auto simp: ms_log_def dest: consec_distinct split: if_splits)

lemma map_of_seq_tl:
  assumes "distinct (map Sequence (x # xs))"
  shows "(map_of (map (\<lambda>m. (Sequence m, m)) (x # xs)))(Sequence x := None) =
    map_of (map (\<lambda>m. (Sequence m, m)) xs)"
proof -
  have "map_of (map (\<lambda>m. (Sequence m, m)) xs) (Sequence x) = None"
    using assms by (auto simp: map_of_eq_None_iff image_image)
  then show ?thesis by (auto simp: fun_eq_iff)
qed

lemma ms_log_removeFirstMsg:
  assumes "ms_log msize ms (x # xs)"
  shows "ms_log msize (removeFirstMsg msize ms) xs"
proof -
  note f = ms_log_first [OF assms]
  have "(mget (ms_msgs ms))(ms_first ms := None) = map_of (map (\<lambda>m. (Sequence m, m)) xs)"
    using map_of_seq_tl [OF ms_log_distinct [OF assms]] assms f(2) by (simp add: ms_log_def)
  with assms f show ?thesis
    by (auto simp: ms_log_def removeFirstMsg_def Let_def unat_seq_Suc seq_Suc_neq_0)
qed

lemma ms_log_cong:
  "ms_msgs ms' = ms_msgs ms \<Longrightarrow> ms_first ms' = ms_first ms \<Longrightarrow> ms_last ms' = ms_last ms \<Longrightarrow>
   ms_totalCount ms' = ms_totalCount ms \<Longrightarrow> ms_totalBytes ms' = ms_totalBytes ms \<Longrightarrow>
   ms_log msize ms' xs = ms_log msize ms xs"
  by (simp add: ms_log_def)

lemma over_limits_over: "ms_log msize ms xs \<Longrightarrow> over_limits ms = over msize (ms_limits ms) xs"
  by (simp add: ms_log_def over_limits_def over_def)

lemma removeFirstMsg_fields [simp]:
  "ms_limits (removeFirstMsg msize ms) = ms_limits ms"
  "ms_last (removeFirstMsg msize ms) = ms_last ms"
  "ms_closed (removeFirstMsg msize ms) = ms_closed ms"
  by (simp_all add: removeFirstMsg_def Let_def)

lemma limit_loop_log:
  "ms_log msize ms xs \<Longrightarrow> ms_log msize (limit_loop msize ms) (trim msize (ms_limits ms) xs)"
proof (induction xs arbitrary: ms)
  case Nil
  then show ?case
    using over_limits_over [OF Nil] by (subst limit_loop.simps) (simp add: over_def)
next
  case (Cons x xs)
  let ?ms' = "(removeFirstMsg msize ms)\<lparr>ms_hitLimit := True\<rparr>"
  have "ms_log msize ?ms' xs"
    using ms_log_removeFirstMsg [OF Cons.prems] by (simp add: ms_log_cong [of ?ms' "removeFirstMsg msize ms"])
  from Cons.IH [OF this] Cons.prems show ?case
    by (subst limit_loop.simps) (simp add: over_limits_over [OF Cons.prems])
qed

lemma limit_loop_last [simp]: "ms_last (limit_loop msize ms) = ms_last ms"
  by (induction msize ms rule: limit_loop.induct) (subst limit_loop.simps, simp)

lemma limit_loop_limits [simp]: "ms_limits (limit_loop msize ms) = ms_limits ms"
  by (induction msize ms rule: limit_loop.induct) (subst limit_loop.simps, simp)


section \<open>Storing\<close>

text \<open>The sequence a message must carry to extend the log.\<close>

definition next_msg :: "msg_store \<Rightarrow> MsgProto \<Rightarrow> bool" where
  "next_msg ms m \<longleftrightarrow>
     Sequence m \<noteq> - 1 \<and>
     (if ms_first ms = 0 then Sequence m \<noteq> 0 else Sequence m = ms_last ms + 1)"

lemma next_msg_new: "ms_log msize ms xs \<Longrightarrow> next_msg ms m \<Longrightarrow> \<not> Sequence m \<le> ms_last ms"
  by (auto simp: ms_log_def next_msg_def seq_less_Suc not_le word_neq_0_conv split: if_splits)

lemma map_of_seq_snoc:
  assumes "Sequence m \<notin> Sequence ` set xs"
  shows "[Sequence m \<mapsto> m] ++ map_of (map (\<lambda>m. (Sequence m, m)) xs) =
    (map_of (map (\<lambda>m. (Sequence m, m)) xs))(Sequence m \<mapsto> m)"
proof -
  have "map_of (map (\<lambda>m. (Sequence m, m)) xs) (Sequence m) = None"
    using assms by (auto simp: map_of_eq_None_iff image_image)
  then show ?thesis by (auto simp: fun_eq_iff map_add_def split: option.split)
qed

lemma append_msg_log:
  assumes "ms_log msize ms xs" "next_msg ms m"
  shows "ms_log msize (append_msg msize m ms) (xs @ [m])"
proof -
  let ?first = "if ms_first ms = 0 then Sequence m else ms_first ms"
  have seq: "consec (unat ?first) (xs @ [m]) \<and> unat ?first + length xs = unat (Sequence m)"
    using assms by (auto simp: ms_log_def next_msg_def consec_append unat_seq_Suc split: if_splits)
  then have "Sequence m \<notin> Sequence ` set xs" using consec_distinct [of _ "xs @ [m]"] by auto
  note map_of_seq_snoc [OF this]
  with assms seq show ?thesis
    by (auto simp: ms_log_def next_msg_def append_msg_def Let_def)
qed

lemma append_msg_limits [simp]: "ms_limits (append_msg msize m ms) = ms_limits ms"
  "ms_last (append_msg msize m ms) = Sequence m"
  "ms_ageTimer (append_msg msize m ms) = ms_ageTimer ms"
  by (simp_all add: append_msg_def Let_def)

lemma Store_append:
  assumes "\<not> Sequence m \<le> ms_last ms"
  shows "\<exists>t. Store msize now m ms =
    (Sequence m, let ms3 = (append_msg msize m ms)\<lparr>ms_ageTimer := t\<rparr>
     in if MaxMsgs (ms_limits ms) > 0 \<or> MaxBytes (ms_limits ms) > 0 then limit_loop msize ms3 else ms3)"
proof -
  let ?ms2 = "append_msg msize m ms"
  have same: "?ms2\<lparr>ms_ageTimer := ms_ageTimer ms\<rparr> = ?ms2" by (simp add: append_msg_def Let_def)
  show ?thesis
  proof (cases "MaxAge (ms_limits ms) > 0 \<and> ms_ageTimer ms = None")
    case True
    then show ?thesis
      using assms by (intro exI [of _ "Some (msgExpireIn now ?ms2 (Timestamp m))"]) (simp add: Store_def Let_def)
  next
    case False
    then show ?thesis
      using assms
      by (intro exI [of _ "ms_ageTimer ms"], unfold same Store_def Let_def append_msg_limits if_not_P [OF False])
        simp
  qed
qed

lemma not_over_unlimited: "\<not> (MaxMsgs lim > 0 \<or> MaxBytes lim > 0) \<Longrightarrow> trim msize lim xs = xs"
  by (cases xs) (auto simp: over_def)

lemma Store_log:
  assumes "ms_log msize ms xs" "next_msg ms m"
  shows "fst (Store msize now m ms) = Sequence m"
    and "ms_log msize (snd (Store msize now m ms)) (trim msize (ms_limits ms) (xs @ [m]))"
    and "ms_limits (snd (Store msize now m ms)) = ms_limits ms"
    and "ms_last (snd (Store msize now m ms)) = Sequence m"
proof -
  obtain t where t: "Store msize now m ms =
    (Sequence m, let ms3 = (append_msg msize m ms)\<lparr>ms_ageTimer := t\<rparr>
     in if MaxMsgs (ms_limits ms) > 0 \<or> MaxBytes (ms_limits ms) > 0 then limit_loop msize ms3 else ms3)"
    using Store_append [OF next_msg_new [OF assms]] by blast
  let ?ms3 = "(append_msg msize m ms)\<lparr>ms_ageTimer := t\<rparr>"
  have l: "ms_log msize ?ms3 (xs @ [m])"
    using append_msg_log [OF assms] by (simp add: ms_log_cong [of ?ms3 "append_msg msize m ms"])
  from t limit_loop_log [OF l] l show "ms_log msize (snd (Store msize now m ms)) (trim msize (ms_limits ms) (xs @ [m]))"
    using not_over_unlimited [of "ms_limits ms" msize "xs @ [m]"] by (simp add: Let_def)
  from t show "fst (Store msize now m ms) = Sequence m" by simp
  from t show "ms_limits (snd (Store msize now m ms)) = ms_limits ms" by (simp add: Let_def)
  from t show "ms_last (snd (Store msize now m ms)) = Sequence m" by (simp add: Let_def)
qed

lemma Store_old: "Sequence m \<le> ms_last ms \<Longrightarrow> Store msize now m ms = (Sequence m, ms)"
  by (simp add: Store_def)

lemma trim_drop: "\<exists>k. trim msize lim xs = drop k xs \<and> (xs \<noteq> [] \<longrightarrow> k < length xs) \<and>
   (\<forall>j < k. over msize lim (drop j xs)) \<and> \<not> over msize lim (drop k xs)"
proof (induction xs)
  case Nil
  then show ?case by (auto simp: over_def)
next
  case (Cons x xs)
  then obtain k where k: "trim msize lim xs = drop k xs" "xs \<noteq> [] \<longrightarrow> k < length xs"
    "\<forall>j < k. over msize lim (drop j xs)" "\<not> over msize lim (drop k xs)" by blast
  show ?case
  proof (cases "over msize lim (x # xs)")
    case True
    then have "xs \<noteq> []" by (auto simp: over_def)
    with k True show ?thesis
      by (intro exI [of _ "Suc k"]) (auto simp: less_Suc_eq_0_disj)
  qed (auto intro!: exI [of _ 0])
qed

section \<open>Expiration\<close>

definition expired :: "int \<Rightarrow> int \<Rightarrow> MsgProto \<Rightarrow> bool" where
  "expired now maxAge m \<longleftrightarrow> i64 (now - Timestamp m) \<ge> maxAge"

lemma ms_log_Nil_end:
  assumes "ms_log msize ms []"
  shows "mget (ms_msgs ms) (ms_first ms) = None \<and> \<not> ms_first ms < ms_last ms"
  using assms by (auto simp: ms_log_def word_less_nat_alt split: if_splits)

lemma expire_loop_log:
  "ms_log msize ms xs \<Longrightarrow>
   ms_log msize (expire_loop msize now ms) (dropWhile (expired now (MaxAge (ms_limits ms))) xs)"
proof (induction xs arbitrary: ms)
  case Nil
  then show ?case
    using ms_log_Nil_end [OF Nil]
    by (subst expire_loop.simps) (simp add: ms_log_cong [of "ms\<lparr>ms_ageTimer := None\<rparr>" ms])
next
  case (Cons x xs)
  show ?case
  proof (cases "expired now (MaxAge (ms_limits ms)) x")
    case True
    then have "i64 (now - Timestamp x) \<ge> MaxAge (ms_limits ms)" by (simp add: expired_def)
    with True Cons.IH [OF ms_log_removeFirstMsg [OF Cons.prems]] ms_log_first(5) [OF Cons.prems]
    show ?thesis by (subst expire_loop.simps) (simp add: Let_def)
  next
    case False
    then have "\<not> i64 (now - Timestamp x) \<ge> MaxAge (ms_limits ms)" by (simp add: expired_def)
    with False Cons.prems ms_log_first(5) [OF Cons.prems] show ?thesis
      by (subst expire_loop.simps) (simp add: Let_def ms_log_cong [of "ms\<lparr>ms_ageTimer := _\<rparr>" ms])
  qed
qed


lemma expire_loop_timer:
  "ms_log msize ms xs \<Longrightarrow>
   ms_ageTimer (expire_loop msize now ms) =
     (case dropWhile (expired now (MaxAge (ms_limits ms))) xs of
        [] \<Rightarrow> None
      | m # _ \<Rightarrow> Some (if i64 (now - Timestamp m) < 0
                       then i64 (i64 (Timestamp m - now) + MaxAge (ms_limits ms))
                       else i64 (MaxAge (ms_limits ms) - i64 (now - Timestamp m))))"
proof (induction xs arbitrary: ms)
  case Nil
  then show ?case using ms_log_Nil_end [OF Nil] by (subst expire_loop.simps) simp
next
  case (Cons x xs)
  show ?case
  proof (cases "expired now (MaxAge (ms_limits ms)) x")
    case True
    then have "i64 (now - Timestamp x) \<ge> MaxAge (ms_limits ms)" by (simp add: expired_def)
    with True Cons.IH [OF ms_log_removeFirstMsg [OF Cons.prems], unfolded removeFirstMsg_fields]
      ms_log_first(5) [OF Cons.prems]
    show ?thesis by (subst expire_loop.simps) (simp add: Let_def)
  next
    case False
    then have "\<not> i64 (now - Timestamp x) \<ge> MaxAge (ms_limits ms)" by (simp add: expired_def)
    with False Cons.prems ms_log_first(5) [OF Cons.prems] show ?thesis
      by (subst expire_loop.simps) (simp add: Let_def)
  qed
qed

section \<open>Looking up by time\<close>

lemma sort_Search_opt_loop_total:
  "(\<And>k. k < n \<Longrightarrow> f k = Some (g k)) \<Longrightarrow> j \<le> n \<Longrightarrow>
   sort_Search_opt_loop f i j = Some (sort_Search_loop g i j)"
proof (induction f i j rule: sort_Search_opt_loop.induct)
  case (1 f i j)
  show ?case
  proof (cases "i < j")
    case False
    then show ?thesis by (simp add: sort_Search_opt_loop.simps [of f i j] sort_Search_loop.simps [of g i j])
  next
    case True
    define h where "h = (i + j) div 2"
    from True "1.prems"(2) have "h < n" by (auto simp: h_def)
    with "1.prems"(1) have fh: "f h = Some (g h)" by blast
    have "h \<le> n" using \<open>h < n\<close> by simp
    show ?thesis
      using True fh "1.IH"(1) [OF True h_def fh _ "1.prems"] "1.IH"(2) [OF True h_def fh _ "1.prems"(1) \<open>h \<le> n\<close>]
      by (simp add: sort_Search_opt_loop.simps [of f i j] sort_Search_loop.simps [of g i j] Let_def
          flip: h_def)
  qed
qed

lemma ms_log_nth:
  assumes "ms_log msize ms xs" "i < length xs"
  shows "Sequence (xs ! i) = of_nat i + ms_first ms"
    and "mget (ms_msgs ms) (of_nat i + ms_first ms) = Some (xs ! i)"
proof -
  from assms have c: "consec (unat (ms_first ms)) xs" by (auto simp: ms_log_def split: if_splits)
  have "Sequence (xs ! i) = of_nat (unat (ms_first ms) + i)"
    using consec_nth [OF c assms(2)] by (metis of_nat_unat_seq)
  then show seq: "Sequence (xs ! i) = of_nat i + ms_first ms" by simp
  have "map_of (map (\<lambda>m. (Sequence m, m)) xs) (Sequence (xs ! i)) = Some (xs ! i)"
    using ms_log_distinct [OF assms(1)] assms(2) by (intro map_of_is_SomeI) (auto simp: o_def)
  with assms(1) seq show "mget (ms_msgs ms) (of_nat i + ms_first ms) = Some (xs ! i)"
    by (simp add: ms_log_def)
qed

lemma ms_log_last:
  assumes "ms_log msize ms xs" "xs \<noteq> []"
  shows "ms_last ms = of_nat (length xs - 1) + ms_first ms" "ms_first ms \<noteq> 0"
    "ms_first ms \<le> ms_last ms" "mget (ms_msgs ms) (ms_last ms) = Some (last xs)"
proof -
  obtain y ys where "xs = y # ys" using assms(2) by (cases xs) auto
  with assms(1) show "ms_first ms \<noteq> 0" "ms_first ms \<le> ms_last ms"
    using ms_log_first by blast+
  then have "unat (ms_last ms) = unat (ms_first ms) + (length xs - 1)"
    using assms by (cases xs) (auto simp: ms_log_def)
  then show l: "ms_last ms = of_nat (length xs - 1) + ms_first ms"
    by (metis add.commute of_nat_add of_nat_unat_seq)
  from ms_log_nth(2) [OF assms(1), of "length xs - 1"] assms(2)
  show "mget (ms_msgs ms) (ms_last ms) = Some (last xs)"
    unfolding l by (simp add: last_conv_nth)
qed

lemma ms_log_length:
  assumes "ms_log msize ms xs"
  shows "length (ms_msgs ms) = length xs"
proof -
  have "keys (ms_msgs ms) = Sequence ` set xs"
    using assms by (simp add: ms_log_def keys_dom dom_map_of_conv_image_fst image_image)
  moreover have "card (Sequence ` set xs) = length xs"
    using distinct_card [OF ms_log_distinct [OF assms]] by simp
  ultimately show ?thesis using assms by (simp add: length_card_keys ms_log_def)
qed

lemma takeWhile_search:
  assumes "sorted (map Timestamp xs)"
  shows "sort_Search (length xs) (\<lambda>i. Timestamp (xs ! i) \<ge> t) = length (takeWhile (\<lambda>m. Timestamp m < t) xs)"
proof -
  let ?f = "\<lambda>i. Timestamp (xs ! i) \<ge> t" and ?n = "length xs"
  have mono: "?f b" if "a \<le> b" "b < ?n" "?f a" for a b
    using sorted_nth_mono [OF assms, of a b] that by simp
  let ?k = "sort_Search ?n ?f"
  have "?k \<le> ?n" by (rule sort_Search_le) (rule mono)
  moreover have "Timestamp (xs ! i) < t" if "i < ?k" for i
  proof -
    have "\<not> ?f i" by (rule sort_Search_below [OF _ that]) (rule mono)
    then show ?thesis by simp
  qed
  moreover have "\<not> Timestamp (xs ! ?k) < t" if "?k < ?n"
  proof -
    have "?f ?k" by (rule sort_Search_holds [OF _ that]) (rule mono)
    then show ?thesis by simp
  qed
  ultimately have "takeWhile (\<lambda>m. Timestamp m < t) xs = take ?k xs"
    by (intro takeWhile_eq_take_P_nth) auto
  with \<open>?k \<le> ?n\<close> show ?thesis by simp
qed

lemma sorted_last_max:
  "sorted (map Timestamp xs) \<Longrightarrow> m \<in> set xs \<Longrightarrow> Timestamp m \<le> Timestamp (last xs)"
  by (induction xs) auto

lemma GetSequenceFromTimestamp_log:
  assumes "ms_log msize ms xs" "sorted (map Timestamp xs)" "xs \<noteq> []"
  shows "GetSequenceFromTimestamp ms t =
    Some (if t = Timestamp (last xs) \<and> Timestamp (hd xs) < t then ms_last ms
          else of_nat (length (takeWhile (\<lambda>m. Timestamp m < t) xs)) + ms_first ms)"
proof -
  obtain y ys where xs: "xs = y # ys" using assms(3) by (cases xs) auto
  note l = ms_log_last [OF assms(1,3)]
  have first: "ms_timestamp ms (ms_first ms) = Some (Timestamp (hd xs))"
    using ms_log_first(5) [OF assms(1) [unfolded xs]] by (simp add: ms_timestamp_def xs)
  have last: "ms_timestamp ms (ms_last ms) = Some (Timestamp (last xs))"
    using l(4) by (simp add: ms_timestamp_def)
  have all: "length (takeWhile (\<lambda>m. Timestamp m < t) xs) = length xs" if "Timestamp (last xs) < t"
  proof (rule arg_cong [where f = length], rule takeWhile_eq_all_conv [THEN iffD2], rule ballI)
    fix m
    assume "m \<in> set xs"
    with assms(2) have "Timestamp m \<le> Timestamp (last xs)" by (rule sorted_last_max)
    with that show "Timestamp m < t" by simp
  qed
  have none: "length (takeWhile (\<lambda>m. Timestamp m < t) xs) = 0" if "t \<le> Timestamp (hd xs)"
    using that by (simp add: xs)
  have search: "sort_Search_opt_loop
      (\<lambda>i. map_option (\<lambda>ts. ts \<ge> t) (ms_timestamp ms (of_nat i + ms_first ms))) 0 (length (ms_msgs ms)) =
      Some (length (takeWhile (\<lambda>m. Timestamp m < t) xs))"
    unfolding takeWhile_search [OF assms(2), symmetric] sort_Search_def ms_log_length [OF assms(1)]
    by (rule sort_Search_opt_loop_total [where n = "length xs"])
      (simp_all add: ms_timestamp_def ms_log_nth(2) [OF assms(1)])
  have "ms_last ms + 1 = of_nat (length xs) + ms_first ms"
    using l(1) assms(3) by (cases xs) simp_all
  then show ?thesis
    using first last l(2,3) all none search
    by (auto simp: GetSequenceFromTimestamp_def not_less)
qed


section \<open>The interface of a message log\<close>

text \<open>
  What the server relies on: a contiguous range of sequences, of which every one is found, and
  storing the next message, which may drop the oldest ones.
\<close>

locale message_log =
  fixes inv :: "'s \<Rightarrow> bool"
    and first_seq :: "'s \<Rightarrow> u64"
    and last_seq :: "'s \<Rightarrow> u64"
    and lookup :: "'s \<Rightarrow> u64 \<Rightarrow> MsgProto option"
    and is_next :: "'s \<Rightarrow> MsgProto \<Rightarrow> bool"
    and store :: "MsgProto \<Rightarrow> 's \<Rightarrow> 's"
  assumes lookup_iff: "inv s \<Longrightarrow> lookup s q \<noteq> None \<longleftrightarrow> first_seq s \<noteq> 0 \<and> first_seq s \<le> q \<and> q \<le> last_seq s"
    and lookup_seq: "inv s \<Longrightarrow> lookup s q = Some m \<Longrightarrow> Sequence m = q"
    and store_inv: "inv s \<Longrightarrow> is_next s m \<Longrightarrow> inv (store m s)"
    and store_last: "inv s \<Longrightarrow> is_next s m \<Longrightarrow> last_seq (store m s) = Sequence m"
    and store_lookup: "inv s \<Longrightarrow> is_next s m \<Longrightarrow> lookup (store m s) (Sequence m) = Some m"
    and store_other: "inv s \<Longrightarrow> is_next s m \<Longrightarrow> lookup (store m s) q = Some m' \<Longrightarrow> q \<noteq> Sequence m \<Longrightarrow>
      lookup s q = Some m'"
begin

lemma first_found: "inv s \<Longrightarrow> first_seq s \<noteq> 0 \<Longrightarrow> first_seq s \<le> last_seq s \<Longrightarrow>
   \<exists>m. lookup s (first_seq s) = Some m \<and> Sequence m = first_seq s"
  using lookup_iff [of s "first_seq s"] lookup_seq [of s "first_seq s"] by auto

text \<open>Skipping to the first available message finds the oldest one at or after a sequence.\<close>

lemma skip_to_first:
  assumes "inv s" "q \<noteq> 0" "lookup s q = None" "first_seq s > q" "lookup s (first_seq s) = Some m"
    and "lookup s q' = Some m'" "q \<le> q'"
  shows "Sequence m \<le> q'"
  using assms lookup_iff [of s q'] lookup_seq [of s] by auto

lemma no_skip:
  assumes "inv s" "lookup s q = None" "first_seq s \<le> q" "q \<le> q'"
  shows "lookup s q' = None"
proof (cases "first_seq s = 0")
  case False
  with assms lookup_iff [of s q] have "\<not> q \<le> last_seq s" by auto
  with assms(4) have "\<not> q' \<le> last_seq s" by auto
  with lookup_iff [OF assms(1), of q'] show ?thesis by auto
qed (use lookup_iff [OF assms(1), of q'] in auto)

end

definition mem_inv :: "(MsgProto option \<Rightarrow> nat) \<Rightarrow> msg_store \<Rightarrow> bool" where
  "mem_inv msize ms \<longleftrightarrow> (\<exists>xs. ms_log msize ms xs)"

lemma ms_log_lookup:
  assumes "ms_log msize ms xs"
  shows "Lookup ms q = Some m \<longleftrightarrow> m \<in> set xs \<and> Sequence m = q"
proof -
  have d: "distinct (map fst (map (\<lambda>m. (Sequence m, m)) xs))"
    using ms_log_distinct [OF assms] by (simp add: o_def)
  have "Lookup ms q = Some m \<longleftrightarrow> (q, m) \<in> set (map (\<lambda>m. (Sequence m, m)) xs)"
    using assms map_of_eq_Some_iff [OF d] by (simp add: Lookup_def ms_log_def)
  then show ?thesis by auto
qed

lemma ms_log_lookup_iff:
  assumes "ms_log msize ms xs"
  shows "Lookup ms q \<noteq> None \<longleftrightarrow> ms_first ms \<noteq> 0 \<and> ms_first ms \<le> q \<and> q \<le> ms_last ms"
proof
  assume "Lookup ms q \<noteq> None"
  then obtain m where "m \<in> set xs" "Sequence m = q" using ms_log_lookup [OF assms] by blast
  with assms show "ms_first ms \<noteq> 0 \<and> ms_first ms \<le> q \<and> q \<le> ms_last ms"
    by (auto simp: ms_log_def word_le_nat_alt dest: consec_range split: if_splits)
next
  assume q: "ms_first ms \<noteq> 0 \<and> ms_first ms \<le> q \<and> q \<le> ms_last ms"
  let ?i = "unat q - unat (ms_first ms)"
  from q assms have "?i < length xs" by (auto simp: ms_log_def word_le_nat_alt)
  from ms_log_nth(2) [OF assms this] q show "Lookup ms q \<noteq> None"
    by (simp add: Lookup_def of_nat_diff word_le_nat_alt of_nat_unat_seq)
qed

lemma trim_last: "trim msize lim (xs @ [m]) \<noteq> [] \<and> last (trim msize lim (xs @ [m])) = m"
  using trim_drop [of msize lim "xs @ [m]"] by auto

lemma trim_subset: "set (trim msize lim xs) \<subseteq> set xs"
  using trim_drop [of msize lim xs] by (auto dest: in_set_dropD)

interpretation memory_log: message_log "mem_inv msize" FirstSequence LastSequence Lookup next_msg
  "\<lambda>m s. snd (Store msize now m s)" for msize now
proof
  fix s :: msg_store and q m
  assume "mem_inv msize s"
  then obtain xs where xs: "ms_log msize s xs" by (auto simp: mem_inv_def)
  show "(Lookup s q \<noteq> None) = (FirstSequence s \<noteq> 0 \<and> FirstSequence s \<le> q \<and> q \<le> LastSequence s)"
    using ms_log_lookup_iff [OF xs] by (simp add: FirstSequence_def LastSequence_def)
  show "Sequence m = q" if "Lookup s q = Some m" using that ms_log_lookup [OF xs] by blast
  assume n: "next_msg s m"
  note st = Store_log [OF xs n, of now]
  from st(2) show "mem_inv msize (snd (Store msize now m s))" by (auto simp: mem_inv_def)
  from st(4) show "LastSequence (snd (Store msize now m s)) = Sequence m" by (simp add: LastSequence_def)
  show "Lookup (snd (Store msize now m s)) (Sequence m) = Some m"
    unfolding ms_log_lookup [OF st(2)] using trim_last by (metis last_in_set)
  show "Lookup s q = Some m'" if "Lookup (snd (Store msize now m s)) q = Some m'" "q \<noteq> Sequence m" for q m'
    using that trim_subset [of msize "ms_limits s" "xs @ [m]"]
    unfolding ms_log_lookup [OF st(2)] ms_log_lookup [OF xs] by auto
qed

section \<open>Properties\<close>

datatype msg_op = StoreOp int MsgProto | ExpireOp int | EmptyOp | CloseOp

fun msg_step :: "(MsgProto option \<Rightarrow> nat) \<Rightarrow> msg_op \<Rightarrow> msg_store \<Rightarrow> msg_store" where
  "msg_step msize (StoreOp now m) ms = snd (Store msize now m ms)"
| "msg_step msize (ExpireOp now) ms = expireMsgs msize now ms"
| "msg_step msize EmptyOp ms = Empty ms"
| "msg_step msize CloseOp ms = Close ms"

fun msg_op_ok :: "msg_store \<Rightarrow> msg_op \<Rightarrow> bool" where
  "msg_op_ok ms (StoreOp now m) = (Sequence m \<le> ms_last ms \<or> next_msg ms m)"
| "msg_op_ok ms _ = True"

fun msg_run :: "(MsgProto option \<Rightarrow> nat) \<Rightarrow> msg_op list \<Rightarrow> msg_store \<Rightarrow> msg_store option" where
  "msg_run msize [] ms = Some ms"
| "msg_run msize (x # xs) ms = (if msg_op_ok ms x then msg_run msize xs (msg_step msize x ms) else None)"

lemma msg_step_log:
  assumes "ms_log msize ms xs" "msg_op_ok ms x"
  shows "\<exists>ys. ms_log msize (msg_step msize x ms) ys"
proof (cases x)
  case (StoreOp now m)
  then show ?thesis
    using assms Store_log(2) [OF assms(1), of m now] by (auto simp: Store_old)
next
  case (ExpireOp now)
  then show ?thesis using assms expire_loop_log [OF assms(1), of now] by (auto simp: expireMsgs_def)
next
  case EmptyOp
  have "ms_log msize (Empty ms) []" by (simp add: ms_log_def Empty_def ms_empty_def)
  with EmptyOp show ?thesis by auto
next
  case CloseOp
  then show ?thesis using assms(1) ms_log_cong [of "Close ms" ms] by (auto simp: Close_def)
qed

lemma msg_run_log:
  "msg_run msize ops ms = Some ms' \<Longrightarrow> ms_log msize ms xs \<Longrightarrow> \<exists>ys. ms_log msize ms' ys"
proof (induction ops arbitrary: ms xs)
  case (Cons x ops)
  then show ?case using msg_step_log [of msize ms xs x] by (auto split: if_splits)
qed auto


definition sample_msg :: "u64 \<Rightarrow> int \<Rightarrow> MsgProto" where
  "sample_msg q t = \<lparr>Sequence = q, Subject = ''foo'', Reply = [], Data = ''hello'', Timestamp = t,
     Redelivered = False, RedeliveryCount = 0, CRC32 = 0\<rparr>"

definition sample_limits :: MsgStoreLimits where
  "sample_limits = \<lparr>MaxMsgs = 2, MaxBytes = 0, MaxAge = 10\<rparr>"



text \<open>C14: storing the next message returns its sequence and refines appending to a list: only the
  oldest messages are dropped, never the new one, no more than needed for the count and byte
  limits, and afterwards the limits hold unless one message is left.\<close>

theorem Store_refines_append:
  assumes "ms_log msize ms xs" "next_msg ms m"
  shows "fst (Store msize now m ms) = Sequence m \<and>
    (\<exists>k \<le> length xs. ms_log msize (snd (Store msize now m ms)) (drop k (xs @ [m])) \<and>
       (\<forall>j < k. over msize (ms_limits ms) (drop j (xs @ [m]))) \<and>
       \<not> over msize (ms_limits ms) (drop k (xs @ [m])))"
proof -
  obtain k where "trim msize (ms_limits ms) (xs @ [m]) = drop k (xs @ [m])" "k < length (xs @ [m])"
    "\<forall>j < k. over msize (ms_limits ms) (drop j (xs @ [m]))" "\<not> over msize (ms_limits ms) (drop k (xs @ [m]))"
    using trim_drop [of msize "ms_limits ms" "xs @ [m]"] by blast
  with Store_log(1,2) [OF assms, of now] show ?thesis by (auto intro!: exI [of _ k])
qed

theorem Store_refines_append_witness:
  "fst (Store (\<lambda>m. 5) 7 (sample_msg 1 0) (ms_init ''foo'' sample_limits)) = 1"
proof -
  have "next_msg (ms_init ''foo'' sample_limits) (sample_msg 1 0)"
    by (simp add: next_msg_def ms_init_def sample_msg_def)
  from Store_refines_append [OF ms_log_init this, of "\<lambda>m. 5" 7] show ?thesis
    by (simp add: sample_msg_def)
qed

text \<open>C32: on a store that is not closed \<open>expireMsgs\<close> removes exactly the longest prefix of messages
  whose age has reached \<open>MaxAge\<close> and keeps the rest; a timer stays set exactly when a message is
  left, and it fires exactly when the oldest of them reaches \<open>MaxAge\<close> (times within 62 bits).\<close>

theorem expireMsgs_spec:
  assumes "ms_log msize ms xs" "\<not> ms_closed ms"
  shows "ms_log msize (expireMsgs msize now ms) (dropWhile (expired now (MaxAge (ms_limits ms))) xs) \<and>
    (case dropWhile (expired now (MaxAge (ms_limits ms))) xs of
       [] \<Rightarrow> ms_ageTimer (expireMsgs msize now ms) = None
     | m # _ \<Rightarrow>
         (\<bar>now\<bar> < 2 ^ 61 \<and> \<bar>Timestamp m\<bar> < 2 ^ 61 \<and> \<bar>MaxAge (ms_limits ms)\<bar> < 2 ^ 61 \<longrightarrow>
          ms_ageTimer (expireMsgs msize now ms) = Some (Timestamp m + MaxAge (ms_limits ms) - now) \<and>
          Timestamp m + MaxAge (ms_limits ms) - now > 0))"
proof (cases "dropWhile (expired now (MaxAge (ms_limits ms))) xs")
  case Nil
  show ?thesis
    using expire_loop_log [OF assms(1), of now] expire_loop_timer [OF assms(1), of now] assms(2)
    unfolding Nil by (simp add: expireMsgs_def)
next
  case (Cons m ys)
  then have "\<not> expired now (MaxAge (ms_limits ms)) m" by (metis hd_dropWhile list.discI list.sel(1))
  then have nx: "i64 (now - Timestamp m) < MaxAge (ms_limits ms)" by (simp add: expired_def)
  let ?a = "MaxAge (ms_limits ms)"
  have "ms_ageTimer (expire_loop msize now ms) = Some (Timestamp m + ?a - now) \<and> Timestamp m + ?a - now > 0"
    if small: "\<bar>now\<bar> < 2 ^ 61" "\<bar>Timestamp m\<bar> < 2 ^ 61" "\<bar>?a\<bar> < 2 ^ 61"
  proof -
    from small have "i64 (now - Timestamp m) = now - Timestamp m" "i64 (Timestamp m - now) = Timestamp m - now"
      "i64 (Timestamp m - now + ?a) = Timestamp m - now + ?a"
      "i64 (?a - (now - Timestamp m)) = ?a - (now - Timestamp m)"
      by (auto simp: in_i64_def intro!: i64_id)
    with expire_loop_timer [OF assms(1), of now] nx show ?thesis unfolding Cons by auto
  qed
  then show ?thesis
    using expire_loop_log [OF assms(1), of now] assms(2) unfolding Cons by (simp add: expireMsgs_def)
qed

theorem expireMsgs_spec_witness:
  "ms_ageTimer (expireMsgs (\<lambda>m. 5) 12
     (snd (Store (\<lambda>m. 5) 7 (sample_msg 1 6) (ms_init ''foo'' sample_limits)))) = Some 4"
proof -
  have n: "next_msg (ms_init ''foo'' sample_limits) (sample_msg 1 6)"
    by (simp add: next_msg_def ms_init_def sample_msg_def)
  have "trim (\<lambda>m. 5) (ms_limits (ms_init ''foo'' sample_limits)) ([] @ [sample_msg 1 6]) = [sample_msg 1 6]"
    by (simp add: over_def)
  with Store_log(2) [OF ms_log_init n, of "\<lambda>m. 5" 7]
  have "ms_log (\<lambda>m. 5) (snd (Store (\<lambda>m. 5) 7 (sample_msg 1 6) (ms_init ''foo'' sample_limits))) [sample_msg 1 6]"
    by (simp only:)
  moreover have "ms_limits (snd (Store (\<lambda>m. 5) 7 (sample_msg 1 6) (ms_init ''foo'' sample_limits))) = sample_limits"
    using Store_log(3) [OF ms_log_init n, of "\<lambda>m. 5" 7] by (simp add: ms_init_def)
  moreover have "\<not> ms_closed (snd (Store (\<lambda>m. 5) 7 (sample_msg 1 6) (ms_init ''foo'' sample_limits)))"
    by code_simp
  moreover have "dropWhile (expired 12 10) [sample_msg 1 6] = [sample_msg 1 6]" by code_simp
  ultimately show ?thesis
    using expireMsgs_spec [of "\<lambda>m. 5" "snd (Store (\<lambda>m. 5) 7 (sample_msg 1 6) (ms_init ''foo'' sample_limits))"
        "[sample_msg 1 6]" 12]
    by (simp add: sample_limits_def sample_msg_def)
qed

text \<open>C33: when the stored time stamps never decrease, \<open>GetSequenceFromTimestamp\<close> does not panic and
  returns the sequence of the first message at or after the time stamp (one past the last message
  if there is none), except that for a time stamp equal to that of the last message, and later
  than that of the first, it returns the last message's sequence even when earlier messages carry
  the same time stamp.\<close>

theorem GetSequenceFromTimestamp_spec:
  assumes "ms_log msize ms xs" "sorted (map Timestamp xs)" "xs \<noteq> []"
  shows "GetSequenceFromTimestamp ms t =
    Some (if t = Timestamp (last xs) \<and> Timestamp (hd xs) < t then LastSequence ms
          else of_nat (length (takeWhile (\<lambda>m. Timestamp m < t) xs)) + FirstSequence ms)"
  unfolding FirstSequence_def LastSequence_def by (rule GetSequenceFromTimestamp_log [OF assms])

theorem GetSequenceFromTimestamp_spec_witness:
  "GetSequenceFromTimestamp (snd (Store (\<lambda>m. 5) 7 (sample_msg 1 6) (ms_init ''foo'' sample_limits))) 7 = Some 2"
proof -
  have n: "next_msg (ms_init ''foo'' sample_limits) (sample_msg 1 6)"
    by (simp add: next_msg_def ms_init_def sample_msg_def)
  have "trim (\<lambda>m. 5) (ms_limits (ms_init ''foo'' sample_limits)) ([] @ [sample_msg 1 6]) = [sample_msg 1 6]"
    by (simp add: over_def)
  with Store_log(2) [OF ms_log_init n, of "\<lambda>m. 5" 7]
  have "ms_log (\<lambda>m. 5) (snd (Store (\<lambda>m. 5) 7 (sample_msg 1 6) (ms_init ''foo'' sample_limits))) [sample_msg 1 6]"
    by (simp only:)
  moreover have "FirstSequence (snd (Store (\<lambda>m. 5) 7 (sample_msg 1 6) (ms_init ''foo'' sample_limits))) = 1"
    by code_simp
  ultimately show ?thesis
    using GetSequenceFromTimestamp_spec [of "\<lambda>m. 5" _ "[sample_msg 1 6]" 7] by (simp add: sample_msg_def)
qed

end
