(* ===== verification/Store_Limits.thy ===== *)
theory Store_Limits
  imports Subject_Index Sub_Store Msg_Store
begin

text \<open>
  Limits with inheritance (\<open>stores/limits.go\<close>), the generic store with its channels
  (\<open>stores/common.go\<close>) and the memory store (\<open>stores/memstore.go\<close>).

  The structs \<open>channelLimitInfo\<close> are shared between the index and the loop that applies
  inheritance, so the index holds their names and a map from names to their content is passed
  along. \<open>evict\<close> and \<open>perm\<close> are the iteration orders of the index, as in \<open>Subject_Sublist\<close>; the order of
  \<open>PerChannel\<close> is the order of the list.
\<close>

datatype limits_err = NegativeLimit | InvalidChannelName | TooManyChannels

section \<open>Limits\<close>

definition AddPerChannel :: "string \<Rightarrow> ChannelLimits \<Rightarrow> StoreLimits \<Rightarrow> StoreLimits" where
  "AddPerChannel name cl sl = sl\<lparr>PerChannel := mput name cl (PerChannel sl)\<rparr>"

definition inherit :: "int \<Rightarrow> int \<Rightarrow> int" where
  "inherit own parent = (if own < 0 then 0 else if own = 0 then parent else own)"

definition inheritLimits :: "ChannelLimits \<Rightarrow> ChannelLimits \<Rightarrow> ChannelLimits" where
  "inheritLimits cl parentLimits =
     cl\<lparr>MaxSubscriptions := inherit (MaxSubscriptions cl) (MaxSubscriptions parentLimits),
        MaxMsgs := inherit (MaxMsgs cl) (MaxMsgs parentLimits),
        MaxBytes := inherit (MaxBytes cl) (MaxBytes parentLimits),
        MaxAge := inherit (MaxAge cl) (MaxAge parentLimits),
        MaxInactivity := inherit (MaxInactivity cl) (MaxInactivity parentLimits)\<rparr>"

definition checkGlobalLimits :: "StoreLimits \<Rightarrow> limits_err option" where
  "checkGlobalLimits sl =
     (if MaxChannels sl < 0 \<or> MaxSubscriptions sl < 0 \<or> MaxMsgs sl < 0 \<or> MaxBytes sl < 0 \<or>
         MaxAge sl < 0 \<or> MaxInactivity sl < 0
      then Some NegativeLimit else None)"

record channelLimitInfo =
  li_limits :: ChannelLimits
  li_isLiteral :: bool
  li_isProcessed :: bool

type_synonym infos = "(string, channelLimitInfo) gomap"

text \<open>The loop of \<open>Build\<close> over the per-channel limits: it validates them and fills the index.\<close>

fun build_loop ::
  "int \<Rightarrow> (string \<times> ChannelLimits) list \<Rightarrow> nat \<Rightarrow> string sublist \<Rightarrow> infos \<Rightarrow> limits_err + string sublist \<times> infos" where
  "build_loop maxChannels [] literals sublist infos = Inr (sublist, infos)"
| "build_loop maxChannels ((cn, cl) # rest) literals sublist infos =
     (if \<not> IsChannelNameValid cn True then Inl InvalidChannelName
      else
        let isLiteral = IsChannelNameLiteral cn;
            literals' = (if isLiteral then Suc literals else literals)
        in if isLiteral \<and> maxChannels > 0 \<and> int literals' > maxChannels then Inl TooManyChannels
           else build_loop maxChannels rest literals' (snd (Insert cn cn sublist))
                  (mput cn \<lparr>li_limits = cl, li_isLiteral = isLiteral, li_isProcessed = False\<rparr> infos))"

definition process_info :: "ChannelLimits \<Rightarrow> string \<Rightarrow> infos \<Rightarrow> infos" where
  "process_info parentLimits name infos =
     (case mget infos name of
        None \<Rightarrow> infos
      | Some i \<Rightarrow>
          if li_isProcessed i then infos
          else mput name (i\<lparr>li_limits := inheritLimits (li_limits i) parentLimits, li_isProcessed := True\<rparr>) infos)"

fun inherit_rest :: "string \<Rightarrow> string list \<Rightarrow> infos \<Rightarrow> infos" where
  "inherit_rest prev [] infos = infos"
| "inherit_rest prev (channel # r) infos =
     inherit_rest channel r
       (case mget infos prev of None \<Rightarrow> infos | Some p \<Rightarrow> process_info (li_limits p) channel infos)"

text \<open>The body of the loop of \<open>applyInheritance\<close>; \<open>None\<close> is the panic on an empty match.\<close>

definition inherit_channel :: "ChannelLimits \<Rightarrow> string list \<Rightarrow> infos \<Rightarrow> infos option" where
  "inherit_channel gl r infos =
     (case r of
        [] \<Rightarrow> None
      | channel # rest \<Rightarrow>
          case mget infos channel of
            None \<Rightarrow> None
          | Some i \<Rightarrow>
              if li_isLiteral i \<and> li_isProcessed i then Some infos
              else Some (inherit_rest channel rest (process_info gl channel infos)))"

fun inherit_loop ::
  "((string, string list) gomap \<Rightarrow> string) \<Rightarrow> ChannelLimits \<Rightarrow> string list \<Rightarrow> string sublist \<Rightarrow> infos \<Rightarrow> infos option" where
  "inherit_loop evict gl [] sublist infos = Some infos"
| "inherit_loop evict gl (cn # channels) sublist infos =
     (let (r, sublist') = Match evict cn sublist
      in case inherit_channel gl r infos of
           None \<Rightarrow> None
         | Some infos' \<Rightarrow> inherit_loop evict gl channels sublist' infos')"

definition applyInheritance ::
  "((string, string list) gomap \<Rightarrow> string) \<Rightarrow> (string list \<Rightarrow> string list) \<Rightarrow> StoreLimits \<Rightarrow>
   string sublist \<Rightarrow> infos \<Rightarrow> infos option" where
  "applyInheritance evict perm sl sublist infos =
     inherit_loop evict (ChannelLimits.truncate sl) (Subjects perm sublist) sublist infos"

text \<open>\<open>Build\<close>: the outer option is the panic of \<open>applyInheritance\<close>.\<close>

definition Build ::
  "((string, string list) gomap \<Rightarrow> string) \<Rightarrow> (string list \<Rightarrow> string list) \<Rightarrow> StoreLimits \<Rightarrow>
   (limits_err + StoreLimits) option" where
  "Build evict perm sl =
     (case checkGlobalLimits sl of
        Some err \<Rightarrow> Some (Inl err)
      | None \<Rightarrow>
          if length (PerChannel sl) = 0 then Some (Inr sl)
          else case build_loop (MaxChannels sl) (PerChannel sl) 0 NewSublist [] of
                 Inl err \<Rightarrow> Some (Inl err)
               | Inr (sublist, infos) \<Rightarrow>
                   map_option (\<lambda>infos'. Inr (sl\<lparr>PerChannel := map (\<lambda>(cn, i). (cn, li_limits i)) infos'\<rparr>))
                     (applyInheritance evict perm sl sublist infos))"

section \<open>The generic store\<close>

record 'c genericStore =
  gs_limits :: StoreLimits
  gs_sublist :: "ChannelLimits sublist"
  gs_channels :: "(string, 'c) gomap"
  gs_closed :: bool

text \<open>
  \<open>setLimits\<close> replaces the limits before it validates them. It returns the error, if there is one, and the store.
\<close>

definition setLimits ::
  "((string, string list) gomap \<Rightarrow> string) \<Rightarrow> (string list \<Rightarrow> string list) \<Rightarrow> StoreLimits \<Rightarrow> 'c genericStore \<Rightarrow>
   (limits_err option \<times> 'c genericStore) option" where
  "setLimits evict perm limits gs =
     (let gs1 = gs\<lparr>gs_limits := limits\<rparr> in
      case Build evict perm limits of
        None \<Rightarrow> None
      | Some (Inl err) \<Rightarrow> Some (Some err, gs1)
      | Some (Inr sl) \<Rightarrow>
          Some (None, gs1\<lparr>gs_limits := sl\<lparr>PerChannel := []\<rparr>,
            gs_sublist := fold (\<lambda>(key, val) s. snd (Insert key val s)) (PerChannel sl) NewSublist\<rparr>))"

definition gs_init ::
  "((string, string list) gomap \<Rightarrow> string) \<Rightarrow> (string list \<Rightarrow> string list) \<Rightarrow> StoreLimits option \<Rightarrow>
   (limits_err option \<times> 'c genericStore) option" where
  "gs_init evict perm limits =
     setLimits evict perm (case limits of None \<Rightarrow> DefaultStoreLimits | Some l \<Rightarrow> l)
       \<lparr>gs_limits = DefaultStoreLimits, gs_sublist = NewSublist, gs_channels = [], gs_closed = False\<rparr>"

definition getChannelLimits ::
  "((string, ChannelLimits list) gomap \<Rightarrow> string) \<Rightarrow> string \<Rightarrow> 'c genericStore \<Rightarrow> ChannelLimits \<times> 'c genericStore" where
  "getChannelLimits evict channel gs =
     (let (r, s) = Match evict channel (gs_sublist gs); gs' = gs\<lparr>gs_sublist := s\<rparr>
      in (if length r = 0 then ChannelLimits.truncate (gs_limits gs) else r ! (length r - 1), gs'))"

definition GetChannelLimits ::
  "((string, ChannelLimits list) gomap \<Rightarrow> string) \<Rightarrow> string \<Rightarrow> 'c genericStore \<Rightarrow> ChannelLimits option \<times> 'c genericStore" where
  "GetChannelLimits evict channel gs =
     (case mget (gs_channels gs) channel of
        None \<Rightarrow> (None, gs)
      | Some _ \<Rightarrow> (let (cl, gs') = getChannelLimits evict channel gs in (Some cl, gs')))"

definition canAddChannel :: "string \<Rightarrow> 'c genericStore \<Rightarrow> store_err option" where
  "canAddChannel name gs =
     (if mget (gs_channels gs) name \<noteq> None then Some ErrAlreadyExists
      else if MaxChannels (gs_limits gs) > 0 \<and> int (length (gs_channels gs)) \<ge> MaxChannels (gs_limits gs)
      then Some ErrTooManyChannels else None)"

text \<open>\<open>close\<close> closes the message and the subscription store of a channel; it returns whether that succeeded.\<close>

datatype delete_err = DeleteErr store_err | CloseErr

definition deleteChannel :: "('c \<Rightarrow> bool \<times> 'c) \<Rightarrow> string \<Rightarrow> 'c genericStore \<Rightarrow> delete_err option \<times> 'c genericStore" where
  "deleteChannel close channel gs =
     (case mget (gs_channels gs) channel of
        None \<Rightarrow> (Some (DeleteErr store_err.ErrNotFound), gs)
      | Some c \<Rightarrow>
          let (ok, c') = close c in
          if \<not> ok then (Some CloseErr, gs\<lparr>gs_channels := mput channel c' (gs_channels gs)\<rparr>)
          else (None, gs\<lparr>gs_channels := mdel channel (gs_channels gs)\<rparr>))"

section \<open>The memory store\<close>

type_synonym mem_channel = "sub_store \<times> msg_store"

text \<open>\<open>entry\<close> is what the map keeps for a channel: its two stores, or less where they are kept elsewhere.\<close>

definition mem_CreateChannel ::
  "(mem_channel \<Rightarrow> 'c) \<Rightarrow> ((string, ChannelLimits list) gomap \<Rightarrow> string) \<Rightarrow> string \<Rightarrow> 'c genericStore \<Rightarrow>
   (store_err + mem_channel) \<times> 'c genericStore" where
  "mem_CreateChannel entry evict channel ms =
     (case canAddChannel channel ms of
        Some err \<Rightarrow> (Inl err, ms)
      | None \<Rightarrow>
          let (channelLimits, ms1) = getChannelLimits evict channel ms;
              c = (ss_init (MaxSubscriptions channelLimits), ms_init channel (MsgStoreLimits.truncate channelLimits))
          in (Inr c, ms1\<lparr>gs_channels := mput channel (entry c) (gs_channels ms1)\<rparr>))"

definition gs_Close :: "mem_channel genericStore \<Rightarrow> mem_channel genericStore" where
  "gs_Close gs =
     (if gs_closed gs then gs
      else gs\<lparr>gs_closed := True, gs_channels := map (\<lambda>(n, ss, ms). (n, ss, Close ms)) (gs_channels gs)\<rparr>)"

end
