(* ===== verification/Limits_Props.thy ===== *)
theory Limits_Props
  imports Store_Limits Subject_Matches
begin

text \<open>
  Inheritance of limits: the loop of \<open>applyInheritance\<close> gives every configured channel the
  limits it inherits from its predecessor in the list of the names that match it.
\<close>

section \<open>Patterns that match a name\<close>

definition match_names :: "string list \<Rightarrow> string \<Rightarrow> string list" where
  "match_names names k = listed_matches (map (\<lambda>n. (n, n)) names) k"

lemma match_names_mem: "n \<in> set (match_names names k) \<longleftrightarrow> n \<in> set names \<and> ptoks_match (pattern n) (tokens k)"
  by (auto simp: match_names_def listed_matches_mem)

lemma ptok_of_simps [simp]:
  "literal_token t \<Longrightarrow> ptok_of t = Lit t" "ptok_of [pwc] = Pwc" "ptok_of [fwc] = Fwc"
  by (auto simp: ptok_of_def literal_token_def dest: hd_in_set)

lemma wild_tokens_cases:
  assumes "wild_tokens (t # ts)"
  shows "(literal_token t \<or> t = [pwc] \<or> (t = [fwc] \<and> ts = [])) \<and> (ts \<noteq> [] \<longrightarrow> wild_tokens ts)"
  using assms by (cases ts) auto

lemma wild_tokens_self: "wild_tokens ts \<Longrightarrow> ptoks_match (map ptok_of ts) ts"
proof (induction ts)
  case (Cons t ts)
  then show ?case using wild_tokens_cases [OF Cons.prems] by (cases "ts = []") auto
qed simp

lemma match_names_self:
  "cn \<in> set names \<Longrightarrow> IsChannelNameValid cn True \<Longrightarrow> cn \<in> set (match_names names cn)"
  by (simp add: match_names_mem pattern_def wild_tokens_self valid_wild_tokens)

lemma distinct_match_names:
  assumes "distinct names" "\<forall>n \<in> set names. IsChannelNameValid n True"
  shows "distinct (match_names names k)"
proof -
  have sub: "map snd (filter (\<lambda>x. pattern (fst x) = p) (map (\<lambda>n. (n, n)) ns)) = filter (\<lambda>n. pattern n = p) ns" for p ns
    by (induction ns) auto
  have "distinct (concat (map (\<lambda>p. filter (\<lambda>n. pattern n = p) names) ps))" if "distinct ps" for ps
    using that assms(1) by (induction ps) (auto simp: disjoint_iff)
  then show ?thesis by (simp add: match_names_def listed_matches_def sub distinct_pats)
qed

lemma pats_snoc:
  "(\<And>p. p \<noteq> [] \<Longrightarrow> last p = Lit t \<or> last p = Lit u \<Longrightarrow> f p = []) \<Longrightarrow>
   concat (map f (pats (xs @ [t]))) = concat (map f (pats (xs @ [u])))"
proof (induction xs arbitrary: f)
  case Nil
  then show ?case by simp
next
  case (Cons x xs)
  have "concat (map (\<lambda>p. f (q # p)) (pats (xs @ [t]))) = concat (map (\<lambda>p. f (q # p)) (pats (xs @ [u])))" for q
    by (rule Cons.IH) (simp add: Cons.prems)
  then show ?case by (simp add: pats_Cons comp_def)
qed

lemma match_names_sibling:
  assumes "tokens a = xs @ [[fwc]]" "tokens b = xs @ [[pwc]]"
  shows "match_names names a = match_names names b"
proof -
  have "map snd (filter (\<lambda>x. pattern (fst x) = p) (map (\<lambda>n. (n, n)) names)) = []"
    if "p \<noteq> []" "last p = Lit [fwc] \<or> last p = Lit [pwc]" for p
  proof -
    have "pattern n \<noteq> p" for n
    proof
      assume "pattern n = p"
      with that show False by (auto simp: pattern_def last_map ptok_of_def split: if_splits)
    qed
    then show ?thesis by (simp add: filter_empty_conv)
  qed
  then show ?thesis unfolding match_names_def listed_matches_def assms by (rule pats_snoc)
qed

definition tails_off :: "ptok list \<Rightarrow> string list \<Rightarrow> bool" where
  "tails_off ps ts \<longleftrightarrow> (\<exists>xs. ts = xs @ [[fwc]] \<and> ps = map ptok_of xs @ [Pwc])"

lemma tails_off_Cons: "tails_off ps ts \<Longrightarrow> tails_off (ptok_of t # ps) (t # ts)"
  unfolding tails_off_def by (metis append_Cons list.simps(9))

lemma matching_wider:
  "ptoks_match ps ts \<Longrightarrow> wild_tokens ts \<Longrightarrow> \<forall>s. Lit s \<in> set ps \<longrightarrow> literal_token s \<Longrightarrow> ps \<noteq> map ptok_of ts \<Longrightarrow>
   wider ps (map ptok_of ts) \<or> tails_off ps ts"
proof (induction ps ts rule: ptoks_match.induct)
  case (2 ps ts)
  then show ?case using wild_tokens_cases [of "hd ts" "tl ts"] by (cases ts) auto
next
  case (3 ps t ts)
  note t = wild_tokens_cases [OF "3.prems"(2)]
  show ?case
  proof (cases "t = [pwc]")
    case True
    with "3.prems"(4) have ne: "ps \<noteq> map ptok_of ts" by simp
    with "3.prems"(1) have "ts \<noteq> []" by (cases ts) (auto simp: ptoks_match_Nil_tokens)
    with ne "3.prems" t have "wider ps (map ptok_of ts) \<or> tails_off ps ts" by (intro "3.IH") auto
    with True tails_off_Cons [of ps ts t] show ?thesis by auto
  next
    case False
    show ?thesis
    proof (cases "literal_token t")
      case True
      then show ?thesis by simp
    next
      case nl: False
      with False t have "t = [fwc]" "ts = []" by auto
      with "3.prems" have "tails_off (Pwc # ps) (t # ts)"
        by (auto simp: tails_off_def ptoks_match_Nil_tokens)
      then show ?thesis by simp
    qed
  qed
next
  case (4 s ps t ts)
  from "4.prems" have st: "s = t" "literal_token t" by auto
  with "4.prems"(4) have ne: "ps \<noteq> map ptok_of ts" by simp
  with "4.prems"(1) have "ts \<noteq> []" by (cases ts) (auto simp: ptoks_match_Nil_tokens)
  with ne "4.prems" wild_tokens_cases [OF "4.prems"(2)] have "wider ps (map ptok_of ts) \<or> tails_off ps ts"
    by (intro "4.IH") auto
  with st tails_off_Cons [of ps ts t] show ?case by auto
qed auto

lemma map_ptok_inject:
  assumes "\<forall>t \<in> set a \<union> set b. literal_token t \<or> t = [pwc] \<or> t = [fwc]" "map ptok_of a = map ptok_of b"
  shows "a = b"
proof -
  have "inj_on ptok_of (set a \<union> set b)" using assms(1) ptok_of_inject by (intro inj_onI) blast
  with assms(2) show ?thesis by (simp add: inj_on_map_eq_map)
qed

text \<open>A name that is listed after \<open>cn\<close> and matches it has the same matches as \<open>cn\<close>.\<close>

lemma match_names_later:
  assumes "IsChannelNameValid cn True" "IsChannelNameValid n True"
    and "ptoks_match (pattern n) (tokens cn)" "\<not> wider (pattern n) (pattern cn)"
  shows "match_names names n = match_names names cn"
proof (cases "pattern n = pattern cn")
  case True
  then show ?thesis using pattern_inject assms(1,2) by blast
next
  case False
  have w: "\<forall>t \<in> set (tokens n) \<union> set (tokens cn). literal_token t \<or> t = [pwc] \<or> t = [fwc]"
    using assms(1,2) wild_tokens_all unfolding valid_wild_tokens by blast
  have lit: "\<forall>s. Lit s \<in> set (pattern n) \<longrightarrow> literal_token s"
  proof (intro allI impI)
    fix s assume "Lit s \<in> set (pattern n)"
    then obtain t where "t \<in> set (tokens n)" "ptok_of t = Lit s" by (auto simp: pattern_def)
    moreover from this w have "literal_token t \<or> t = [pwc] \<or> t = [fwc]" by blast
    ultimately show "literal_token s" by auto
  qed
  from False obtain xs where xs: "tokens cn = xs @ [[fwc]]" "pattern n = map ptok_of xs @ [Pwc]"
    using matching_wider [OF assms(3) _ lit] assms(1,4) by (auto simp: pattern_def valid_wild_tokens tails_off_def)
  have "tokens n = xs @ [[pwc]]"
    by (rule map_ptok_inject) (use w xs in \<open>auto simp: pattern_def\<close>)
  then show ?thesis using match_names_sibling [OF xs(1)] by simp
qed

section \<open>The loops\<close>

definition limit_of :: "infos \<Rightarrow> string \<Rightarrow> ChannelLimits" where
  "limit_of infos n = li_limits (the (mget infos n))"

definition done_in :: "infos \<Rightarrow> string \<Rightarrow> bool" where
  "done_in infos n \<longleftrightarrow> li_isProcessed (the (mget infos n))"

definition parent_of :: "ChannelLimits \<Rightarrow> infos \<Rightarrow> string list \<Rightarrow> ChannelLimits" where
  "parent_of gl infos pre = (if pre = [] then gl else limit_of infos (last pre))"

definition inherits :: "ChannelLimits \<Rightarrow> (string \<Rightarrow> ChannelLimits) \<Rightarrow> string list \<Rightarrow> infos \<Rightarrow> string \<Rightarrow> bool" where
  "inherits gl lim names infos n \<longleftrightarrow>
     (\<exists>pre post. match_names names n = pre @ n # post \<and> (\<forall>m \<in> set pre. done_in infos m) \<and>
        limit_of infos n = inheritLimits (lim n) (parent_of gl infos pre))"

definition inherit_inv :: "ChannelLimits \<Rightarrow> (string \<Rightarrow> ChannelLimits) \<Rightarrow> string list \<Rightarrow> infos \<Rightarrow> bool" where
  "inherit_inv gl lim names infos \<longleftrightarrow>
     map fst infos = names \<and> wf_map infos \<and>
     (\<forall>n \<in> set names. li_isLiteral (the (mget infos n)) = IsChannelNameLiteral n) \<and>
     (\<forall>n \<in> set names. if done_in infos n then inherits gl lim names infos n else limit_of infos n = lim n)"

text \<open>The step that processes a name: its predecessors in the list are done.\<close>

lemma map_fst_mput: "k \<in> set (map fst m) \<Longrightarrow> map fst (mput k v m) = map fst m"
  by (induction m) auto

lemma limit_of_mput [simp]: "limit_of (mput n i infos) m = (if m = n then li_limits i else limit_of infos m)"
  by (simp add: limit_of_def)

lemma done_in_mput [simp]: "done_in (mput n i infos) m = (if m = n then li_isProcessed i else done_in infos m)"
  by (simp add: done_in_def)

lemma inherits_mput:
  assumes "inherits gl lim names infos m" "m \<noteq> n" "\<not> done_in infos n" "li_isProcessed i"
  shows "inherits gl lim names (mput n i infos) m"
proof -
  from assms(1) obtain pre post where p: "match_names names m = pre @ m # post" "\<forall>x \<in> set pre. done_in infos x"
    "limit_of infos m = inheritLimits (lim m) (parent_of gl infos pre)" by (auto simp: inherits_def)
  have "pre \<noteq> [] \<Longrightarrow> last pre \<noteq> n" using p(2) assms(3) by (metis last_in_set)
  with p assms(2,4) show ?thesis
    unfolding inherits_def by (intro exI [of _ pre] exI [of _ post]) (auto simp: parent_of_def)
qed

lemma process_info_step:
  assumes "inherit_inv gl lim names infos" "n \<in> set names" "match_names names n = pre @ n # post"
    and "\<forall>m \<in> set pre. done_in infos m" "infos' = process_info (parent_of gl infos pre) n infos"
  shows "inherit_inv gl lim names infos' \<and> done_in infos' n \<and> (\<forall>m. done_in infos m \<longrightarrow> done_in infos' m)"
proof -
  from assms(1,2) have "n \<in> keys infos" by (auto simp: inherit_inv_def keys_def)
  then obtain i where i: "mget infos n = Some i" by (metis mget_None_iff not_None_eq)
  show ?thesis
  proof (cases "li_isProcessed i")
    case True
    with assms(1,5) i show ?thesis by (simp add: process_info_def done_in_def)
  next
    case False
    define j where "j = i\<lparr>li_limits := inheritLimits (li_limits i) (parent_of gl infos pre), li_isProcessed := True\<rparr>"
    have e: "infos' = mput n j infos" using assms(5) i False by (simp add: process_info_def j_def)
    have nd: "\<not> done_in infos n" using i False by (simp add: done_in_def)
    have lim: "li_limits i = lim n" using assms(1,2) nd i by (auto simp: inherit_inv_def limit_of_def)
    have "n \<notin> set pre" using assms(4) nd by blast
    then have "inherits gl lim names infos' n"
      unfolding inherits_def e using assms(3,4) lim
      by (intro exI [of _ pre] exI [of _ post]) (auto simp: parent_of_def j_def)
    moreover have "inherits gl lim names infos' m" if "m \<noteq> n" "done_in infos m" "m \<in> set names" for m
      unfolding e using that assms(1) nd by (intro inherits_mput) (auto simp: inherit_inv_def j_def)
    ultimately show ?thesis
      using assms(1,2) i unfolding inherit_inv_def e
      by (auto simp: map_fst_mput j_def)
  qed
qed

lemma inherit_rest_step:
  assumes "cn \<in> set names"
  shows "inherit_inv gl lim names infos \<Longrightarrow> match_names names cn = pre @ prev # rest \<Longrightarrow>
    \<forall>m \<in> set (pre @ [prev]). done_in infos m \<Longrightarrow>
    \<forall>m \<in> set (match_names names cn). \<not> done_in infos m \<longrightarrow> match_names names m = match_names names cn \<Longrightarrow>
    inherit_inv gl lim names (inherit_rest prev rest infos) \<and>
    (\<forall>m \<in> set (match_names names cn). done_in (inherit_rest prev rest infos) m) \<and>
    (\<forall>m. done_in infos m \<longrightarrow> done_in (inherit_rest prev rest infos) m)"
proof (induction rest arbitrary: pre prev infos)
  case Nil
  then show ?case by simp
next
  case (Cons n rest)
  define infos' where "infos' = process_info (limit_of infos prev) n infos"
  have mem: "prev \<in> set names" "n \<in> set names"
    using Cons.prems(2) match_names_mem [of _ names cn] by auto
  then have "prev \<in> keys infos" using Cons.prems(1) by (auto simp: inherit_inv_def keys_def)
  then obtain p where p: "mget infos prev = Some p" by (metis mget_None_iff not_None_eq)
  have step: "inherit_rest prev (n # rest) infos = inherit_rest n rest infos'"
    using p by (simp add: infos'_def limit_of_def)
  have s: "inherit_inv gl lim names infos' \<and> done_in infos' n \<and> (\<forall>m. done_in infos m \<longrightarrow> done_in infos' m)"
  proof (cases "done_in infos n")
    case True
    then have "infos' = infos" by (auto simp: infos'_def process_info_def done_in_def split: option.split)
    with True Cons.prems(1) show ?thesis by simp
  next
    case False
    then have "match_names names n = (pre @ [prev]) @ n # rest" using Cons.prems(2,4) by auto
    then show ?thesis
      by (rule process_info_step [OF Cons.prems(1) mem(2)]) (use Cons.prems(3) in \<open>auto simp: infos'_def parent_of_def\<close>)
  qed
  have p: "match_names names cn = (pre @ [prev]) @ n # rest" using Cons.prems(2) by simp
  have d: "\<forall>m \<in> set ((pre @ [prev]) @ [n]). done_in infos' m" using Cons.prems(3) s by auto
  have u: "\<forall>m \<in> set (match_names names cn). \<not> done_in infos' m \<longrightarrow> match_names names m = match_names names cn"
    using Cons.prems(4) s by blast
  from Cons.IH [OF conjunct1 [OF s] p d u] s show ?case unfolding step by blast
qed

lemma set_join_tokens: "t \<in> set ts \<Longrightarrow> set t \<subseteq> set (join_tokens ts)"
  by (induction ts rule: join_tokens.induct) auto

lemma IsChannelNameLiteral_iff: "IsChannelNameLiteral n \<longleftrightarrow> pwc \<notin> set n \<and> fwc \<notin> set n"
  by (induction n) auto

lemma ptoks_match_Lit: "ptoks_match (map Lit a) b \<longleftrightarrow> a = b"
  by (induction a arbitrary: b; case_tac b) (auto simp: ptoks_match_Nil_tokens)

lemma literal_match:
  assumes "IsChannelNameValid n True" "IsChannelNameLiteral n" "ptoks_match (pattern n) (tokens cn)"
  shows "n = cn"
proof -
  have "ptok_of t = Lit t" if t: "t \<in> set (tokens n)" for t
  proof -
    have "set t \<subseteq> set n" using set_join_tokens [OF t] by (simp add: join_tokens_tokens)
    then have "pwc \<notin> set t" "fwc \<notin> set t" using assms(2) by (auto simp: IsChannelNameLiteral_iff)
    then show ?thesis using wild_tokens_all [OF assms(1) [unfolded valid_wild_tokens] t] by auto
  qed
  then have "pattern n = map Lit (tokens n)" by (simp add: pattern_def)
  with assms(3) show ?thesis by (simp add: ptoks_match_Lit tokens_inject)
qed

lemma inherit_channel_step:
  assumes "inherit_inv gl lim names infos" "cn \<in> set names" "\<forall>n \<in> set names. IsChannelNameValid n True"
    and "\<forall>m \<in> set (match_names names cn). \<not> done_in infos m \<longrightarrow> match_names names m = match_names names cn"
  shows "\<exists>infos'. inherit_channel gl (match_names names cn) infos = Some infos' \<and>
    inherit_inv gl lim names infos' \<and> done_in infos' cn \<and> (\<forall>m. done_in infos m \<longrightarrow> done_in infos' m)"
proof -
  have self: "cn \<in> set (match_names names cn)" using match_names_self assms(2,3) by blast
  then obtain n rest where r: "match_names names cn = n # rest" by (cases "match_names names cn") auto
  then have n: "n \<in> set names" "ptoks_match (pattern n) (tokens cn)" using match_names_mem [of n names cn] by auto
  with assms(1) have "n \<in> keys infos" by (auto simp: inherit_inv_def keys_def)
  then obtain i where i: "mget infos n = Some i" by (metis mget_None_iff not_None_eq)
  show ?thesis
  proof (cases "li_isLiteral i \<and> li_isProcessed i")
    case True
    then have "IsChannelNameLiteral n" using assms(1) n i by (auto simp: inherit_inv_def)
    then have "n = cn" using literal_match n assms(3) by blast
    with True r i assms(1) show ?thesis by (auto simp: inherit_channel_def done_in_def)
  next
    case False
    define infos' where "infos' = process_info gl n infos"
    have s: "inherit_inv gl lim names infos' \<and> done_in infos' n \<and> (\<forall>m. done_in infos m \<longrightarrow> done_in infos' m)"
    proof (cases "done_in infos n")
      case True
      then have "infos' = infos" by (auto simp: infos'_def process_info_def done_in_def split: option.split)
      with True assms(1) show ?thesis by simp
    next
      case False
      then have "match_names names n = [] @ n # rest" using assms(4) r by auto
      then show ?thesis by (rule process_info_step [OF assms(1) n(1)]) (auto simp: infos'_def parent_of_def)
    qed
    have "inherit_channel gl (match_names names cn) infos = Some (inherit_rest n rest infos')"
      using False r i by (auto simp: inherit_channel_def infos'_def)
    with inherit_rest_step [OF assms(2), of gl lim infos' "[]" n rest] s r assms(4) self show ?thesis by auto
  qed
qed


lemma inherit_loop_step:
  assumes valid: "\<forall>n \<in> set names. IsChannelNameValid n True"
  shows "inherit_inv gl lim names infos \<Longrightarrow> holds_list s (map (\<lambda>n. (n, n)) names) \<Longrightarrow>
    sorted_wrt (\<lambda>a b. a \<noteq> b \<and> \<not> wider (pattern b) (pattern a)) cns \<Longrightarrow>
    set cns \<subseteq> set names \<Longrightarrow> \<forall>n \<in> set names - set cns. done_in infos n \<Longrightarrow>
    \<exists>infos'. inherit_loop evict gl cns s infos = Some infos' \<and> inherit_inv gl lim names infos' \<and>
      (\<forall>n \<in> set names. done_in infos' n)"
proof (induction cns arbitrary: s infos)
  case Nil
  then show ?case by auto
next
  case (Cons cn cns)
  note m = holds_list_Match [OF Cons.prems(2), of evict cn]
  have u: "\<forall>n \<in> set (match_names names cn). \<not> done_in infos n \<longrightarrow> match_names names n = match_names names cn"
  proof (intro ballI impI)
    fix n assume n: "n \<in> set (match_names names cn)" "\<not> done_in infos n"
    then have nn: "n \<in> set names" "ptoks_match (pattern n) (tokens cn)" by (simp_all add: match_names_mem)
    with n(2) Cons.prems(5) have "n = cn \<or> n \<in> set cns" by auto
    then show "match_names names n = match_names names cn"
    proof
      assume "n \<in> set cns"
      then have "\<not> wider (pattern n) (pattern cn)" using Cons.prems(3) by auto
      with nn valid Cons.prems(4) show ?thesis by (intro match_names_later) auto
    qed simp
  qed
  have cn: "cn \<in> set names" using Cons.prems(4) by simp
  from inherit_channel_step [OF Cons.prems(1) cn valid u] obtain i1 where
    i1: "inherit_channel gl (match_names names cn) infos = Some i1" "inherit_inv gl lim names i1"
      "done_in i1 cn" "\<forall>m. done_in infos m \<longrightarrow> done_in i1 m" by blast
  have d: "\<forall>n \<in> set names - set cns. done_in i1 n" using i1(3,4) Cons.prems(5) by auto
  have "inherit_loop evict gl (cn # cns) s infos = inherit_loop evict gl cns (snd (Match evict cn s)) i1"
    using i1(1) m(1) by (cases "Match evict cn s") (simp add: match_names_def)
  with Cons.IH [OF i1(2) m(2) _ _ d] Cons.prems(3,4) show ?case by simp
qed

lemma mput_new: "k \<notin> keys m \<Longrightarrow> mput k v m = m @ [(k, v)]"
  by (induction m) (auto simp: keys_def)

definition new_info :: "string \<Rightarrow> ChannelLimits \<Rightarrow> channelLimitInfo" where
  "new_info cn cl = \<lparr>li_limits = cl, li_isLiteral = IsChannelNameLiteral cn, li_isProcessed = False\<rparr>"

lemma build_loop_ok:
  "build_loop mc pc lits s infos = Inr (s', infos') \<Longrightarrow> holds_list s A \<Longrightarrow> cache s = [] \<Longrightarrow>
   wf_map pc \<Longrightarrow> keys infos \<inter> keys pc = {} \<Longrightarrow>
   holds_list s' (A @ map (\<lambda>x. (fst x, fst x)) pc) \<and> infos' = infos @ map (\<lambda>x. (fst x, new_info (fst x) (snd x))) pc \<and>
   (\<forall>n \<in> keys pc. IsChannelNameValid n True)"
proof (induction pc arbitrary: lits s infos A)
  case Nil
  then show ?case by (simp add: keys_def)
next
  case (Cons x rest)
  obtain cn cl where x: "x = (cn, cl)" by fastforce
  note prems = Cons.prems [unfolded x]
  define lits' where "lits' = (if IsChannelNameLiteral cn then Suc lits else lits)"
  from prems(1) have v: "IsChannelNameValid cn True"
    and nt: "\<not> (IsChannelNameLiteral cn \<and> mc > 0 \<and> int lits' > mc)"
    by (auto simp: lits'_def Let_def split: if_splits)
  have fresh: "cn \<notin> keys infos" using prems(5) by (auto simp: keys_def)
  have wf: "wf_map rest" and cnr: "cn \<notin> keys rest" and sub: "keys rest \<subseteq> keys ((cn, cl) # rest)"
    using prems(4) by (auto simp: wf_map_def keys_def)
  then have disj: "keys (mput cn (new_info cn cl) infos) \<inter> keys rest = {}" using prems(5) by auto
  have e: "build_loop mc rest lits' (snd (Insert cn cn s)) (mput cn (new_info cn cl) infos) = Inr (s', infos')"
    using prems(1) v nt by (simp add: lits'_def Let_def new_info_def split: if_splits)
  from Cons.IH [OF e holds_list_Insert(1,2) [OF prems(2,3) v] wf disj] v fresh x show ?case
    by (auto simp: mput_new keys_def)
qed

lemma holds_list_trie_abs:
  assumes "holds_list s (map (\<lambda>n. (n, n)) names)" "\<forall>n \<in> set names. IsChannelNameValid n True"
  shows "trie_abs (root s) (mset (map (\<lambda>n. (n, n)) names))"
  using assms by (auto simp: holds_list_def trie_abs_def simp flip: mset_filter mset_map)

lemma Build_inherit_inv:
  assumes "build_loop mc pc 0 NewSublist [] = Inr (s, infos)" "wf_map pc" "perm_ok perm"
  shows "\<exists>infos'. inherit_loop evict gl (Subjects perm s) s infos = Some infos' \<and>
    inherit_inv gl (\<lambda>n. the (mget pc n)) (map fst pc) infos' \<and> (\<forall>n \<in> keys pc. done_in infos' n)"
proof -
  from build_loop_ok [OF assms(1) holds_list_New _ assms(2)]
  have b: "holds_list s (map (\<lambda>x. (fst x, fst x)) pc)" "infos = map (\<lambda>x. (fst x, new_info (fst x) (snd x))) pc"
    "\<forall>n \<in> keys pc. IsChannelNameValid n True"
    by (simp_all add: NewSublist_def)
  let ?names = "map fst pc"
  have hl: "holds_list s (map (\<lambda>n. (n, n)) ?names)" using b(1) by (simp add: comp_def)
  have valid: "\<forall>n \<in> set ?names. IsChannelNameValid n True" using b(3) by (auto simp: keys_def)
  have look: "mget infos n = map_option (new_info n) (mget pc n)" for n
    unfolding b(2) by (induction pc) auto
  have keys: "n \<in> set ?names \<longleftrightarrow> mget pc n \<noteq> None" for n
    using mget_None_iff [of pc n] by (auto simp: keys_def)
  have fsts: "map fst infos = ?names" unfolding b(2) by (simp add: comp_def)
  have "wf_map infos" using assms(2) fsts by (simp add: wf_map_def)
  moreover have "the (mget infos n) = new_info n (the (mget pc n))" if "n \<in> set ?names" for n
    using that keys [of n] by (auto simp: look)
  ultimately have inv: "inherit_inv gl (\<lambda>n. the (mget pc n)) ?names infos"
    unfolding inherit_inv_def using fsts by (simp add: done_in_def limit_of_def new_info_def)
  from assms(3) have perm: "mset (perm xs) = mset xs" for xs by (simp add: perm_ok_def)
  have ok: "trie_ok (root s)" using hl by (simp add: holds_list_def)
  note ta = holds_list_trie_abs [OF hl valid]
  have "set (Subjects perm s) = set ?names" unfolding map_pattern_Subjects(2) [OF ok ta perm] by (simp add: image_image)
  with inherit_loop_step [OF valid inv hl Subjects_sorted [OF ok ta perm], of evict] show ?thesis
    by (auto simp: keys_def)
qed


section \<open>Build\<close>

definition built :: "StoreLimits \<Rightarrow> StoreLimits \<Rightarrow> bool" where
  "built sl sl' \<longleftrightarrow>
     ChannelLimits.truncate sl' = ChannelLimits.truncate sl \<and> MaxChannels sl' = MaxChannels sl \<and>
     map fst (PerChannel sl') = map fst (PerChannel sl) \<and>
     (\<forall>cn cl. mget (PerChannel sl) cn = Some cl \<longrightarrow> IsChannelNameValid cn True \<and>
        (\<exists>pre post. match_names (map fst (PerChannel sl)) cn = pre @ cn # post \<and>
           mget (PerChannel sl') cn =
             Some (inheritLimits cl
               (if pre = [] then ChannelLimits.truncate sl else the (mget (PerChannel sl') (last pre))))))"

lemma mget_limits: "mget (map (\<lambda>(cn, i). (cn, li_limits i)) infos) n = map_option li_limits (mget infos n)"
  by (induction infos) auto

lemma map_fst_limits: "map fst (map (\<lambda>(cn, i). (cn, li_limits i)) infos) = map fst infos"
  by (induction infos) auto

lemma truncate_PerChannel [simp]:
  "ChannelLimits.truncate (sl\<lparr>PerChannel := pc\<rparr>) = ChannelLimits.truncate sl"
  by (simp add: ChannelLimits.truncate_def)

lemma built_inherit_inv:
  assumes "inherit_inv (ChannelLimits.truncate sl) (\<lambda>n. the (mget (PerChannel sl) n)) (map fst (PerChannel sl)) infos"
    and "\<forall>n \<in> keys (PerChannel sl). done_in infos n" "\<forall>n \<in> keys (PerChannel sl). IsChannelNameValid n True"
  shows "built sl (sl\<lparr>PerChannel := map (\<lambda>(cn, i). (cn, li_limits i)) infos\<rparr>)" (is "built sl ?sl")
proof -
  have fst: "map fst infos = map fst (PerChannel sl)" using assms(1) by (simp add: inherit_inv_def)
  then have dom: "n \<in> keys (PerChannel sl) \<Longrightarrow> mget (PerChannel ?sl) n = Some (limit_of infos n)" for n
    using mget_None_iff [of infos n] set_map [of fst infos] set_map [of fst "PerChannel sl"]
    unfolding keys_def by (auto simp: mget_limits limit_of_def)
  show ?thesis unfolding built_def
  proof (intro conjI allI impI)
    show "map fst (PerChannel ?sl) = map fst (PerChannel sl)" using map_fst_limits [of infos] fst by simp
    fix cn cl assume cl: "mget (PerChannel sl) cn = Some cl"
    then have cn: "cn \<in> keys (PerChannel sl)" using mget_None_iff [of "PerChannel sl" cn] by auto
    show "IsChannelNameValid cn True" using cn assms(3) by blast
    have "inherits (ChannelLimits.truncate sl) (\<lambda>n. the (mget (PerChannel sl) n)) (map fst (PerChannel sl)) infos cn"
      using assms(1,2) cn by (auto simp: inherit_inv_def keys_def)
    then obtain pre post where p: "match_names (map fst (PerChannel sl)) cn = pre @ cn # post"
      "limit_of infos cn = inheritLimits cl (parent_of (ChannelLimits.truncate sl) infos pre)"
      by (auto simp: inherits_def cl)
    have "last pre \<in> keys (PerChannel sl)" if "pre \<noteq> []"
      using match_names_mem [of "last pre" "map fst (PerChannel sl)" cn] p(1) that by (simp add: keys_def)
    then have "mget (PerChannel ?sl) cn = Some (inheritLimits cl
        (if pre = [] then ChannelLimits.truncate sl else the (mget (PerChannel ?sl) (last pre))))"
      using dom [OF cn] dom [of "last pre"] p(2) by (simp add: parent_of_def)
    with p(1) show "\<exists>pre post. match_names (map fst (PerChannel sl)) cn = pre @ cn # post \<and>
        mget (PerChannel ?sl) cn = Some (inheritLimits cl
          (if pre = [] then ChannelLimits.truncate sl else the (mget (PerChannel ?sl) (last pre))))" by blast
  qed simp_all
qed

lemma Build_cases:
  assumes "wf_map (PerChannel sl)" "perm_ok perm"
  shows "\<exists>res. Build evict perm sl = Some res \<and> (\<forall>sl'. res = Inr sl' \<longrightarrow> built sl sl') \<and>
    (isl res \<longleftrightarrow> checkGlobalLimits sl \<noteq> None \<or>
       isl (build_loop (MaxChannels sl) (PerChannel sl) 0 NewSublist []))"
proof (cases "checkGlobalLimits sl = None \<and> PerChannel sl \<noteq> []")
  case False
  then show ?thesis by (cases "checkGlobalLimits sl") (auto simp: Build_def built_def)
next
  case True
  show ?thesis
  proof (cases "build_loop (MaxChannels sl) (PerChannel sl) 0 NewSublist []")
    case (Inl err)
    with True show ?thesis by (simp add: Build_def)
  next
    case (Inr p)
    obtain s infos where b: "build_loop (MaxChannels sl) (PerChannel sl) 0 NewSublist [] = Inr (s, infos)"
      using Inr by (cases p) simp
    from Build_inherit_inv [OF b assms, of evict "ChannelLimits.truncate sl"] obtain infos' where
      i: "inherit_loop evict (ChannelLimits.truncate sl) (Subjects perm s) s infos = Some infos'"
      "inherit_inv (ChannelLimits.truncate sl) (\<lambda>n. the (mget (PerChannel sl) n)) (map fst (PerChannel sl)) infos'"
      "\<forall>n \<in> keys (PerChannel sl). done_in infos' n" by blast
    have v: "\<forall>n \<in> keys (PerChannel sl). IsChannelNameValid n True"
      using build_loop_ok [OF b holds_list_New _ assms(1)] by (simp add: NewSublist_def)
    have "Build evict perm sl = Some (Inr (sl\<lparr>PerChannel := map (\<lambda>(cn, i). (cn, li_limits i)) infos'\<rparr>))"
      using True b i(1) by (simp add: Build_def applyInheritance_def)
    with built_inherit_inv [OF i(2,3) v] b True show ?thesis by simp
  qed
qed

definition literals :: "(string \<times> ChannelLimits) list \<Rightarrow> nat" where
  "literals pc = length (filter (\<lambda>x. IsChannelNameLiteral (fst x)) pc)"

lemma build_loop_error:
  "(mc > 0 \<longrightarrow> int k \<le> mc) \<Longrightarrow>
   isl (build_loop mc pc k s infos) \<longleftrightarrow>
     (\<exists>n \<in> keys pc. \<not> IsChannelNameValid n True) \<or> (mc > 0 \<and> int (k + literals pc) > mc)"
proof (induction pc arbitrary: k s infos)
  case Nil
  then show ?case by (auto simp: literals_def keys_def)
next
  case (Cons x pc)
  obtain cn cl where x: "x = (cn, cl)" by fastforce
  have k: "keys (x # pc) = insert cn (keys pc)" by (simp add: x keys_def)
  show ?case
    unfolding k using Cons.IH [of "Suc k"] Cons.IH [of k] Cons.prems
    by (cases "IsChannelNameLiteral cn") (auto simp: x Let_def literals_def)
qed


section \<open>Looking up the limits of a channel\<close>

lemma mget_wf: "wf_map m \<Longrightarrow> (k, v) \<in> set m \<Longrightarrow> mget m k = Some v"
  by (simp add: wf_map_def)

lemma listed_matches_names:
  assumes "wf_map pc"
  shows "listed_matches pc k = map (\<lambda>n. the (mget pc n)) (match_names (map fst pc) k)"
proof -
  have sel: "map snd (filter (\<lambda>x. pattern (fst x) = p) xs) =
      map (\<lambda>n. the (mget pc n)) (map snd (filter (\<lambda>x. pattern (fst x) = p) (map (\<lambda>n. (n, n)) (map fst xs))))"
    if "set xs \<subseteq> set pc" for p xs
    using that mget_wf [OF assms] by (induction xs) auto
  show ?thesis
    unfolding match_names_def listed_matches_def map_concat
    by (rule arg_cong [where f = concat]) (use sel [of pc] in \<open>simp add: comp_def\<close>)
qed

lemma holds_list_fold_Insert:
  "holds_list s A \<Longrightarrow> cache s = [] \<Longrightarrow> \<forall>n \<in> keys pc. IsChannelNameValid n True \<Longrightarrow>
   holds_list (fold (\<lambda>(key, val) s. snd (Insert key val s)) pc s) (A @ pc)"
proof (induction pc arbitrary: s A)
  case Nil
  then show ?case by simp
next
  case (Cons x pc)
  obtain n v where x: "x = (n, v)" by fastforce
  have v: "IsChannelNameValid n True" "\<forall>n \<in> keys pc. IsChannelNameValid n True"
    using Cons.prems(3) by (auto simp: x keys_def)
  from Cons.IH [OF holds_list_Insert(1,2) [OF Cons.prems(1,2) v(1)] v(2)] show ?case by (simp add: x)
qed

lemma getChannelLimits_holds:
  assumes "holds_list (gs_sublist gs) pc" "wf_map pc"
  shows "fst (getChannelLimits ev channel gs) =
      (let ms = match_names (map fst pc) channel
       in if ms = [] then ChannelLimits.truncate (gs_limits gs) else the (mget pc (last ms)))"
    and "holds_list (gs_sublist (snd (getChannelLimits ev channel gs))) pc"
    and "gs_limits (snd (getChannelLimits ev channel gs)) = gs_limits gs"
  using holds_list_Match [OF assms(1), of ev channel] listed_matches_names [OF assms(2), of channel]
  by (auto simp: getChannelLimits_def Let_def case_prod_beta last_conv_nth nth_map last_map)

lemma lookups_hold:
  assumes "wf_map pc"
  shows "holds_list (gs_sublist gs) pc \<Longrightarrow>
    holds_list (gs_sublist (fold (\<lambda>c g. snd (getChannelLimits ev c g)) cs gs)) pc \<and>
    gs_limits (fold (\<lambda>c g. snd (getChannelLimits ev c g)) cs gs) = gs_limits gs"
  by (induction cs arbitrary: gs) (simp_all add: getChannelLimits_holds [OF _ assms])


lemma pats_last: "ts \<noteq> [] \<Longrightarrow> \<exists>ps. pats ts = ps @ [map Lit ts]"
proof (induction ts)
  case (Cons t ts)
  show ?case
  proof (cases "ts = []")
    case False
    with Cons.IH obtain ps where "pats ts = ps @ [map Lit ts]" by blast
    with False show ?thesis by (simp add: pats_Cons)
  qed simp
qed simp

lemma match_names_literal_last:
  assumes "\<forall>n \<in> set names. IsChannelNameValid n True" "channel \<in> set names" "IsChannelNameLiteral channel"
  shows "match_names names channel \<noteq> [] \<and> last (match_names names channel) = channel"
proof -
  have valid: "IsChannelNameValid channel True" using assms(1,2) by blast
  have "literal_token t" if "t \<in> set (tokens channel)" for t
    using wild_tokens_all [OF valid [unfolded valid_wild_tokens] that] set_join_tokens [OF that] assms(3)
    by (auto simp: IsChannelNameLiteral_iff join_tokens_tokens)
  then have lit: "pattern channel = map Lit (tokens channel)" by (simp add: pattern_def)
  obtain ps where ps: "pats (tokens channel) = ps @ [map Lit (tokens channel)]" using pats_last [of "tokens channel"] by auto
  define own where "own = filter (\<lambda>n. pattern n = map Lit (tokens channel)) names"
  have "own \<noteq> []" using assms(2) lit by (auto simp: own_def filter_empty_conv)
  moreover have "n = channel" if "n \<in> set own" for n
    using that valid assms(1) by (intro pattern_inject) (auto simp: own_def lit)
  moreover have "map snd (filter (\<lambda>x. pattern (fst x) = map Lit (tokens channel)) (map (\<lambda>n. (n, n)) names)) = own"
    unfolding own_def by (induction names) auto
  ultimately show ?thesis
    unfolding match_names_def listed_matches_def ps by simp
qed


lemma built_wf: "built sl sl' \<Longrightarrow> wf_map (PerChannel sl) \<Longrightarrow> wf_map (PerChannel sl')"
  by (simp add: built_def wf_map_def)

lemma built_keys: "built sl sl' \<Longrightarrow> keys (PerChannel sl') = keys (PerChannel sl)"
  unfolding built_def keys_def by (metis set_map)

lemma built_valid: "built sl sl' \<Longrightarrow> n \<in> keys (PerChannel sl) \<Longrightarrow> IsChannelNameValid n True"
  using mget_None_iff [of "PerChannel sl" n] by (auto simp: built_def)


definition example_limits :: StoreLimits where
  "example_limits = DefaultStoreLimits\<lparr>MaxMsgs := 10, PerChannel :=
     [(''foo.bar'', \<lparr>MaxMsgs = 0, MaxBytes = 7, MaxAge = 0, MaxSubscriptions = 0, MaxInactivity = 0\<rparr>),
      (''foo.>'', \<lparr>MaxMsgs = 5, MaxBytes = 0, MaxAge = 0, MaxSubscriptions = -1, MaxInactivity = 0\<rparr>)]\<rparr>"


abbreviation ev_first :: "(string, 'a) gomap \<Rightarrow> string" where
  "ev_first \<equiv> \<lambda>c. fst (hd c)"

lemma example_Build:
  "Build ev_first rev example_limits = Some (Inr (example_limits\<lparr>PerChannel :=
     [(''foo.bar'', \<lparr>MaxMsgs = 5, MaxBytes = 7, MaxAge = 0, MaxSubscriptions = 0, MaxInactivity = 0\<rparr>),
      (''foo.>'', \<lparr>MaxMsgs = 5, MaxBytes = 1024000000, MaxAge = 0, MaxSubscriptions = 0, MaxInactivity = 0\<rparr>)]\<rparr>))"
  by code_simp

lemma example_wf: "wf_map (PerChannel example_limits)"
  by (simp add: example_limits_def wf_map_def)

definition example_store :: "unit genericStore" where
  "example_store = snd (the (gs_init ev_first rev (Some example_limits)))"

lemma example_setLimits:
  "setLimits ev_first rev example_limits
     \<lparr>gs_limits = DefaultStoreLimits, gs_sublist = NewSublist, gs_channels = [], gs_closed = False\<rparr> =
   Some (None, example_store)"
  by (simp add: example_store_def gs_init_def setLimits_def example_Build Let_def)

lemma example_match_names:
  "match_names (map fst (PerChannel example_limits)) ''foo.baz'' = [''foo.>'']"
  by code_simp

lemma example_names:
  "''foo.bar'' \<in> set (map fst (PerChannel example_limits))" "IsChannelNameLiteral ''foo.bar''"
  by code_simp+

section \<open>Properties\<close>

text \<open>C19: For any map of per-channel limits, \<open>Build\<close> does not panic; when it returns no error the
  global limits and the configured names are unchanged, every name is valid, and the limits of a
  name are its own, with zero fields inherited and negative fields made unlimited, where the
  parent is the name that precedes it in the list of the configured names that match it (widest first), or the
  global limits when it is the first.\<close>

theorem Build_inherits:
  assumes "wf_map (PerChannel sl)" "perm_ok perm"
  shows "\<exists>res. Build evict perm sl = Some res \<and> (\<forall>sl'. res = Inr sl' \<longrightarrow> built sl sl')"
  using Build_cases [OF assms] by blast

theorem Build_inherits_witness:
  "\<exists>sl'. Build ev_first rev example_limits = Some (Inr sl') \<and> built example_limits sl' \<and>
     MaxMsgs (the (mget (PerChannel sl') ''foo.bar'')) = 5"
  using Build_inherits [OF example_wf perm_rev, of ev_first] by (auto simp: example_Build)



text \<open>C20: After \<open>setLimits\<close>, and whatever lookups came before, the limits of a channel are those
  \<open>Build\<close> gave to the last of the configured names that match it, its own when the literal name
  is configured, and the global limits when no name matches.\<close>

theorem channel_limits_narrowest:
  assumes "wf_map (PerChannel limits)" "perm_ok perm" "setLimits evict perm limits gs = Some (None, gs')"
    and "gs'' = fold (\<lambda>c g. snd (getChannelLimits ev c g)) cs gs'"
    and "names = map fst (PerChannel limits)"
  shows "\<exists>sl'. Build evict perm limits = Some (Inr sl') \<and>
    fst (getChannelLimits ev channel gs'') =
      (let ms = match_names names channel
       in if ms = [] then ChannelLimits.truncate limits else the (mget (PerChannel sl') (last ms))) \<and>
    (channel \<in> set names \<and> IsChannelNameLiteral channel \<longrightarrow>
       fst (getChannelLimits ev channel gs'') = the (mget (PerChannel sl') channel))"
proof -
  from assms(3) obtain sl' where b: "Build evict perm limits = Some (Inr sl')"
    and g: "gs_limits gs' = sl'\<lparr>PerChannel := []\<rparr>"
      "gs_sublist gs' = fold (\<lambda>(key, val) s. snd (Insert key val s)) (PerChannel sl') NewSublist"
    by (auto simp: setLimits_def Let_def split: option.splits sum.splits)
  have bl: "built limits sl'" using Build_cases [OF assms(1,2), of evict] b by auto
  have v: "\<forall>n \<in> keys (PerChannel limits). IsChannelNameValid n True" using built_valid [OF bl] by blast
  have wf: "wf_map (PerChannel sl')" using built_wf [OF bl assms(1)] .
  have fst: "map fst (PerChannel sl') = names" and tr: "ChannelLimits.truncate sl' = ChannelLimits.truncate limits"
    using bl assms(5) by (simp_all add: built_def)
  have "holds_list (gs_sublist gs') (PerChannel sl')"
    using holds_list_fold_Insert [OF holds_list_New, of "PerChannel sl'"] built_keys [OF bl] v g(2)
    by (simp add: NewSublist_def)
  then have h: "holds_list (gs_sublist gs'') (PerChannel sl')" "gs_limits gs'' = gs_limits gs'"
    using lookups_hold [OF wf, of gs' ev cs] assms(4) by simp_all
  have eq: "fst (getChannelLimits ev channel gs'') =
      (let ms = match_names names channel
       in if ms = [] then ChannelLimits.truncate limits else the (mget (PerChannel sl') (last ms)))"
    using getChannelLimits_holds(1) [OF h(1) wf, of ev channel] g(1) h(2) fst tr by (simp add: Let_def)
  have "match_names names channel \<noteq> [] \<and> last (match_names names channel) = channel"
    if "channel \<in> set names" "IsChannelNameLiteral channel"
    using match_names_literal_last [OF _ that] v assms(5) by (simp add: keys_def)
  with b eq show ?thesis by (auto simp: Let_def)
qed


theorem channel_limits_narrowest_witness:
  "MaxMsgs (fst (getChannelLimits ev_first ''foo.baz'' example_store)) = 5 \<and>
   MaxBytes (fst (getChannelLimits ev_first ''foo.bar'' example_store)) = 7"
proof -
  note c = channel_limits_narrowest [OF example_wf perm_rev example_setLimits, of example_store ev_first "[]"]
  from c [of _ "''foo.baz''", OF _ refl] have
    "MaxMsgs (fst (getChannelLimits ev_first ''foo.baz'' example_store)) = 5"
    by (simp add: example_match_names example_Build)
  moreover from c [of _ "''foo.bar''", OF _ refl] have
    "MaxBytes (fst (getChannelLimits ev_first ''foo.bar'' example_store)) = 7"
    by (auto simp: example_Build example_names simp del: set_map)
  ultimately show ?thesis ..
qed

section \<open>The number of channels\<close>

datatype store_op = CreateOp string | DeleteOp string

fun store_step ::
  "(mem_channel \<Rightarrow> 'c) \<Rightarrow> ('c \<Rightarrow> bool \<times> 'c) \<Rightarrow> ((string, ChannelLimits list) gomap \<Rightarrow> string) \<Rightarrow> store_op \<Rightarrow>
   'c genericStore \<Rightarrow> 'c genericStore" where
  "store_step entry cl ev (CreateOp n) gs = snd (mem_CreateChannel entry ev n gs)"
| "store_step entry cl ev (DeleteOp n) gs = snd (deleteChannel cl n gs)"

definition channels_ok :: "'c genericStore \<Rightarrow> bool" where
  "channels_ok gs \<longleftrightarrow> wf_map (gs_channels gs) \<and>
     (MaxChannels (gs_limits gs) > 0 \<longrightarrow> int (length (gs_channels gs)) \<le> MaxChannels (gs_limits gs))"

lemma getChannelLimits_frame [simp]:
  "gs_channels (snd (getChannelLimits ev n gs)) = gs_channels gs"
  "gs_limits (snd (getChannelLimits ev n gs)) = gs_limits gs"
  by (simp_all add: getChannelLimits_def Let_def case_prod_beta)

lemma mem_CreateChannel_ok:
  assumes "channels_ok gs"
  shows "channels_ok (snd (mem_CreateChannel entry ev n gs))"
    and "gs_limits (snd (mem_CreateChannel entry ev n gs)) = gs_limits gs"
  using assms mget_None_iff [of "gs_channels gs" n]
  by (auto simp: mem_CreateChannel_def channels_ok_def canAddChannel_def Let_def case_prod_beta length_mput
      split: option.splits if_splits)

lemma length_mdel_le: "length (mdel k m) \<le> length m"
  by (simp add: AList.delete_eq)

lemma deleteChannel_ok:
  assumes "channels_ok gs"
  shows "channels_ok (snd (deleteChannel cl n gs))" "gs_limits (snd (deleteChannel cl n gs)) = gs_limits gs"
  using assms mget_None_iff [of "gs_channels gs" n] length_mdel_le [of n "gs_channels gs"]
  by (auto simp: deleteChannel_def channels_ok_def Let_def case_prod_beta length_mput split: option.splits)


lemma store_run_ok:
  "channels_ok gs \<Longrightarrow> channels_ok (fold (store_step entry cl ev) ops gs) \<and>
     gs_limits (fold (store_step entry cl ev) ops gs) = gs_limits gs"
proof (induction ops arbitrary: gs)
  case (Cons op ops)
  have "channels_ok (store_step entry cl ev op gs) \<and> gs_limits (store_step entry cl ev op gs) = gs_limits gs"
    by (cases op) (use Cons.prems in \<open>simp_all add: mem_CreateChannel_ok deleteChannel_ok\<close>)
  with Cons.IH [of "store_step entry cl ev op gs"] show ?case by simp
qed simp

lemma setLimits_channels:
  "setLimits evict perm limits gs = Some (None, gs') \<Longrightarrow> wf_map (PerChannel limits) \<Longrightarrow> perm_ok perm \<Longrightarrow>
   gs_channels gs' = gs_channels gs \<and> MaxChannels (gs_limits gs') = MaxChannels limits"
  using Build_cases [of limits perm evict]
  by (auto simp: setLimits_def Let_def built_def split: option.splits sum.splits)

text \<open>C21: From the initial store, any sequence of channel creations and deletions keeps the channel
  names distinct and their number within \<open>MaxChannels\<close>; at the limit a new channel is refused and
  the store is unchanged.\<close>

theorem channels_bounded:
  assumes "wf_map (PerChannel limits)" "perm_ok perm" "gs_init evict perm (Some limits) = Some (None, gs)"
    and "gs' = fold (store_step entry cl ev) ops gs" "MaxChannels limits > 0"
  shows "distinct (map fst (gs_channels gs')) \<and> int (length (gs_channels gs')) \<le> MaxChannels limits \<and>
    (int (length (gs_channels gs')) = MaxChannels limits \<longrightarrow> n \<notin> keys (gs_channels gs') \<longrightarrow>
       mem_CreateChannel entry ev n gs' = (Inl ErrTooManyChannels, gs'))"
proof -
  have g: "gs_channels gs = []" "MaxChannels (gs_limits gs) = MaxChannels limits"
    using setLimits_channels [OF assms(3) [unfolded gs_init_def option.case] assms(1,2)] by simp_all
  then have "channels_ok gs" using assms(5) by (simp add: channels_ok_def wf_map_def)
  then have "channels_ok gs'" "MaxChannels (gs_limits gs') = MaxChannels limits"
    using store_run_ok [of gs entry cl ev ops] assms(4) g(2) by simp_all
  then show ?thesis using assms(5) mget_None_iff [of "gs_channels gs'" n]
    by (auto simp: channels_ok_def wf_map_def mem_CreateChannel_def canAddChannel_def)
qed

theorem channels_bounded_witness:
  "length (gs_channels (fold (store_step (\<lambda>_. ()) (\<lambda>c. (True, c)) ev_first)
     [CreateOp ''a'', CreateOp ''b'', CreateOp ''a'', DeleteOp ''b'', CreateOp ''c''] example_store)) \<le> 100"
proof -
  have "gs_init ev_first rev (Some example_limits) = Some (None, example_store)"
    using example_setLimits by (simp add: gs_init_def)
  moreover have "MaxChannels example_limits = 100" by (simp add: example_limits_def DefaultStoreLimits_def)
  ultimately show ?thesis
    using channels_bounded [OF example_wf perm_rev _ refl, of ev_first example_store "\<lambda>_. ()" "\<lambda>c. (True, c)" ev_first
      "[CreateOp ''a'', CreateOp ''b'', CreateOp ''a'', DeleteOp ''b'', CreateOp ''c'']"]
    by (simp del: fold_simps)
qed

end
