(* ===== verification/Server_State.thy ===== *)
theory Server_State
  imports Msg_Store Sub_Store
begin

text \<open>
  The state of a channel in the server: \<open>subState\<close>, \<open>queueState\<close>, \<open>subStore\<close>,
  \<open>subSentAndAck\<close> and \<open>channel\<close> of \<open>server/server.go\<close>, with the small functions on them.

  Subscriptions and queue groups are shared through pointers, so they live in two heaps of the
  channel indexed by references. Locks are left out: a definition is one critical section, and
  handlers are sequences of them. What a handler gets from outside is the record \<open>env\<close>: the
  clock, whether a publication, a store operation or a message lookup succeeds, and the role of the
  server. \<open>c_next\<close> and \<open>c_qnext\<close> are the next unused references. Publications are appended to \<open>c_out\<close>, successful calls of the subscription store to
  \<open>c_slog\<close>. A timer is the duration it was last set to.
\<close>

section \<open>State\<close>

type_synonym sref = nat
type_synonym qref = nat

record subSentAndAck =
  r_sent :: "u64 list"
  r_ack :: "u64 list"
  r_hiSentSeq :: u64
  r_hiAckSeq :: u64
  r_applying :: bool
  r_stopped :: bool

record subState = spbSubState +
  sub_subject :: string
  qstate :: "qref option"
  ackWait :: int
  ackTimer :: "int option"
  ackSub :: bool
  acksPending :: "(u64, int) gomap"
  savedClientID :: string
  sub_replicate :: "subSentAndAck option"
  rdlvCount :: "(u64, u32) gomap"
  initialized :: bool
  stalled :: bool
  newOnHold :: bool
  hasFailedHB :: bool

record queueState =
  q_lastSent :: u64
  q_subs :: "sref list"
  q_rdlvCount :: "(u64, u32) gomap"
  q_shadow :: "sref option"
  q_stalledSubCount :: int
  q_newOnHold :: bool

datatype sub_rec =
    RecNew spbSubState
  | RecUpdate spbSubState
  | RecDelete u64
  | RecMsg u64 u64
  | RecAck u64 u64

record channelActivity =
  a_last :: int
  a_maxInactivity :: int
  a_timer :: "int option"
  a_deleteInProgress :: bool
  a_preventDelete :: bool
  a_timerSet :: bool

record chan =
  c_name :: string
  c_id :: u64
  c_firstSeq :: u64
  c_nextSequence :: u64
  c_lTimestamp :: int
  c_nextSubID :: u64
  c_lSeqChecked :: bool
  c_activity :: "channelActivity option"
  c_msgs :: msg_store
  c_substore :: sub_store
  c_heap :: "sref \<Rightarrow> subState"
  c_qheap :: "qref \<Rightarrow> queueState"
  c_next :: sref
  c_qnext :: qref
  psubs :: "sref list"
  qsubs :: "(string, qref) gomap"
  durables :: "(string, sref) gomap"
  acks :: "(string, sref) gomap"
  inboxes :: "(string, sref) gomap"
  waiting :: "sref list"
  ready :: "sref list"
  c_slog :: "sub_rec list"
  c_out :: "(string \<times> MsgProto) list"

record env =
  e_now :: int
  e_clustered :: bool
  e_leader :: bool
  e_publish :: "string \<Rightarrow> MsgProto \<Rightarrow> bool"
  e_addPending :: "u64 \<Rightarrow> u64 \<Rightarrow> bool"
  e_ackPending :: "u64 \<Rightarrow> u64 \<Rightarrow> bool"
  e_lookup :: "u64 \<Rightarrow> bool"
  e_createSub :: bool
  e_updateSub :: "u64 \<Rightarrow> bool"
  e_deleteSub :: "u64 \<Rightarrow> bool"
  e_flush :: bool
  e_startAckSub :: bool

section \<open>Access\<close>

abbreviation sub_at :: "chan \<Rightarrow> sref \<Rightarrow> subState" where
  "sub_at c r \<equiv> c_heap c r"

abbreviation queue_at :: "chan \<Rightarrow> qref \<Rightarrow> queueState" where
  "queue_at c q \<equiv> c_qheap c q"

definition upd_sub :: "sref \<Rightarrow> (subState \<Rightarrow> subState) \<Rightarrow> chan \<Rightarrow> chan" where
  "upd_sub r f c = c\<lparr>c_heap := (c_heap c)(r := f (c_heap c r))\<rparr>"

definition upd_queue :: "qref \<Rightarrow> (queueState \<Rightarrow> queueState) \<Rightarrow> chan \<Rightarrow> chan" where
  "upd_queue q f c = c\<lparr>c_qheap := (c_qheap c)(q := f (c_qheap c q))\<rparr>"

definition log_rec :: "sub_rec \<Rightarrow> chan \<Rightarrow> chan" where
  "log_rec x c = c\<lparr>c_slog := c_slog c @ [x]\<rparr>"

definition isStandaloneOrLeader :: "env \<Rightarrow> bool" where
  "isStandaloneOrLeader e \<longleftrightarrow> \<not> e_clustered e \<or> e_leader e"

lemma upd_sub_sel [simp]:
  "c_heap (upd_sub r f c) = (c_heap c)(r := f (c_heap c r))"
  "c_qheap (upd_sub r f c) = c_qheap c"
  "c_msgs (upd_sub r f c) = c_msgs c"
  "psubs (upd_sub r f c) = psubs c"
  "qsubs (upd_sub r f c) = qsubs c"
  "durables (upd_sub r f c) = durables c"
  "acks (upd_sub r f c) = acks c"
  "inboxes (upd_sub r f c) = inboxes c"
  "waiting (upd_sub r f c) = waiting c"
  "ready (upd_sub r f c) = ready c"
  "c_slog (upd_sub r f c) = c_slog c"
  "c_out (upd_sub r f c) = c_out c"
  "c_name (upd_sub r f c) = c_name c"
  "c_next (upd_sub r f c) = c_next c"
  "c_qnext (upd_sub r f c) = c_qnext c"
  "c_substore (upd_sub r f c) = c_substore c"
  "c_nextSubID (upd_sub r f c) = c_nextSubID c"
  "c_activity (upd_sub r f c) = c_activity c"
  by (simp_all add: upd_sub_def)

lemma upd_queue_sel [simp]:
  "c_heap (upd_queue q g c) = c_heap c"
  "c_qheap (upd_queue q g c) = (c_qheap c)(q := g (c_qheap c q))"
  "c_msgs (upd_queue q g c) = c_msgs c"
  "psubs (upd_queue q g c) = psubs c"
  "qsubs (upd_queue q g c) = qsubs c"
  "durables (upd_queue q g c) = durables c"
  "acks (upd_queue q g c) = acks c"
  "inboxes (upd_queue q g c) = inboxes c"
  "waiting (upd_queue q g c) = waiting c"
  "ready (upd_queue q g c) = ready c"
  "c_slog (upd_queue q g c) = c_slog c"
  "c_out (upd_queue q g c) = c_out c"
  "c_name (upd_queue q g c) = c_name c"
  "c_next (upd_queue q g c) = c_next c"
  "c_qnext (upd_queue q g c) = c_qnext c"
  "c_substore (upd_queue q g c) = c_substore c"
  "c_nextSubID (upd_queue q g c) = c_nextSubID c"
  "c_activity (upd_queue q g c) = c_activity c"
  by (simp_all add: upd_queue_def)

lemma log_rec_sel [simp]:
  "c_heap (log_rec x c) = c_heap c"
  "c_qheap (log_rec x c) = c_qheap c"
  "c_msgs (log_rec x c) = c_msgs c"
  "psubs (log_rec x c) = psubs c"
  "qsubs (log_rec x c) = qsubs c"
  "durables (log_rec x c) = durables c"
  "acks (log_rec x c) = acks c"
  "inboxes (log_rec x c) = inboxes c"
  "waiting (log_rec x c) = waiting c"
  "ready (log_rec x c) = ready c"
  "c_slog (log_rec x c) = c_slog c @ [x]"
  "c_out (log_rec x c) = c_out c"
  "c_name (log_rec x c) = c_name c"
  "c_next (log_rec x c) = c_next c"
  "c_qnext (log_rec x c) = c_qnext c"
  "c_substore (log_rec x c) = c_substore c"
  "c_nextSubID (log_rec x c) = c_nextSubID c"
  "c_activity (log_rec x c) = c_activity c"
  by (simp_all add: log_rec_def)

section \<open>Small functions of a subscription\<close>

definition isQueueSubscriber :: "('a spbSubState_scheme) \<Rightarrow> bool" where
  "isQueueSubscriber sub \<longleftrightarrow> QGroup sub \<noteq> []"

definition isQueueDurableSubscriber :: "('a spbSubState_scheme) \<Rightarrow> bool" where
  "isQueueDurableSubscriber sub \<longleftrightarrow> QGroup sub \<noteq> [] \<and> IsDurable sub"

definition isShadowQueueDurable :: "('a spbSubState_scheme) \<Rightarrow> bool" where
  "isShadowQueueDurable sub \<longleftrightarrow> IsDurable sub \<and> QGroup sub \<noteq> [] \<and> ClientID sub = []"

definition isDurableSubscriber :: "('a spbSubState_scheme) \<Rightarrow> bool" where
  "isDurableSubscriber sub \<longleftrightarrow> DurableName sub \<noteq> []"

definition isOfflineDurableSubscriber :: "('a spbSubState_scheme) \<Rightarrow> bool" where
  "isOfflineDurableSubscriber sub \<longleftrightarrow> DurableName sub \<noteq> [] \<and> ClientID sub = []"

definition sub_durableKey :: "subState \<Rightarrow> string" where
  "sub_durableKey sub =
     (if DurableName sub = [] then []
      else ClientID sub @ ''-'' @ sub_subject sub @ ''-'' @ DurableName sub)"

definition nanosecond_of_second :: int where
  "nanosecond_of_second = 1000000000"

text \<open>\<open>computeAckWait\<close> outside of test mode.\<close>

definition computeAckWait :: "int \<Rightarrow> int" where
  "computeAckWait wait = wait * nanosecond_of_second"

definition clearAckTimer :: "subState \<Rightarrow> subState" where
  "clearAckTimer sub = (if ackTimer sub \<noteq> None then sub\<lparr>ackTimer := None\<rparr> else sub)"

definition setupAckTimer :: "int \<Rightarrow> subState \<Rightarrow> subState" where
  "setupAckTimer d sub = sub\<lparr>ackTimer := Some d\<rparr>"

definition stopAckSub :: "subState \<Rightarrow> subState" where
  "stopAckSub sub = (if ackSub sub then sub\<lparr>ackSub := False\<rparr> else sub)"

definition isMsgStillPending :: "subState \<Rightarrow> MsgProto \<Rightarrow> bool" where
  "isMsgStillPending sub m \<longleftrightarrow> Sequence m \<in> keys (acksPending sub)"

definition adjustAckTimer :: "int \<Rightarrow> int \<Rightarrow> subState \<Rightarrow> subState" where
  "adjustAckTimer now nextExpirationTime sub =
     (if ackTimer sub = None then sub
      else if length (acksPending sub) > 0
      then (if nextExpirationTime \<le> now then sub\<lparr>ackTimer := Some (ackWait sub)\<rparr>
            else sub\<lparr>ackTimer := Some (i64 (nextExpirationTime - now))\<rparr>)
      else clearAckTimer sub)"

section \<open>Sorting of the pending messages\<close>

text \<open>
  The insertion sort of \<open>sort.Sort\<close>: an element moves left while it is less than its left
  neighbour. The sorted prefix is kept reversed.
\<close>

fun ins_right :: "('a \<Rightarrow> 'a \<Rightarrow> bool) \<Rightarrow> 'a \<Rightarrow> 'a list \<Rightarrow> 'a list" where
  "ins_right lt x [] = [x]"
| "ins_right lt x (y # ys) = (if lt x y then y # ins_right lt x ys else x # y # ys)"

definition sort_Sort :: "('a \<Rightarrow> 'a \<Rightarrow> bool) \<Rightarrow> 'a list \<Rightarrow> 'a list" where
  "sort_Sort lt xs = rev (fold (ins_right lt) xs [])"

definition makeSortedSequences :: "subState \<Rightarrow> u64 list" where
  "makeSortedSequences sub = sort_Sort (<) (map fst (acksPending sub))"

text \<open>A \<open>pendingMsg\<close> is a pair of a sequence and an expiration time.\<close>

fun byExpire_less :: "u64 \<times> int \<Rightarrow> u64 \<times> int \<Rightarrow> bool" where
  "byExpire_less (s1, e1) (s2, e2) =
     (if e1 = 0 \<or> e2 = 0 \<or> e1 = e2 then s1 < s2 else e1 < e2)"

definition makeSortedPendingMsgs :: "subState \<Rightarrow> (u64 \<times> int) list" where
  "makeSortedPendingMsgs sub = sort_Sort byExpire_less (acksPending sub)"

lemma mset_ins_right [simp]: "mset (ins_right lt x xs) = add_mset x (mset xs)"
  by (induction xs) auto

lemma set_ins_right [simp]: "set (ins_right lt x xs) = insert x (set xs)"
  by (induction xs) auto

lemma mset_sort_Sort [simp]: "mset (sort_Sort lt xs) = mset xs"
proof -
  have "mset (fold (ins_right lt) xs ys) = mset xs + mset ys" for ys
    by (induction xs arbitrary: ys) auto
  from this [of "[]"] show ?thesis by (simp add: sort_Sort_def)
qed

lemma set_sort_Sort [simp]: "set (sort_Sort lt xs) = set xs"
  by (metis mset_sort_Sort set_mset_mset)

lemma distinct_sort_Sort [simp]: "distinct (sort_Sort lt xs) = distinct xs"
  by (metis mset_sort_Sort mset_eq_imp_distinct_iff)

lemma length_sort_Sort [simp]: "length (sort_Sort lt xs) = length xs"
  by (metis mset_sort_Sort size_mset)

lemma sort_Sort_linorder: "sort_Sort (<) (xs :: 'a::linorder list) = sort xs"
proof -
  have ins: "sorted (rev ys) \<Longrightarrow> sorted (rev (ins_right (<) x ys))" for x :: 'a and ys
    by (induction ys) (auto simp: sorted_append)
  have "sorted (rev ys) \<Longrightarrow> sorted (rev (fold (ins_right (<)) xs ys))" for ys :: "'a list"
    by (induction xs arbitrary: ys) (auto intro: ins)
  from this [of "[]"] have "sorted (sort_Sort (<) xs)" by (simp add: sort_Sort_def)
  then show ?thesis by (intro properties_for_sort [symmetric]) auto
qed

end
