(* ===== verification/Delivery.thy ===== *)
theory Delivery
  imports Server_State
begin

text \<open>
  Delivery, acknowledgement and redelivery of messages (\<open>server/server.go\<close>). The loops that send
  available messages run on fuel, one unit per stored message and one to see the end: every
  iteration but the last sends a message of the store with a higher sequence. The publication of
  a message stands for its encoding and \<open>Publish\<close>; an encoded message is never empty because its
  sequence is not 0.
\<close>

section \<open>Collecting events for replication\<close>

definition maxSentOrAckSequences :: nat where
  "maxSentOrAckSequences = 100"

definition empty_repl :: subSentAndAck where
  "empty_repl = \<lparr>r_sent = [], r_ack = [], r_hiSentSeq = 0, r_hiAckSeq = 0, r_applying = False, r_stopped = False\<rparr>"

definition collect :: "bool \<Rightarrow> bool \<Rightarrow> u64 \<Rightarrow> subSentAndAck \<Rightarrow> subSentAndAck" where
  "collect is_queue sent sequence r =
     (if sent then
        let r1 = r\<lparr>r_sent := List.insert sequence (r_sent r)\<rparr>;
            r2 = (if is_queue then r1\<lparr>r_ack := removeAll sequence (r_ack r1)\<rparr> else r1)
        in if sequence \<ge> r_hiSentSeq r2 then r2\<lparr>r_hiSentSeq := sequence, r_hiAckSeq := 0\<rparr> else r2
      else if sequence \<in> set (r_sent r) then
        let r1 = r\<lparr>r_sent := removeAll sequence (r_sent r)\<rparr>
        in if sequence = r_hiSentSeq r1 then r1\<lparr>r_hiAckSeq := sequence\<rparr> else r1
      else r\<lparr>r_ack := List.insert sequence (r_ack r)\<rparr>)"

definition collectSentOrAck :: "sref \<Rightarrow> bool \<Rightarrow> u64 \<Rightarrow> chan \<Rightarrow> chan" where
  "collectSentOrAck r sent sequence c =
     (let sub = sub_at c r;
          x = (case sub_replicate sub of None \<Rightarrow> empty_repl | Some x \<Rightarrow> x)
      in if r_stopped x then c
         else
           let x' = collect (qstate sub \<noteq> None) sent sequence x;
               c1 = upd_sub r (\<lambda>s. s\<lparr>sub_replicate := Some x'\<rparr>) c;
               l = length (r_sent x') + length (r_ack x')
           in if l = 1 then c1\<lparr>waiting := List.insert r (waiting c1)\<rparr>
              else if l = maxSentOrAckSequences
              then c1\<lparr>waiting := removeAll r (waiting c1), ready := List.insert r (ready c1)\<rparr>
              else c1)"

section \<open>Sending one message\<close>

function bump_count :: "u32 \<Rightarrow> u32" where
  "bump_count n = (let n' = n + 1 in if n' \<noteq> 0 then n' else bump_count n')"
  by pat_completeness auto
termination
  by (relation "measure (\<lambda>n. if n = - 1 then 1 else 0)") (auto simp: add_eq_0_iff2)

declare bump_count.simps [simp del]

definition old_count :: "(u64, u32) gomap \<Rightarrow> u64 \<Rightarrow> u32" where
  "old_count m seq = (case mget m seq of None \<Rightarrow> 0 | Some n \<Rightarrow> n)"

definition updateRedeliveryCount :: "sref \<Rightarrow> MsgProto \<Rightarrow> chan \<Rightarrow> MsgProto \<times> chan" where
  "updateRedeliveryCount r m c =
     (case qstate (sub_at c r) of
        Some q \<Rightarrow>
          let n = bump_count (old_count (q_rdlvCount (queue_at c q)) (Sequence m))
          in (m\<lparr>RedeliveryCount := n\<rparr>,
              upd_queue q (\<lambda>qs. qs\<lparr>q_rdlvCount := mput (Sequence m) n (q_rdlvCount qs)\<rparr>) c)
      | None \<Rightarrow>
          let n = bump_count (old_count (rdlvCount (sub_at c r)) (Sequence m))
          in (m\<lparr>RedeliveryCount := n\<rparr>,
              upd_sub r (\<lambda>s. s\<lparr>rdlvCount := mput (Sequence m) n (rdlvCount s)\<rparr>) c))"

definition set_pending :: "u64 \<Rightarrow> int \<Rightarrow> subState \<Rightarrow> subState" where
  "set_pending seq t s = s\<lparr>acksPending := mput seq t (acksPending s)\<rparr>"

definition del_pending :: "u64 \<Rightarrow> subState \<Rightarrow> subState" where
  "del_pending seq s = s\<lparr>acksPending := mdel seq (acksPending s)\<rparr>"

definition bump_lastSent :: "u64 \<Rightarrow> subState \<Rightarrow> subState" where
  "bump_lastSent seq s = (if seq > LastSent s then s\<lparr>LastSent := seq\<rparr> else s)"

text \<open>The end of \<open>sendMsgToSub\<close>, after the publication: a message that is already pending only gets a new
  expiration time; \<open>ap\<close> is the number of pending messages on entry.\<close>

definition add_pending :: "env \<Rightarrow> sref \<Rightarrow> u64 \<Rightarrow> bool \<Rightarrow> int \<Rightarrow> chan \<Rightarrow> (bool \<times> bool) \<times> chan" where
  "add_pending e r seq force ap c =
     (let sub = sub_at c r in
      case mget (acksPending sub) seq of
        Some expTime \<Rightarrow>
          let t = (if expTime = 0 then e_now e else expTime)
          in ((True, True), upd_sub r (set_pending seq (i64 (t + ackWait sub))) c)
      | None \<Rightarrow>
          let c1 = (if e_clustered e then collectSentOrAck r True seq c else c)
          in if \<not> e_addPending e (ID sub) seq then ((False, False), c1)
             else
               let c2 = log_rec (RecMsg (ID sub) seq) c1;
                   c3 = upd_sub r (set_pending seq (i64 (e_now e + ackWait sub)) \<circ> bump_lastSent seq) c2
               in if \<not> force \<and> i32 (ap + 1) = MaxInFlight sub
                  then ((True, False), upd_sub r (\<lambda>s. s\<lparr>stalled := True\<rparr>) c3)
                  else ((True, True), c3))"

definition cannot_send :: "subState \<Rightarrow> MsgProto \<Rightarrow> bool" where
  "cannot_send sub m \<longleftrightarrow> \<not> initialized sub \<or> ClientID sub = [] \<or> (newOnHold sub \<and> \<not> Redelivered m)"

definition publish :: "sref \<Rightarrow> MsgProto \<Rightarrow> chan \<Rightarrow> chan" where
  "publish r m c =
     (let c1 = c\<lparr>c_out := c_out c @ [(Inbox (sub_at c r), m)]\<rparr>
      in if ackTimer (sub_at c r) = None then upd_sub r (setupAckTimer (ackWait (sub_at c r))) c1 else c1)"

definition sendMsgToSub :: "env \<Rightarrow> sref \<Rightarrow> MsgProto \<Rightarrow> bool \<Rightarrow> chan \<Rightarrow> (bool \<times> bool) \<times> chan" where
  "sendMsgToSub e r m force c =
     (let sub = sub_at c r; ap = i32 (int (length (acksPending sub))) in
      if cannot_send sub m then ((False, False), c)
      else if \<not> force \<and> ap \<ge> MaxInFlight sub
      then ((False, False), upd_sub r (\<lambda>s. s\<lparr>stalled := True\<rparr>) c)
      else
        let (m', c1) = (if Redelivered m then updateRedeliveryCount r m c else (m, c)) in
        if \<not> e_publish e (Inbox sub) m' then ((False, False), c1)
        else add_pending e r (Sequence m) force ap (publish r m' c1))"

section \<open>Sending available messages\<close>

text \<open>
  \<open>getNextMsg\<close>: \<open>later\<close> is \<open>i > 0\<close>. The two pointer arguments are passed and returned.
\<close>

function getNextMsg ::
  "env \<Rightarrow> msg_store \<Rightarrow> bool \<Rightarrow> u64 \<Rightarrow> u64 \<Rightarrow> MsgProto option \<times> u64 \<times> u64" where
  "getNextMsg e ms later nextSeq lastSent =
     (if \<not> e_lookup e nextSeq then (None, nextSeq, lastSent)
      else case Lookup ms nextSeq of
        Some m \<Rightarrow> (Some m, nextSeq, lastSent)
      | None \<Rightarrow>
          let first = fst (FirstAndLastSequence ms); last = snd (FirstAndLastSequence ms) in
          if nextSeq \<ge> last then (None, nextSeq, lastSent)
          else if nextSeq < first then getNextMsg e ms True first (first - 1)
          else if later then getNextMsg e ms True (nextSeq + 1) (lastSent + 1)
          else getNextMsg e ms True nextSeq lastSent)"
  by pat_completeness auto
termination
proof (relation "measure (\<lambda>(e, ms, later, nextSeq, lastSent).
    2 * (unat (ms_last ms) - unat nextSeq) + (if later then 0 else 1))",
    goal_cases)
  case (2 e ms later nextSeq lastSent x xa)
  then show ?case by (auto simp: FirstAndLastSequence_def word_le_nat_alt word_less_nat_alt)
next
  case (3 e ms later nextSeq lastSent x xa)
  then have "nextSeq < ms_last ms" by (simp add: FirstAndLastSequence_def not_le)
  then have "unat (ms_last ms) - unat (nextSeq + 1) < unat (ms_last ms) - unat nextSeq"
    using seq_less_not_max [of nextSeq "ms_last ms"] by (simp add: unat_seq_Suc word_less_nat_alt)
  with 3 show ?case by simp
next
  case (4 e ms later nextSeq lastSent x xa)
  then show ?case by simp
qed simp

declare getNextMsg.simps [simp del]

fun avail_loop :: "nat \<Rightarrow> env \<Rightarrow> sref \<Rightarrow> u64 \<Rightarrow> chan \<Rightarrow> chan" where
  "avail_loop 0 e r nextSeq c = c"
| "avail_loop (Suc n) e r nextSeq c =
     (if stalled (sub_at c r) then c
      else
        let (mo, nextSeq', lastSent') = getNextMsg e (c_msgs c) False nextSeq (LastSent (sub_at c r));
            c1 = upd_sub r (\<lambda>s. s\<lparr>LastSent := lastSent'\<rparr>) c
        in case mo of
             None \<Rightarrow> c1
           | Some m \<Rightarrow>
               let ((sent, sendMore), c2) = sendMsgToSub e r m False c1
               in if \<not> sent \<or> \<not> sendMore then c2 else avail_loop n e r (nextSeq' + 1) c2)"

definition avail_fuel :: "chan \<Rightarrow> nat" where
  "avail_fuel c = Suc (length (ms_msgs (c_msgs c)))"

definition sendAvailableMessages :: "env \<Rightarrow> sref \<Rightarrow> chan \<Rightarrow> chan" where
  "sendAvailableMessages e r c = avail_loop (avail_fuel c) e r (LastSent (sub_at c r) + 1) c"

section \<open>Queue groups\<close>

fun best_loop :: "chan \<Rightarrow> sref list \<Rightarrow> int \<Rightarrow> sref option \<Rightarrow> sref option" where
  "best_loop c [] least rsub = rsub"
| "best_loop c (r # rs) least rsub =
     (let sub = sub_at c r; sOut = int (length (acksPending sub))
      in if \<not> stalled sub \<and> \<not> hasFailedHB sub \<and> sOut < least
         then best_loop c rs sOut (Some r) else best_loop c rs least rsub)"

definition findBestQueueSub :: "chan \<Rightarrow> sref list \<Rightarrow> sref option \<times> sref list" where
  "findBestQueueSub c sl =
     (let rsub0 = best_loop c sl (2 ^ 63 - 1) None;
          rsub = (if rsub0 = None \<and> length sl > 0 then Some (sl ! 0) else rsub0)
      in if length sl > 1 \<and> rsub = Some (sl ! 0) then (rsub, tl sl @ [sl ! 0]) else (rsub, sl))"

definition sendMsgToQueueGroup ::
  "env \<Rightarrow> qref \<Rightarrow> MsgProto \<Rightarrow> bool \<Rightarrow> chan \<Rightarrow> (sref option \<times> bool) \<times> chan" where
  "sendMsgToQueueGroup e q m force c =
     (let (rsub, sl) = findBestQueueSub c (q_subs (queue_at c q));
          c1 = upd_queue q (\<lambda>qs. qs\<lparr>q_subs := sl\<rparr>) c
      in case rsub of
           None \<Rightarrow> ((None, False), c1)
         | Some r \<Rightarrow>
             let wasStalled = stalled (sub_at c1 r);
                 ((didSend, _), c2) = sendMsgToSub e r m force c1;
                 c3 = (if \<not> force \<and> \<not> wasStalled \<and> stalled (sub_at c2 r)
                       then upd_queue q (\<lambda>qs. qs\<lparr>q_stalledSubCount := q_stalledSubCount qs + 1\<rparr>) c2 else c2);
                 c4 = (if didSend \<and> LastSent (sub_at c3 r) > q_lastSent (queue_at c3 q)
                       then upd_queue q (\<lambda>qs. qs\<lparr>q_lastSent := LastSent (sub_at c3 r)\<rparr>) c3 else c3)
             in ((Some r, didSend), c4))"

fun avail_queue_loop :: "nat \<Rightarrow> env \<Rightarrow> qref \<Rightarrow> u64 \<Rightarrow> chan \<Rightarrow> chan" where
  "avail_queue_loop 0 e q nextSeq c = c"
| "avail_queue_loop (Suc n) e q nextSeq c =
     (if q_stalledSubCount (queue_at c q) < int (length (q_subs (queue_at c q))) then
        let (mo, nextSeq', lastSent') = getNextMsg e (c_msgs c) False nextSeq (q_lastSent (queue_at c q));
            c1 = upd_queue q (\<lambda>qs. qs\<lparr>q_lastSent := lastSent'\<rparr>) c
        in case mo of
             None \<Rightarrow> c1
           | Some m \<Rightarrow>
               let ((_, sent), c2) = sendMsgToQueueGroup e q m False c1
               in if \<not> sent then c2 else avail_queue_loop n e q (nextSeq' + 1) c2
      else c)"

definition sendAvailableMessagesToQueue :: "env \<Rightarrow> qref \<Rightarrow> chan \<Rightarrow> chan" where
  "sendAvailableMessagesToQueue e q c =
     (if length (q_subs (queue_at c q)) = 0 then c
      else if q_newOnHold (queue_at c q) then c
      else avail_queue_loop (avail_fuel c) e q (q_lastSent (queue_at c q) + 1) c)"

definition processMsg :: "env \<Rightarrow> chan \<Rightarrow> chan" where
  "processMsg e c =
     (let c1 = fold (sendAvailableMessages e) (psubs c) c
      in fold (sendAvailableMessagesToQueue e) (map snd (qsubs c)) c1)"

section \<open>Acknowledgements\<close>

fun ack_other_members :: "env \<Rightarrow> qref \<Rightarrow> sref \<Rightarrow> u64 \<Rightarrow> sref list \<Rightarrow> chan \<Rightarrow> chan" where
  "ack_other_members e q r sequence [] c = c"
| "ack_other_members e q r sequence (x # xs) c =
     (if x = r then ack_other_members e q r sequence xs c
      else if sequence \<in> keys (acksPending (sub_at c x)) then
        let c1 = (if e_clustered e then collectSentOrAck x False sequence c else c);
            c2 = upd_sub x (del_pending sequence) c1;
            c3 = (if e_ackPending e (ID (sub_at c x)) sequence
                  then log_rec (RecAck (ID (sub_at c x)) sequence) c2 else c2)
        in upd_queue q (\<lambda>qs. qs\<lparr>q_rdlvCount := mdel sequence (q_rdlvCount qs)\<rparr>) c3
      else ack_other_members e q r sequence xs c)"

definition ack_unstall :: "env \<Rightarrow> sref \<Rightarrow> chan \<Rightarrow> chan" where
  "ack_unstall e r c =
     (let sub = sub_at c r in
      if stalled sub \<and> i32 (int (length (acksPending sub))) < MaxInFlight sub then
        let c1 = upd_sub r (\<lambda>s. s\<lparr>stalled := False\<rparr>) c
        in case qstate sub of
             None \<Rightarrow> sendAvailableMessages e r c1
           | Some q \<Rightarrow>
               let c2 = (if q_stalledSubCount (queue_at c1 q) > 0
                         then upd_queue q (\<lambda>qs. qs\<lparr>q_stalledSubCount := q_stalledSubCount qs - 1\<rparr>) c1
                         else c1)
               in sendAvailableMessagesToQueue e q c2
      else c)"

definition processAck :: "env \<Rightarrow> sref \<Rightarrow> u64 \<Rightarrow> bool \<Rightarrow> chan \<Rightarrow> chan" where
  "processAck e r sequence fromUser c =
     (let sub = sub_at c r in
      if sequence \<in> keys (acksPending sub) then
        let c1 = (if e_clustered e then collectSentOrAck r False sequence c else c)
        in if \<not> e_ackPending e (ID sub) sequence then c1
           else
             let c2 = log_rec (RecAck (ID sub) sequence) c1;
                 c3 = upd_sub r (del_pending sequence) c2;
                 c4 = (if fromUser then
                         (case qstate sub of
                            Some q \<Rightarrow> upd_queue q (\<lambda>qs. qs\<lparr>q_rdlvCount := mdel sequence (q_rdlvCount qs)\<rparr>) c3
                          | None \<Rightarrow> upd_sub r (\<lambda>s. s\<lparr>rdlvCount := mdel sequence (rdlvCount s)\<rparr>) c3)
                       else c3)
             in ack_unstall e r c4
      else
        (case qstate sub of
           Some q \<Rightarrow>
             if fromUser
             then ack_unstall e r (ack_other_members e q r sequence (q_subs (queue_at c q)) c)
             else ack_unstall e r c
         | None \<Rightarrow> ack_unstall e r c))"

definition processAckMsg :: "env \<Rightarrow> string \<Rightarrow> u64 \<Rightarrow> chan \<Rightarrow> chan" where
  "processAckMsg e inbox sequence c =
     (case mget (acks c) inbox of None \<Rightarrow> c | Some r \<Rightarrow> processAck e r sequence True c)"

section \<open>Redelivery\<close>

definition getMsgForRedelivery :: "env \<Rightarrow> sref \<Rightarrow> u64 \<Rightarrow> chan \<Rightarrow> MsgProto option \<times> chan" where
  "getMsgForRedelivery e r seq c =
     (if \<not> e_lookup e seq then (None, c)
      else case Lookup (c_msgs c) seq of
             None \<Rightarrow> (None, processAck e r seq False c)
           | Some m \<Rightarrow> (Some m, c))"

fun durable_loop :: "env \<Rightarrow> sref \<Rightarrow> u64 list \<Rightarrow> chan \<Rightarrow> chan" where
  "durable_loop e r [] c = c"
| "durable_loop e r (seq # seqs) c =
     (case getMsgForRedelivery e r seq c of
        (None, c1) \<Rightarrow> durable_loop e r seqs c1
      | (Some m, c1) \<Rightarrow>
          let m' = m\<lparr>Redelivered := True\<rparr>;
              c2 = (if isMsgStillPending (sub_at c1 r) m' then snd (sendMsgToSub e r m' True c1) else c1)
          in durable_loop e r seqs c2)"

text \<open>\<open>clientKnown\<close> is the result of looking up the client of the subscription.\<close>

definition performDurableRedelivery :: "env \<Rightarrow> bool \<Rightarrow> sref \<Rightarrow> chan \<Rightarrow> chan" where
  "performDurableRedelivery e clientKnown r c =
     (let sub = sub_at c r;
          c1 = (if clientKnown then durable_loop e r (makeSortedSequences sub) c else c)
      in if newOnHold sub then upd_sub r (\<lambda>s. s\<lparr>newOnHold := False\<rparr>) c1 else c1)"

text \<open>
  The loop of \<open>performAckExpirationRedelivery\<close> returns the channel, \<open>foundWithZero\<close> and
  \<open>nextExpirationTime\<close>.
\<close>

fun expiration_loop ::
  "env \<Rightarrow> sref \<Rightarrow> bool \<Rightarrow> int \<Rightarrow> int \<Rightarrow> (u64 \<times> int) list \<Rightarrow> bool \<Rightarrow> chan \<Rightarrow> chan \<times> bool \<times> int" where
  "expiration_loop e r isStartup limit expTime [] foundWithZero c = (c, foundWithZero, 0)"
| "expiration_loop e r isStartup limit expTime ((seq, expire) # pms) foundWithZero c =
     (case getMsgForRedelivery e r seq c of
        (None, c1) \<Rightarrow> expiration_loop e r isStartup limit expTime pms foundWithZero c1
      | (Some m, c1) \<Rightarrow>
          if foundWithZero \<or> expire = 0 then
            let c2 = (if expire = 0 \<and> seq \<in> keys (acksPending (sub_at c1 r))
                      then upd_sub r (set_pending seq (i64 (Timestamp m + expTime))) c1 else c1)
            in expiration_loop e r isStartup limit expTime pms True c2
          else if expire > limit then (c1, foundWithZero, expire)
          else
            let m' = m\<lparr>Redelivered := True\<rparr>;
                pending = isMsgStillPending (sub_at c1 r) m'
            in case (qstate (sub_at c r), isStartup) of
                 (Some q, False) \<Rightarrow>
                   if pending then
                     (let ((pick, sent), c2) = sendMsgToQueueGroup e q m' True c1
                      in case pick of
                           None \<Rightarrow> (c2, foundWithZero, 0)
                         | Some p \<Rightarrow>
                             let c3 = (if p \<noteq> r \<and> sent then processAck e r (Sequence m') False c2 else c2)
                             in expiration_loop e r isStartup limit expTime pms foundWithZero c3)
                   else expiration_loop e r isStartup limit expTime pms foundWithZero c1
               | _ \<Rightarrow>
                   let c2 = (if pending then snd (sendMsgToSub e r m' True c1) else c1)
                   in expiration_loop e r isStartup limit expTime pms foundWithZero c2)"

definition redeliveryLimit :: "env \<Rightarrow> int" where
  "redeliveryLimit e = i64 (e_now e + 15000000)"

text \<open>
  \<open>performAckExpirationRedelivery\<close> of a server that is not shut down, for a subscription of an
  existing channel. It calls itself again after a pass that found a message without expiration
  time; \<open>n\<close> bounds the number of passes.
\<close>

fun performAckExpirationRedelivery :: "nat \<Rightarrow> env \<Rightarrow> sref \<Rightarrow> bool \<Rightarrow> chan \<Rightarrow> chan" where
  "performAckExpirationRedelivery 0 e r isStartup c = c"
| "performAckExpirationRedelivery (Suc n) e r isStartup c =
     (let sub = sub_at c r; sorted = makeSortedPendingMsgs sub in
      if ackTimer sub = None then c
      else if length sorted = 0 then upd_sub r clearAckTimer c
      else if qstate sub = None \<and> hasFailedHB sub
      then (if isStandaloneOrLeader e then upd_sub r (\<lambda>s. s\<lparr>ackTimer := Some (ackWait s)\<rparr>) c else c)
      else
        let (c1, foundWithZero, nextExpirationTime) =
              expiration_loop e r isStartup (redeliveryLimit e) (ackWait sub) sorted False c
        in if foundWithZero then performAckExpirationRedelivery n e r isStartup c1
           else upd_sub r (adjustAckTimer (e_now e) nextExpirationTime) c1)"

end
