(* ===== verification/Client_Store.thy ===== *)
theory Client_Store
  imports Store_Types
begin

text \<open>
  The registry of clients (\<open>server/client.go\<close>). A subscription of a client is the name of its
  channel and its reference there. A client object is identified by its ID: the entry of
  \<open>connIDs\<close> for a connection is the ID of the client. A heartbeat timer is the interval it was last set to. The
  channel on which \<open>isValidWithTimeout\<close> waits is an entry of \<open>waitOnRegister\<close>, and its two
  continuations are two definitions. \<open>stored\<close> is whether the store accepted the operation.
\<close>

section \<open>State\<close>

type_synonym subptr = "string \<times> nat"

record clientInfo =
  ci_ID :: string
  ci_HbInbox :: string
  ci_ConnID :: bytes
  ci_Protocol :: int
  ci_PingInterval :: int
  ci_PingMaxOut :: int

record client =
  cl_info :: clientInfo
  cl_hbt :: "int option"
  cl_fhb :: int
  cl_subs :: "subptr list"

record clientStore =
  cs_clients :: "(string, client) gomap"
  cs_connIDs :: "(bytes, string) gomap"
  cs_waitOnRegister :: "(string, unit) gomap"
  cs_knownInvalid :: "(string, unit) gomap"

datatype client_err = ErrInvalidClient | ErrAddClient | ErrDeleteClient

section \<open>Operations\<close>

definition newClientStore :: clientStore where
  "newClientStore = \<lparr>cs_clients = [], cs_connIDs = [], cs_waitOnRegister = [], cs_knownInvalid = []\<rparr>"

definition getSubsCopy :: "client \<Rightarrow> subptr list" where
  "getSubsCopy c = cl_subs c"

definition getKnownInvalidKey :: "string \<Rightarrow> bytes \<Rightarrow> string" where
  "getKnownInvalidKey i connID = i @ '':'' @ connID"

definition new_client :: "clientInfo \<Rightarrow> client" where
  "new_client info = \<lparr>cl_info = info, cl_hbt = None, cl_fhb = 0, cl_subs = []\<rparr>"

definition register :: "bool \<Rightarrow> clientInfo \<Rightarrow> clientStore \<Rightarrow> (client_err + client) \<times> clientStore" where
  "register stored info cs =
     (if mget (cs_clients cs) (ci_ID info) \<noteq> None then (Inl ErrInvalidClient, cs)
      else if \<not> stored then (Inl ErrAddClient, cs)
      else
        let c = new_client info;
            cs1 = cs\<lparr>cs_clients := mput (ci_ID info) c (cs_clients cs)\<rparr>;
            cs2 = (if length (ci_ConnID info) > 0
                   then cs1\<lparr>cs_connIDs := mput (ci_ConnID info) (ci_ID info) (cs_connIDs cs1)\<rparr> else cs1);
            cs3 = cs2\<lparr>cs_knownInvalid := mdel (getKnownInvalidKey (ci_ID info) (ci_ConnID info)) (cs_knownInvalid cs2)\<rparr>
        in (Inr c, cs3\<lparr>cs_waitOnRegister := mdel (ci_ID info) (cs_waitOnRegister cs3)\<rparr>))"

definition unregister :: "bool \<Rightarrow> string \<Rightarrow> clientStore \<Rightarrow> (client option \<times> bool) \<times> clientStore" where
  "unregister stored i cs =
     (case mget (cs_clients cs) i of
        None \<Rightarrow> ((None, True), cs)
      | Some c \<Rightarrow>
          let connID = ci_ConnID (cl_info c);
              cs1 = cs\<lparr>cs_clients := mdel i (cs_clients cs)\<rparr>;
              cs2 = (if length connID > 0 then cs1\<lparr>cs_connIDs := mdel connID (cs_connIDs cs1)\<rparr> else cs1)
          in ((Some (c\<lparr>cl_hbt := None\<rparr>), stored),
              cs2\<lparr>cs_waitOnRegister := mdel i (cs_waitOnRegister cs2)\<rparr>))"

definition lookupByConnIDOrID :: "string \<Rightarrow> bytes \<Rightarrow> clientStore \<Rightarrow> string option" where
  "lookupByConnIDOrID i connID cs =
     (if length connID > 0 then mget (cs_connIDs cs) connID
      else if mget (cs_clients cs) i \<noteq> None then Some i else None)"

definition isValid :: "string \<Rightarrow> bytes \<Rightarrow> clientStore \<Rightarrow> bool" where
  "isValid i connID cs \<longleftrightarrow> lookupByConnIDOrID i connID cs \<noteq> None"

definition maxKnownInvalidConns :: nat where
  "maxKnownInvalidConns = 256"

definition pruneKnownInvalidConns :: nat where
  "pruneKnownInvalidConns = 32"

text \<open>The pruning loop: it stops after the deletion that takes the counter beyond the constant.\<close>

fun prune_loop :: "string \<Rightarrow> nat \<Rightarrow> string list \<Rightarrow> (string, unit) gomap \<Rightarrow> (string, unit) gomap" where
  "prune_loop key r [] m = m"
| "prune_loop key r (i # is) m =
     (if i \<noteq> key then
        let m' = mdel i m; r' = Suc r
        in if r' > pruneKnownInvalidConns then m' else prune_loop key r' is m'
      else prune_loop key r is m)"

definition addToKnownInvalid :: "string \<Rightarrow> bytes \<Rightarrow> clientStore \<Rightarrow> clientStore" where
  "addToKnownInvalid i connID cs =
     (let key = getKnownInvalidKey i connID;
          m = mput key () (cs_knownInvalid cs)
      in cs\<lparr>cs_knownInvalid :=
           (if length m \<ge> maxKnownInvalidConns then prune_loop key 0 (map fst m) m else m)\<rparr>)"

definition knownToBeInvalid :: "string \<Rightarrow> bytes \<Rightarrow> clientStore \<Rightarrow> bool" where
  "knownToBeInvalid i connID cs \<longleftrightarrow> getKnownInvalidKey i connID \<in> keys (cs_knownInvalid cs)"

text \<open>
  \<open>isValidWithTimeout\<close> up to its wait: \<open>None\<close> when it waits. It then returns true when it is
  signalled by \<open>register\<close>, and otherwise times out.
\<close>

definition isValidWithTimeout :: "string \<Rightarrow> bytes \<Rightarrow> clientStore \<Rightarrow> bool option \<times> clientStore" where
  "isValidWithTimeout i connID cs =
     (if lookupByConnIDOrID i connID cs \<noteq> None then (Some True, cs)
      else if knownToBeInvalid i connID cs then (Some False, cs)
      else (None, cs\<lparr>cs_waitOnRegister := mput i () (cs_waitOnRegister cs)\<rparr>))"

definition waitTimeout :: "bool \<Rightarrow> string \<Rightarrow> bytes \<Rightarrow> clientStore \<Rightarrow> bool \<times> clientStore" where
  "waitTimeout signalled i connID cs =
     (if signalled then (True, cs)
      else (False, addToKnownInvalid i connID (cs\<lparr>cs_waitOnRegister := mdel i (cs_waitOnRegister cs)\<rparr>)))"

definition lookup_client :: "string \<Rightarrow> clientStore \<Rightarrow> client option" where
  "lookup_client i cs = mget (cs_clients cs) i"

definition lookupByConnID :: "bytes \<Rightarrow> clientStore \<Rightarrow> client option" where
  "lookupByConnID connID cs = Option.bind (mget (cs_connIDs cs) connID) (mget (cs_clients cs))"

definition getSubs :: "string \<Rightarrow> clientStore \<Rightarrow> subptr list" where
  "getSubs i cs = (case mget (cs_clients cs) i of None \<Rightarrow> [] | Some c \<Rightarrow> getSubsCopy c)"

definition upd_client :: "string \<Rightarrow> (client \<Rightarrow> client) \<Rightarrow> clientStore \<Rightarrow> clientStore" where
  "upd_client i f cs =
     (case mget (cs_clients cs) i of None \<Rightarrow> cs | Some c \<Rightarrow> cs\<lparr>cs_clients := mput i (f c) (cs_clients cs)\<rparr>)"

definition addSub :: "string \<Rightarrow> subptr \<Rightarrow> clientStore \<Rightarrow> bool \<times> clientStore" where
  "addSub i sub cs =
     (case mget (cs_clients cs) i of
        None \<Rightarrow> (False, cs)
      | Some c \<Rightarrow> (True, upd_client i (\<lambda>c. c\<lparr>cl_subs := cl_subs c @ [sub]\<rparr>) cs))"

definition removeSub :: "string \<Rightarrow> subptr \<Rightarrow> clientStore \<Rightarrow> bool \<times> clientStore" where
  "removeSub i sub cs =
     (case mget (cs_clients cs) i of
        None \<Rightarrow> (False, cs)
      | Some c \<Rightarrow>
          let (subs, removed) = delete_swap sub (cl_subs c)
          in (removed, upd_client i (\<lambda>c. c\<lparr>cl_subs := subs\<rparr>) cs))"

definition recoverClients :: "clientInfo list \<Rightarrow> clientStore \<Rightarrow> clientStore" where
  "recoverClients infos cs =
     fold (\<lambda>info cs.
       let cs1 = cs\<lparr>cs_clients := mput (ci_ID info) (new_client info) (cs_clients cs)\<rparr>
       in if length (ci_ConnID info) > 0
          then cs1\<lparr>cs_connIDs := mput (ci_ConnID info) (ci_ID info) (cs_connIDs cs1)\<rparr> else cs1) infos cs"

definition setClientHB :: "string \<Rightarrow> int \<Rightarrow> clientStore \<Rightarrow> clientStore" where
  "setClientHB i interval cs =
     upd_client i (\<lambda>c. if cl_hbt c = None then c\<lparr>cl_hbt := Some interval\<rparr> else c) cs"

definition removeClientHB :: "string \<Rightarrow> clientStore \<Rightarrow> clientStore" where
  "removeClientHB i cs = upd_client i (\<lambda>c. if cl_hbt c \<noteq> None then c\<lparr>cl_hbt := None\<rparr> else c) cs"

definition getClients :: "clientStore \<Rightarrow> (string, client) gomap" where
  "getClients cs = map (\<lambda>(_, c). (ci_ID (cl_info c), c)) (cs_clients cs)"

definition cs_count :: "clientStore \<Rightarrow> nat" where
  "cs_count cs = length (cs_clients cs)"

section \<open>Invariant\<close>

text \<open>
  Clients are stored under their own ID, and \<open>connIDs\<close> finds exactly the registered clients with
  a connection ID. The latter needs that no two registered clients have the same connection ID.
\<close>

definition has_conn :: "clientStore \<Rightarrow> string \<Rightarrow> bytes \<Rightarrow> bool" where
  "has_conn cs i k \<longleftrightarrow> (\<exists>c. mget (cs_clients cs) i = Some c \<and> ci_ConnID (cl_info c) = k)"

definition cs_inv :: "clientStore \<Rightarrow> bool" where
  "cs_inv cs \<longleftrightarrow> wf_map (cs_clients cs) \<and>
     (\<forall>i c. mget (cs_clients cs) i = Some c \<longrightarrow> ci_ID (cl_info c) = i) \<and>
     (\<forall>k i. mget (cs_connIDs cs) k = Some i \<longleftrightarrow> k \<noteq> [] \<and> has_conn cs i k)"

definition known_ok :: "clientStore \<Rightarrow> bool" where
  "known_ok cs \<longleftrightarrow> wf_map (cs_knownInvalid cs) \<and> length (cs_knownInvalid cs) < maxKnownInvalidConns"

datatype client_op =
    Register bool clientInfo
  | Unregister bool string
  | AddSub string subptr
  | RemoveSub string subptr
  | SetHB string int
  | RemoveHB string
  | Await string bytes
  | Timeout bool string bytes

fun client_step :: "client_op \<Rightarrow> clientStore \<Rightarrow> clientStore" where
  "client_step (Register stored info) cs = snd (register stored info cs)"
| "client_step (Unregister stored i) cs = snd (unregister stored i cs)"
| "client_step (AddSub i sub) cs = snd (addSub i sub cs)"
| "client_step (RemoveSub i sub) cs = snd (removeSub i sub cs)"
| "client_step (SetHB i d) cs = setClientHB i d cs"
| "client_step (RemoveHB i) cs = removeClientHB i cs"
| "client_step (Await i connID) cs = snd (isValidWithTimeout i connID cs)"
| "client_step (Timeout signalled i connID) cs = snd (waitTimeout signalled i connID cs)"

text \<open>A connection ID is new: clients generate them.\<close>

fun client_op_ok :: "clientStore \<Rightarrow> client_op \<Rightarrow> bool" where
  "client_op_ok cs (Register stored info) = (ci_ConnID info = [] \<or> ci_ConnID info \<notin> keys (cs_connIDs cs))"
| "client_op_ok cs _ = True"

fun client_run :: "client_op list \<Rightarrow> clientStore \<Rightarrow> clientStore option" where
  "client_run [] cs = Some cs"
| "client_run (x # xs) cs = (if client_op_ok cs x then client_run xs (client_step x cs) else None)"

lemma upd_client_sel [simp]:
  "mget (cs_clients (upd_client i f cs)) = (mget (cs_clients cs))(i := map_option f (mget (cs_clients cs) i))"
  "cs_connIDs (upd_client i f cs) = cs_connIDs cs"
  "cs_knownInvalid (upd_client i f cs) = cs_knownInvalid cs"
  "cs_waitOnRegister (upd_client i f cs) = cs_waitOnRegister cs"
  by (auto simp: upd_client_def fun_eq_iff split: option.split)

lemma wf_upd_client [simp]: "wf_map (cs_clients cs) \<Longrightarrow> wf_map (cs_clients (upd_client i f cs))"
  by (simp add: upd_client_def split: option.split)

lemma upd_client_inv:
  assumes "cs_inv cs" "\<And>c. cl_info (f c) = cl_info c"
  shows "cs_inv (upd_client i f cs)"
proof -
  have "has_conn (upd_client i f cs) j k = has_conn cs j k" for j k
    using assms(2) by (auto simp: has_conn_def)
  with assms show ?thesis by (auto simp: cs_inv_def)
qed

lemma register_inv:
  assumes "cs_inv cs" "ci_ConnID info = [] \<or> ci_ConnID info \<notin> keys (cs_connIDs cs)"
  shows "cs_inv (snd (register stored info cs))"
proof (cases "mget (cs_clients cs) (ci_ID info) \<noteq> None \<or> \<not> stored")
  case True
  with assms(1) show ?thesis by (auto simp: register_def)
next
  case False
  let ?cs = "snd (register stored info cs)" and ?k = "ci_ConnID info"
  have cl: "cs_clients ?cs = mput (ci_ID info) (new_client info) (cs_clients cs)"
    "cs_connIDs ?cs = (if ?k = [] then cs_connIDs cs else mput ?k (ci_ID info) (cs_connIDs cs))"
    using False by (simp_all add: register_def Let_def)
  have hc: "has_conn ?cs i k = (if i = ci_ID info then k = ?k else has_conn cs i k)" for i k
    by (auto simp: has_conn_def cl new_client_def)
  have "\<not> has_conn cs i ?k" if "?k \<noteq> []" for i
    using assms that unfolding cs_inv_def mget_None_iff [symmetric] by (metis option.distinct(1))
  moreover have "\<not> has_conn cs (ci_ID info) k" for k using False by (auto simp: has_conn_def)
  ultimately have "mget (cs_connIDs ?cs) k = Some i \<longleftrightarrow> k \<noteq> [] \<and> has_conn ?cs i k" for k i
    using assms(1) unfolding cl(2) hc by (auto simp: cs_inv_def)
  then show ?thesis using assms(1) by (auto simp: cs_inv_def cl new_client_def)
qed

lemma unregister_inv:
  assumes "cs_inv cs"
  shows "cs_inv (snd (unregister stored i cs))"
proof (cases "mget (cs_clients cs) i")
  case None
  with assms show ?thesis by (simp add: unregister_def)
next
  case (Some c)
  let ?cs = "snd (unregister stored i cs)" and ?k = "ci_ConnID (cl_info c)"
  have cl: "cs_clients ?cs = mdel i (cs_clients cs)"
    "cs_connIDs ?cs = (if ?k = [] then cs_connIDs cs else mdel ?k (cs_connIDs cs))"
    using Some by (simp_all add: unregister_def Let_def)
  have hc: "has_conn ?cs j k = (j \<noteq> i \<and> has_conn cs j k)" for j k
    by (auto simp: has_conn_def cl)
  have i: "has_conn cs i k \<longleftrightarrow> k = ?k" for k using Some by (auto simp: has_conn_def)
  have "mget (cs_connIDs ?cs) k = Some j \<longleftrightarrow> k \<noteq> [] \<and> has_conn ?cs j k" for k j
    using assms i unfolding cl(2) hc cs_inv_def by (auto simp: mget_mdel) (metis option.inject)+
  then show ?thesis using assms by (auto simp: cs_inv_def cl)
qed

lemma cs_inv_cong:
  "cs_clients cs' = cs_clients cs \<Longrightarrow> cs_connIDs cs' = cs_connIDs cs \<Longrightarrow> cs_inv cs' = cs_inv cs"
  by (simp add: cs_inv_def has_conn_def)

lemma addToKnownInvalid_sel [simp]:
  "cs_clients (addToKnownInvalid i k cs) = cs_clients cs" "cs_connIDs (addToKnownInvalid i k cs) = cs_connIDs cs"
  by (simp_all add: addToKnownInvalid_def Let_def)

lemma client_step_inv:
  assumes "cs_inv cs" "client_op_ok cs x"
  shows "cs_inv (client_step x cs)"
proof (cases x)
  case (Await i k)
  then show ?thesis using assms(1) by (auto simp: isValidWithTimeout_def cong: cs_inv_cong)
next
  case (Timeout b i k)
  then show ?thesis using assms(1) by (auto simp: waitTimeout_def cong: cs_inv_cong)
qed (use assms in \<open>auto simp: register_inv unregister_inv addSub_def removeSub_def setClientHB_def removeClientHB_def
    case_prod_unfold Let_def intro: upd_client_inv split: option.split\<close>)

lemma client_run_inv: "client_run ops cs = Some cs' \<Longrightarrow> cs_inv cs \<Longrightarrow> cs_inv cs'"
  by (induction ops arbitrary: cs) (auto simp: client_step_inv split: if_splits)

lemma newClientStore_inv: "cs_inv newClientStore" "known_ok newClientStore"
  by (simp_all add: cs_inv_def has_conn_def newClientStore_def known_ok_def maxKnownInvalidConns_def)

section \<open>Known invalid connections\<close>

lemma prune_loop_mem: "key \<in> keys m \<Longrightarrow> key \<in> keys (prune_loop key r is m)"
  by (induction key r "is" m rule: prune_loop.induct) (auto simp: Let_def)

lemma prune_loop_wf: "wf_map m \<Longrightarrow> wf_map (prune_loop key r is m)"
  by (induction key r "is" m rule: prune_loop.induct) (auto simp: Let_def)

lemma prune_loop_length: "length (prune_loop key r is m) \<le> length m"
proof (induction key r "is" m rule: prune_loop.induct)
  case (2 key r i "is" m)
  have "length (mdel i m) \<le> length m" by (rule AList.length_delete_le)
  with 2 show ?case by (simp add: Let_def) (meson le_trans)
qed simp

lemma prune_loop_shrinks:
  "wf_map m \<Longrightarrow> i \<in> set is \<Longrightarrow> i \<noteq> key \<Longrightarrow> set is \<subseteq> keys m \<Longrightarrow> length (prune_loop key r is m) < length m"
proof (induction "is" arbitrary: r m)
  case (Cons j "is")
  show ?case
  proof (cases "j = key")
    case True
    with Cons show ?thesis by simp
  next
    case False
    have less: "length (mdel j m) < length m"
      using Cons.prems(1,4) length_mdel [of m j] by (cases m) auto
    then have "length (prune_loop key (Suc r) is (mdel j m)) < length m"
      using prune_loop_length [of key "Suc r" "is" "mdel j m"] by simp
    with False less show ?thesis by (simp add: Let_def)
  qed
qed simp

lemma addToKnownInvalid_ok:
  assumes "known_ok cs"
  shows "known_ok (addToKnownInvalid i k cs)" "knownToBeInvalid i k (addToKnownInvalid i k cs)"
proof -
  let ?key = "getKnownInvalidKey i k" and ?m = "mput (getKnownInvalidKey i k) () (cs_knownInvalid cs)"
  have wf: "wf_map ?m" using assms by (simp add: known_ok_def)
  have len: "length ?m \<le> maxKnownInvalidConns"
    using assms length_mput [of "cs_knownInvalid cs" ?key "()"] by (auto simp: known_ok_def split: if_splits)
  have "length (prune_loop ?key 0 (map fst ?m) ?m) < length ?m" if "length ?m = maxKnownInvalidConns"
  proof -
    have "card (keys ?m) = 256" using length_card_keys [OF wf] that by (simp add: maxKnownInvalidConns_def)
    then have "\<not> keys ?m \<subseteq> {?key}" using card_mono [of "{?key}" "keys ?m"] by auto
    then obtain j where "j \<in> keys ?m" "j \<noteq> ?key" by blast
    then show ?thesis
      by (intro prune_loop_shrinks [OF wf, of j]) (auto simp: keys_def)
  qed
  with len wf show "known_ok (addToKnownInvalid i k cs)"
    by (auto simp: known_ok_def addToKnownInvalid_def Let_def prune_loop_wf)
  show "knownToBeInvalid i k (addToKnownInvalid i k cs)"
    by (simp add: knownToBeInvalid_def addToKnownInvalid_def Let_def prune_loop_mem)
qed

lemma client_step_known: "known_ok cs \<Longrightarrow> known_ok (client_step x cs)"
proof -
  assume ok: "known_ok cs"
  have del: "known_ok (cs\<lparr>cs_knownInvalid := mdel k (cs_knownInvalid cs)\<rparr>)" for k
    using ok AList.length_delete_le [of k "cs_knownInvalid cs"] by (simp add: known_ok_def)
  show ?thesis
  proof (cases x)
    case (Register stored info)
    have "cs_knownInvalid (snd (register stored info cs)) \<in>
        {cs_knownInvalid cs, mdel (getKnownInvalidKey (ci_ID info) (ci_ConnID info)) (cs_knownInvalid cs)}"
      by (simp add: register_def Let_def)
    with ok del Register show ?thesis by (auto simp: known_ok_def)
  next
    case (Unregister stored i)
    then show ?thesis using ok by (simp add: known_ok_def unregister_def Let_def split: option.split)
  next
    case (Timeout b i k)
    have "known_ok (cs\<lparr>cs_waitOnRegister := w\<rparr>)" for w using ok by (simp add: known_ok_def)
    with Timeout ok show ?thesis by (simp add: waitTimeout_def addToKnownInvalid_ok)
  qed (use ok in \<open>simp_all add: known_ok_def isValidWithTimeout_def addSub_def removeSub_def setClientHB_def removeClientHB_def
      case_prod_unfold Let_def split: option.split\<close>)
qed

lemma client_run_known: "client_run ops cs = Some cs' \<Longrightarrow> known_ok cs \<Longrightarrow> known_ok cs'"
  by (induction ops arbitrary: cs) (auto simp: client_step_known split: if_splits)

section \<open>Properties\<close>

text \<open>C22: after any sequence of registrations with new connection IDs, unregistrations, changes of
  subscriptions and heartbeats and waits, a client is valid exactly when it is registered: by
  its connection ID if the request has one, by its client ID otherwise; and the memory of
  invalid connections stays below its maximum.\<close>

theorem client_store_validity:
  assumes "client_run ops newClientStore = Some cs"
  shows "(isValid i k cs \<longleftrightarrow>
      (if k = [] then lookup_client i cs \<noteq> None
       else \<exists>j c. lookup_client j cs = Some c \<and> ci_ID (cl_info c) = j \<and> ci_ConnID (cl_info c) = k)) \<and>
    length (cs_knownInvalid cs) < maxKnownInvalidConns"
proof -
  have inv: "cs_inv cs" using client_run_inv [OF assms newClientStore_inv(1)] .
  have "known_ok cs" using client_run_known [OF assms newClientStore_inv(2)] .
  moreover have "(\<exists>j. mget (cs_connIDs cs) k = Some j) \<longleftrightarrow> (\<exists>j. has_conn cs j k)" if "k \<noteq> []"
    using inv that by (simp add: cs_inv_def)
  ultimately show ?thesis
    using inv unfolding cs_inv_def has_conn_def
    by (auto simp: isValid_def lookupByConnIDOrID_def lookup_client_def known_ok_def)
qed

definition sample_info :: clientInfo where
  "sample_info = \<lparr>ci_ID = ''me'', ci_HbInbox = ''hb'', ci_ConnID = ''c1'', ci_Protocol = 1, ci_PingInterval = 5, ci_PingMaxOut = 3\<rparr>"

theorem client_store_validity_witness:
  "\<exists>cs. client_run [Await ''me'' ''c1'', Register True sample_info] newClientStore = Some cs \<and>
     isValid ''me'' ''c1'' cs \<and> length (cs_knownInvalid cs) < maxKnownInvalidConns"
proof -
  let ?ops = "[Await ''me'' ''c1'', Register True sample_info]"
  have "map_option (isValid ''me'' ''c1'') (client_run ?ops newClientStore) = Some True" by code_simp
  then obtain cs where "client_run ?ops newClientStore = Some cs" "isValid ''me'' ''c1'' cs" by auto
  with client_store_validity [OF this(1)] show ?thesis by blast
qed

end
