(* ===== verification/Sub_Registry.thy ===== *)
theory Sub_Registry
  imports Delivery Client_Store Channel_Names
begin

text \<open>
  Registration of subscriptions (\<open>server/server.go\<close>): the maps of \<open>subStore\<close>, start positions,
  creation, resumption and removal of subscriptions, and the transfer of the pending messages of
  a leaving queue member. A new subscription gets the next reference of its channel. In the
  registry of clients a subscription is the pair of its channel's name and its reference.
\<close>

datatype srv_err =
    StoreErr store_err
  | StorageFailure
  | ErrUnknownClient
  | ErrInvalidDurName
  | ErrDupDurable
  | ErrInvalidSubReq
  | ErrMissingClient
  | ErrInvalidAckWait
  | ErrInvalidMaxInflight
  | ErrInvalidStart
  | ErrInvalidSubject
  | ErrInvalidSub
  | ErrInvalidUnsubReq
  | ErrUnknownChannel
  | ErrChanDelInProgress
  | ErrDifferentCase
  | ErrClient client_err
  | ErrInvalidConnReq
  | ErrInvalidClientID
  | ErrInvalidPubReq
  | ErrInvalidCloseReq
  | AckSubFailure
  | RaftFailure
  | WrongChannelID
  | Panic

datatype startPosition = NewOnly | LastReceived | TimeDeltaStart | SequenceStart | First | OtherPosition

record subRequest =
  sr_ClientID :: string
  sr_Subject :: string
  sr_QGroup :: string
  sr_Inbox :: string
  sr_MaxInFlight :: int
  sr_AckWaitInSecs :: int
  sr_DurableName :: string
  sr_StartPosition :: startPosition
  sr_StartSequence :: u64
  sr_StartTimeDelta :: int

section \<open>The maps of a channel\<close>

definition empty_queue :: queueState where
  "empty_queue = \<lparr>q_lastSent = 0, q_subs = [], q_rdlvCount = [], q_shadow = None, q_stalledSubCount = 0, q_newOnHold = False\<rparr>"

definition queue_for :: "string \<Rightarrow> chan \<Rightarrow> qref \<times> chan" where
  "queue_for qgroup c =
     (case mget (qsubs c) qgroup of
        Some q \<Rightarrow> (q, c)
      | None \<Rightarrow>
          let q = c_qnext c
          in (q, c\<lparr>c_qheap := (c_qheap c)(q := empty_queue), c_qnext := Suc q, qsubs := mput qgroup q (qsubs c)\<rparr>))"

definition index_sub :: "sref \<Rightarrow> chan \<Rightarrow> chan" where
  "index_sub r c =
     c\<lparr>acks := mput (AckInbox (sub_at c r)) r (acks c), inboxes := mput (Inbox (sub_at c r)) r (inboxes c)\<rparr>"

definition join_group :: "subState \<Rightarrow> sref \<Rightarrow> queueState \<Rightarrow> queueState" where
  "join_group sub r qs =
     (let qs1 = qs\<lparr>q_subs := q_subs qs @ [r]\<rparr>;
          qs2 = (if newOnHold sub then qs1\<lparr>q_newOnHold := True\<rparr> else qs1)
      in if stalled sub then qs2\<lparr>q_stalledSubCount := q_stalledSubCount qs2 + 1\<rparr> else qs2)"

definition updateState :: "sref \<Rightarrow> chan \<Rightarrow> chan" where
  "updateState r c =
     (let sub = sub_at c r in
      if isQueueSubscriber sub then
        let (q, c1) = queue_for (QGroup sub) c;
            c2 = (if ClientID sub = []
                  then (if q_shadow (queue_at c1 q) = None \<or> LastSent sub > q_lastSent (queue_at c1 q)
                        then upd_queue q (\<lambda>qs. qs\<lparr>q_shadow := Some r\<rparr>) c1 else c1)
                  else upd_queue q (join_group sub r) (index_sub r c1));
            c3 = (if LastSent sub > q_lastSent (queue_at c2 q)
                  then upd_queue q (\<lambda>qs. qs\<lparr>q_lastSent := LastSent sub\<rparr>) c2 else c2)
        in upd_sub r (\<lambda>s. s\<lparr>qstate := Some q\<rparr>) c3
      else
        let c1 = index_sub r c; c2 = c1\<lparr>psubs := psubs c1 @ [r]\<rparr>
        in if isDurableSubscriber sub then c2\<lparr>durables := mput (sub_durableKey sub) r (durables c2)\<rparr> else c2)"

text \<open>\<open>CreateSub\<close> of the subscription store: the Raft store in clustered mode, otherwise one built on the
  generic store, whose own storage may fail.\<close>

definition store_create :: "env \<Rightarrow> sref \<Rightarrow> chan \<Rightarrow> srv_err option \<times> chan" where
  "store_create e r c =
     (case (if e_clustered e then raft_CreateSub (ID (sub_at c r)) (c_substore c) else createSub (c_substore c)) of
        Inl err \<Rightarrow> (Some (StoreErr err), c)
      | Inr (i, ss) \<Rightarrow>
          if \<not> e_createSub e then (Some StorageFailure, c)
          else
            let c1 = upd_sub r (\<lambda>s. s\<lparr>ID := i\<rparr>) (c\<lparr>c_substore := ss\<rparr>)
            in (None, log_rec (RecNew (spbSubState.truncate (sub_at c1 r))) c1))"

definition subStore_Store :: "env \<Rightarrow> sref \<Rightarrow> chan \<Rightarrow> srv_err option \<times> chan" where
  "subStore_Store e r c =
     (case store_create e r c of
        (Some err, c1) \<Rightarrow> (Some err, c1)
      | (None, c1) \<Rightarrow> if \<not> e_flush e then (Some StorageFailure, c1) else (None, updateState r c1))"

definition getAllSubs :: "chan \<Rightarrow> sref list" where
  "getAllSubs c = psubs c @ concat (map (\<lambda>(_, q). q_subs (queue_at c q)) (qsubs c))"

definition hasActiveSubs :: "chan \<Rightarrow> bool" where
  "hasActiveSubs c \<longleftrightarrow> psubs c \<noteq> [] \<or> list_ex (\<lambda>(_, q). q_subs (queue_at c q) \<noteq> []) (qsubs c)"

definition chan_numSubs :: "chan \<Rightarrow> nat" where
  "chan_numSubs c =
     length (psubs c) + length (filter (\<lambda>(_, r). ClientID (sub_at c r) = []) (durables c)) +
     sum_list (map (\<lambda>(_, q). length (q_subs (queue_at c q)) + (if q_shadow (queue_at c q) \<noteq> None then 1 else 0)) (qsubs c))"

definition LookupByDurable :: "string \<Rightarrow> chan \<Rightarrow> sref option" where
  "LookupByDurable k c = mget (durables c) k"

definition LookupByAckInbox :: "string \<Rightarrow> chan \<Rightarrow> sref option" where
  "LookupByAckInbox i c = mget (acks c) i"

definition LookupByInbox :: "string \<Rightarrow> chan \<Rightarrow> sref option" where
  "LookupByInbox i c = mget (inboxes c) i"

section \<open>Removal\<close>

definition store_delete :: "env \<Rightarrow> u64 \<Rightarrow> chan \<Rightarrow> chan" where
  "store_delete e subid c =
     (if e_deleteSub e subid
      then log_rec (RecDelete subid) (c\<lparr>c_substore := ss_DeleteSub subid (c_substore c)\<rparr>) else c)"

definition store_update :: "env \<Rightarrow> sref \<Rightarrow> chan \<Rightarrow> chan" where
  "store_update e r c =
     (if e_updateSub e (ID (sub_at c r)) then log_rec (RecUpdate (spbSubState.truncate (sub_at c r))) c else c)"

text \<open>
  The transfer of pending messages to the remaining members \<open>subs\<close>, in turn. It returns whether
  the group's last sequence still has to be stored, and the members that got a message.
\<close>

fun transfer_loop ::
  "env \<Rightarrow> int \<Rightarrow> qref \<Rightarrow> sref list \<Rightarrow> nat \<Rightarrow> (u64 \<times> int) list \<Rightarrow> bool \<Rightarrow> (u64, sref) gomap \<Rightarrow> chan \<Rightarrow>
   bool \<times> (u64, sref) gomap \<times> chan" where
  "transfer_loop e exp q subs idx [] storageUpdate tracked c = (storageUpdate, tracked, c)"
| "transfer_loop e exp q subs idx ((seq, _) # pms) storageUpdate tracked c =
     (let r = subs ! idx; i = ID (sub_at c r) in
      if \<not> e_addPending e i seq then transfer_loop e exp q subs idx pms storageUpdate tracked c
      else
        let c1 = log_rec (RecMsg i seq) c;
            storageUpdate' = (if storageUpdate \<and> seq = q_lastSent (queue_at c1 q) then False else storageUpdate);
            c2 = upd_sub r (set_pending seq exp \<circ> bump_lastSent seq) c1;
            tracked' = (if i \<in> keys tracked then tracked else mput i r tracked);
            c3 = (if e_clustered e then collectSentOrAck r True seq c2 else c2);
            idx' = (if Suc idx = length subs then 0 else Suc idx)
        in transfer_loop e exp q subs idx' pms storageUpdate' tracked' c3)"

definition leave_group ::
  "env \<Rightarrow> sref \<Rightarrow> qref \<Rightarrow> bool \<Rightarrow> bool \<Rightarrow> chan \<Rightarrow> (u64, sref) gomap \<times> chan" where
  "leave_group e r q isDurable unsubscribe c =
     (let c1 = upd_sub r clearAckTimer c;
          subs = fst (delete_swap r (q_subs (queue_at c1 q)));
          c2 = upd_queue q (\<lambda>qs. qs\<lparr>q_subs := subs\<rparr>) c1;
          sub = sub_at c2 r;
          (storageUpdate, tracked', c3) =
            (if subs = [] then
               (if \<not> isDurable \<or> unsubscribe
                then (False, [], store_delete e (ID sub) (c2\<lparr>qsubs := mdel (QGroup sub) (qsubs c2)\<rparr>))
                else (True, [], upd_queue q (\<lambda>qs. qs\<lparr>q_shadow := Some r, q_stalledSubCount := 0\<rparr>) c2))
             else
               let c21 = (if stalled sub \<and> q_stalledSubCount (queue_at c2 q) > 0
                          then upd_queue q (\<lambda>qs. qs\<lparr>q_stalledSubCount := q_stalledSubCount qs - 1\<rparr>) c2 else c2);
                   su = (LastSent sub = q_lastSent (queue_at c21 q));
                   (su', tracked, c22) =
                     (if isStandaloneOrLeader e
                      then transfer_loop e (i64 (e_now e - nanosecond_of_second)) q subs 0 (makeSortedPendingMsgs sub) su [] c21
                      else (su, [], c21))
               in (su', tracked, if isDurable then store_delete e (ID sub) c22 else c22))
      in if storageUpdate then
           let x = (case q_shadow (queue_at c3 q) of Some y \<Rightarrow> y | None \<Rightarrow> q_subs (queue_at c3 q) ! 0)
           in (tracked', store_update e x (upd_sub x (\<lambda>s. s\<lparr>LastSent := q_lastSent (queue_at c3 q)\<rparr>) c3))
         else (tracked', c3))"

definition leave_plain :: "env \<Rightarrow> sref \<Rightarrow> string \<Rightarrow> bool \<Rightarrow> bool \<Rightarrow> chan \<Rightarrow> chan" where
  "leave_plain e r clientID isDurable unsubscribe c =
     (let c1 = upd_sub r clearAckTimer c;
          c2 = c1\<lparr>psubs := fst (delete_swap r (psubs c1))\<rparr>
      in if isDurable \<and> \<not> unsubscribe then
           let c3 = upd_sub r (\<lambda>s. s\<lparr>ClientID := clientID, IsClosed := True\<rparr>) c2
           in upd_sub r (\<lambda>s. s\<lparr>ClientID := []\<rparr>) (store_update e r c3)
         else c2)"

definition fire_soon :: "sref \<Rightarrow> chan \<Rightarrow> chan" where
  "fire_soon r = upd_sub r (setupAckTimer 100000000)"

definition subStore_Remove :: "env \<Rightarrow> sref \<Rightarrow> bool \<Rightarrow> chan \<Rightarrow> chan" where
  "subStore_Remove e r unsubscribe c =
     (let sub = sub_at c r;
          dkey = (if isDurableSubscriber sub then sub_durableKey sub else []);
          c1 = upd_sub r (\<lambda>s. stopAckSub (s\<lparr>savedClientID := ClientID s, ClientID := []\<rparr>)) c;
          c2 = (if \<not> IsDurable sub \<or> (unsubscribe \<and> dkey \<noteq> []) then store_delete e (ID sub) c1 else c1);
          c3 = c2\<lparr>acks := mdel (AckInbox sub) (acks c2), inboxes := mdel (Inbox sub) (inboxes c2)\<rparr>;
          c4 = (if unsubscribe \<and> dkey \<noteq> [] then c3\<lparr>durables := mdel dkey (durables c3)\<rparr> else c3)
      in case qstate sub of
           None \<Rightarrow> leave_plain e r (ClientID sub) (IsDurable sub) unsubscribe c4
         | Some q \<Rightarrow>
             let (tracked, c5) = leave_group e r q (IsDurable sub) unsubscribe c4
             in if isStandaloneOrLeader e then fold fire_soon (map snd tracked) c5 else c5)"

section \<open>Start position\<close>

text \<open>\<open>None\<close> when \<open>GetSequenceFromTimestamp\<close> panics.\<close>

definition setSubStartSequence :: "env \<Rightarrow> chan \<Rightarrow> subRequest \<Rightarrow> u64 option" where
  "setSubStartSequence e c sr =
     (case sr_StartPosition sr of
        NewOnly \<Rightarrow> Some (LastSequence (c_msgs c))
      | LastReceived \<Rightarrow>
          let lastSeq = LastSequence (c_msgs c) in Some (if lastSeq > 0 then lastSeq - 1 else 0)
      | TimeDeltaStart \<Rightarrow>
          map_option (\<lambda>seq. if seq > 0 then seq - 1 else 0)
            (GetSequenceFromTimestamp (c_msgs c) (i64 (e_now e - sr_StartTimeDelta sr)))
      | SequenceStart \<Rightarrow>
          let (firstSeq, lastSeq) = FirstAndLastSequence (c_msgs c)
          in Some (if sr_StartSequence sr < firstSeq then firstSeq - 1
                   else if sr_StartSequence sr > lastSeq then lastSeq
                   else if sr_StartSequence sr > 0 then sr_StartSequence sr - 1 else 0)
      | First \<Rightarrow> let firstSeq = FirstSequence (c_msgs c) in Some (if firstSeq > 0 then firstSeq - 1 else 0)
      | OtherPosition \<Rightarrow> Some 0)"

section \<open>Creation and resumption\<close>

definition durableKey :: "subRequest \<Rightarrow> string" where
  "durableKey sr =
     (if sr_DurableName sr = [] then []
      else sr_ClientID sr @ ''-'' @ sr_Subject sr @ ''-'' @ sr_DurableName sr)"

definition startAckSub :: "env \<Rightarrow> sref \<Rightarrow> chan \<Rightarrow> srv_err option \<times> chan" where
  "startAckSub e r c =
     (if \<not> e_startAckSub e then (Some AckSubFailure, c)
      else (None, upd_sub r (\<lambda>s. (stopAckSub s)\<lparr>ackSub := True\<rparr>) c))"

definition addSubscription :: "env \<Rightarrow> sref \<Rightarrow> chan \<times> clientStore \<Rightarrow> srv_err option \<times> chan \<times> clientStore" where
  "addSubscription e r = (\<lambda>(c, cs).
     (let clientID = ClientID (sub_at c r); (ok, cs1) = addSub clientID (c_name c, r) cs in
      if \<not> ok then (Some ErrUnknownClient, c, cs)
      else case subStore_Store e r c of
             (Some err, c1) \<Rightarrow> (Some err, c1, snd (removeSub clientID (c_name c, r) cs1))
           | (None, c1) \<Rightarrow> (None, c1, cs1)))"

definition updateDurable :: "env \<Rightarrow> sref \<Rightarrow> string \<Rightarrow> chan \<times> clientStore \<Rightarrow> srv_err option \<times> chan \<times> clientStore" where
  "updateDurable e r clientID = (\<lambda>(c, cs).
     (let (ok, cs1) = addSub clientID (c_name c, r) cs in
      if \<not> ok then (Some ErrUnknownClient, c, cs)
      else if \<not> e_updateSub e (ID (sub_at c r)) then (Some StorageFailure, c, cs1)
      else
        let c1 = store_update e r c;
            c2 = (if isDurableSubscriber (sub_at c1 r) then c1\<lparr>psubs := psubs c1 @ [r]\<rparr> else c1)
        in (None, index_sub r c2, cs1)))"

definition resume_sub :: "env \<Rightarrow> subRequest \<Rightarrow> string \<Rightarrow> subState \<Rightarrow> subState" where
  "resume_sub e sr ackInbox s =
     (let s1 = s\<lparr>AckInbox := ackInbox, ClientID := sr_ClientID sr, Inbox := sr_Inbox sr, IsDurable := True,
               MaxInFlight := sr_MaxInFlight sr, AckWaitInSecs := sr_AckWaitInSecs sr,
               ackWait := computeAckWait (sr_AckWaitInSecs sr), stalled := False\<rparr>;
          s2 = (if length (acksPending s1) > 0
                then (if isStandaloneOrLeader e then setupAckTimer (ackWait s1) (s1\<lparr>newOnHold := True\<rparr>)
                      else s1\<lparr>newOnHold := True\<rparr>)
                else s1)
      in s2\<lparr>IsClosed := False, sub_replicate := map_option (\<lambda>x. x\<lparr>r_stopped := False\<rparr>) (sub_replicate s2),
            hasFailedHB := False, initialized := False\<rparr>)"

definition new_sub :: "subRequest \<Rightarrow> string \<Rightarrow> bool \<Rightarrow> subState" where
  "new_sub sr ackInbox isDurable =
     \<lparr>ID = 0, ClientID = sr_ClientID sr, QGroup = sr_QGroup sr, Inbox = sr_Inbox sr, AckInbox = ackInbox,
      MaxInFlight = sr_MaxInFlight sr, AckWaitInSecs = sr_AckWaitInSecs sr, DurableName = sr_DurableName sr,
      LastSent = 0, IsDurable = isDurable, IsClosed = False, sub_subject = sr_Subject sr, qstate = None,
      ackWait = computeAckWait (sr_AckWaitInSecs sr), ackTimer = None, ackSub = False, acksPending = [],
      savedClientID = [], sub_replicate = None, rdlvCount = [], initialized = False, stalled = False,
      newOnHold = False, hasFailedHB = False\<rparr>"

text \<open>
  The first part of \<open>processSub\<close>: the request with its compound group name, whether the
  subscription is durable, whether the start position applies, and the remembered subscription.
\<close>

definition find_remembered ::
  "subRequest \<Rightarrow> chan \<Rightarrow> (srv_err + subRequest \<times> bool \<times> bool \<times> sref option) \<times> chan" where
  "find_remembered sr c =
     (if sr_QGroup sr \<noteq> [] then
        if sr_DurableName sr \<noteq> [] \<and> CHR '':'' \<in> set (sr_DurableName sr) then (Inl ErrInvalidDurName, c)
        else
          let isDurable = (sr_DurableName sr \<noteq> []);
              sr' = (if isDurable
                     then sr\<lparr>sr_QGroup := sr_DurableName sr @ '':'' @ sr_QGroup sr, sr_DurableName := []\<rparr> else sr)
          in case mget (qsubs c) (sr_QGroup sr') of
               None \<Rightarrow> (Inr (sr', isDurable, True, None), c)
             | Some q \<Rightarrow>
                 case q_shadow (queue_at c q) of
                   None \<Rightarrow> (Inr (sr', isDurable, False, None), c)
                 | Some r \<Rightarrow>
                     (Inr (sr', isDurable, False, Some r),
                      upd_queue q (\<lambda>qs. qs\<lparr>q_shadow := None, q_subs := q_subs qs @ [r]\<rparr>) c)
      else if sr_DurableName sr \<noteq> [] then
        case mget (durables c) (durableKey sr) of
          None \<Rightarrow> (Inr (sr, True, True, None), c)
        | Some r \<Rightarrow>
            if ClientID (sub_at c r) \<noteq> [] then (Inl ErrDupDurable, c)
            else (Inr (sr, True, False, Some r), c)
      else (Inr (sr, False, True, None), c))"

text \<open>The creation of a new subscription; \<open>Panic\<close> stands for the panic of the start position.\<close>

definition create_sub ::
  "env \<Rightarrow> subRequest \<Rightarrow> string \<Rightarrow> u64 \<Rightarrow> bool \<Rightarrow> bool \<Rightarrow> chan \<times> clientStore \<Rightarrow>
   srv_err option \<times> sref \<times> chan \<times> clientStore" where
  "create_sub e sr ackInbox subID isDurable setStartPos = (\<lambda>(c, cs).
     (let r = c_next c;
          c1 = upd_sub r (\<lambda>_. new_sub sr ackInbox isDurable) (c\<lparr>c_next := Suc r\<rparr>)
      in case (if setStartPos then setSubStartSequence e c1 sr else Some 0) of
           None \<Rightarrow> (Some Panic, r, c1, cs)
         | Some lastSent \<Rightarrow>
             let c2 = upd_sub r (\<lambda>s. s\<lparr>LastSent := lastSent, ID := subID\<rparr>) c1
             in case addSubscription e r (c2, cs) of
                  (Some err, c3, cs3) \<Rightarrow> (Some err, r, c3, cs3)
                | (None, c3, cs3) \<Rightarrow>
                    (None, r,
                     (if subID > 0 \<and> subID \<ge> c_nextSubID c3 then c3\<lparr>c_nextSubID := subID + 1\<rparr> else c3), cs3)))"

definition undo_sub :: "env \<Rightarrow> string \<Rightarrow> sref \<Rightarrow> bool \<Rightarrow> chan \<times> clientStore \<Rightarrow> chan \<times> clientStore" where
  "undo_sub e clientID r subIsNew = (\<lambda>(c, cs).
     (subStore_Remove e r subIsNew c, snd (removeSub clientID (c_name c, r) cs)))"

definition finish_sub ::
  "env \<Rightarrow> string \<Rightarrow> bool \<Rightarrow> srv_err option \<times> sref \<times> chan \<times> clientStore \<Rightarrow> (srv_err + sref) \<times> chan \<times> clientStore" where
  "finish_sub e clientID subIsNew = (\<lambda>(err, r, c, cs).
     (let (err', c') = (if err = None \<and> isStandaloneOrLeader e then startAckSub e r c else (err, c))
      in case err' of
           None \<Rightarrow> (Inr r, c', cs)
         | Some x \<Rightarrow> (Inl x, undo_sub e clientID r subIsNew (c', cs))))"

definition processSub ::
  "env \<Rightarrow> subRequest \<Rightarrow> string \<Rightarrow> u64 \<Rightarrow> chan \<times> clientStore \<Rightarrow> (srv_err + sref) \<times> chan \<times> clientStore" where
  "processSub e sr ackInbox subID = (\<lambda>(c, cs).
     (case find_remembered sr c of
        (Inl err, c1) \<Rightarrow> (Inl err, c1, cs)
      | (Inr (sr', isDurable, setStartPos, remembered), c1) \<Rightarrow>
          (case remembered of
             Some r \<Rightarrow>
               let c2 = upd_sub r (resume_sub e sr' ackInbox) c1;
                   (err, c3, cs3) = updateDurable e r (sr_ClientID sr') (c2, cs)
               in finish_sub e (sr_ClientID sr') False (err, r, c3, cs3)
           | None \<Rightarrow>
               (case create_sub e sr' ackInbox subID isDurable setStartPos (c1, cs) of
                  (Some Panic, _, c2, cs2) \<Rightarrow> (Inl Panic, c2, cs2)
                | (err, r, c2, cs2) \<Rightarrow> finish_sub e (sr_ClientID sr') True (err, r, c2, cs2)))))"

section \<open>Close and unsubscribe\<close>

definition unsubscribeSub ::
  "env \<Rightarrow> string \<Rightarrow> sref \<Rightarrow> bool \<Rightarrow> bool \<Rightarrow> chan \<times> clientStore \<Rightarrow> srv_err option \<times> chan \<times> clientStore" where
  "unsubscribeSub e clientID r isSubClose shouldFlush = (\<lambda>(c, cs).
     (let (removed, cs1) = removeSub clientID (c_name c, r) cs in
      if \<not> removed then (Some ErrUnknownClient, c, cs1)
      else
        let c1 = subStore_Remove e r (\<not> isSubClose) c
        in (if shouldFlush \<and> \<not> e_flush e then Some StorageFailure else None, c1, cs1)))"

end
