(* ===== verification/Msg_Restore.thy ===== *)
theory Msg_Restore
  imports Server_State
begin

text \<open>
  The transfer of messages from the leader to a follower that is behind: the leader's handler
  of restore requests (\<open>subToSnapshotRestoreRequests\<close> of \<open>server/server.go\<close>) and the
  follower's side (\<open>restoreMsgsFromSnapshot\<close> and its helpers in \<open>server/snapshot.go\<close>).

  The network is the function \<open>serve\<close>, from the range of a request to the responses that reach the
  requestor; a missing response is a time-out of the requestor. The responses wait in the queue of
  the requestor's subscription. The loops count down a fuel; the store operations are those of
  the memory store, which do not fail.
\<close>

section \<open>Leader\<close>

text \<open>The reply subject of a response: none, \<open>restoreMsgsV2\<close>, or that with \<open>restoreMsgsFirstAvailSuffix\<close>.\<close>

datatype restore_reply = NoReply | RestoreV2 | RestoreV2First

type_synonym response = "restore_reply \<times> MsgProto option"

definition first_avail :: "msg_store \<Rightarrow> u64 \<Rightarrow> bool \<times> MsgProto option" where
  "first_avail ms seq =
     (case FirstMsg ms of
        None \<Rightarrow> (False, None)
      | Some m \<Rightarrow> (True, if Sequence m < seq then None else Some m))"

fun restore_send :: "nat \<Rightarrow> bool \<Rightarrow> msg_store \<Rightarrow> u64 \<Rightarrow> u64 \<Rightarrow> response list" where
  "restore_send 0 v2 ms seq end_seq = []"
| "restore_send (Suc fuel) v2 ms seq end_seq =
     (if seq \<le> end_seq then
        let found = Lookup ms seq;
            (sendingTheFirstAvail, msg) = (if found = None \<and> v2 then first_avail ms seq else (False, found));
            reply = (if \<not> v2 then NoReply else if sendingTheFirstAvail then RestoreV2First else RestoreV2)
        in (reply, msg) #
           (case msg of
              None \<Rightarrow> []
            | Some m \<Rightarrow> restore_send fuel v2 ms (Sequence m + 1) end_seq)
      else [])"

text \<open>The handler for a request that can be answered: \<open>None\<close> is a channel that does not exist or is being deleted.\<close>

definition restore_serve :: "bool \<Rightarrow> msg_store option \<Rightarrow> u64 \<Rightarrow> u64 \<Rightarrow> response list" where
  "restore_serve v2 ms start end_seq =
     (case ms of
        None \<Rightarrow> [(if v2 then RestoreV2 else NoReply, None)]
      | Some s \<Rightarrow> restore_send (Suc (unat end_seq - unat start)) v2 s start end_seq)"

section \<open>Follower\<close>

type_synonym network = "u64 \<Rightarrow> u64 \<Rightarrow> response list"

text \<open>A request for one message on a subscription whose queue is \<open>queue\<close>; \<open>None\<close> is a time-out.\<close>

definition restoreMsgsFetchOne :: "network \<Rightarrow> response list \<Rightarrow> u64 \<Rightarrow> (response \<times> response list) option" where
  "restoreMsgsFetchOne serve queue seq =
     (case queue @ serve seq seq of [] \<Rightarrow> None | r # rest \<Rightarrow> Some (r, rest))"

definition hasLeaderSentFirstAvail :: "network \<Rightarrow> u64 \<Rightarrow> u64 \<Rightarrow> bool" where
  "hasLeaderSentFirstAvail serve reqSeq gotSeq =
     (case restoreMsgsFetchOne serve [] reqSeq of
        Some ((_, Some m), _) \<Rightarrow> Sequence m = gotSeq
      | _ \<Rightarrow> False)"

fun find_first_loop :: "nat \<Rightarrow> network \<Rightarrow> response list \<Rightarrow> u64 \<Rightarrow> u64 \<Rightarrow> (u64 \<times> response list) option" where
  "find_first_loop 0 serve queue l r = None"
| "find_first_loop (Suc fuel) serve queue l r =
     (if l \<le> r then
        let m = (l + r) div 2
        in case restoreMsgsFetchOne serve queue m of
             None \<Rightarrow> None
           | Some ((_, None), queue') \<Rightarrow> find_first_loop fuel serve queue' (m + 1) r
           | Some ((_, Some _), queue') \<Rightarrow> find_first_loop fuel serve queue' l (m - 1)
      else Some (l, queue))"

definition restoreMsgsFindFirstAvailSeqFromOldLeader ::
  "network \<Rightarrow> response list \<Rightarrow> u64 \<Rightarrow> u64 \<Rightarrow> (u64 \<times> response list) option" where
  "restoreMsgsFindFirstAvailSeqFromOldLeader serve queue start end_seq =
     (case restoreMsgsFetchOne serve queue end_seq of
        None \<Rightarrow> None
      | Some ((_, None), queue') \<Rightarrow> Some (end_seq + 1, queue')
      | Some ((_, Some _), queue') \<Rightarrow>
          find_first_loop (Suc (Suc (unat end_seq - unat start))) serve queue' start end_seq)"

record restore_state =
  x_store :: msg_store
  x_firstSeq :: u64
  x_queue :: "response list"
  x_reqStart :: u64
  x_reqEnd :: u64
  x_stored :: bool
  x_cnfcount :: nat

definition restore_batch :: u64 where
  "restore_batch = 100"

text \<open>The request at the head of the loop, when the previous one has been answered.\<close>

definition restore_request :: "network \<Rightarrow> u64 \<Rightarrow> u64 \<Rightarrow> restore_state \<Rightarrow> restore_state" where
  "restore_request serve last_seq seq x =
     (if seq = x_reqStart x then
        let reqEnd = (if x_reqStart x + restore_batch - 1 > last_seq then last_seq else x_reqStart x + restore_batch - 1)
        in x\<lparr>x_queue := x_queue x @ serve (x_reqStart x) reqEnd, x_reqEnd := reqEnd,
             x_reqStart := (if reqEnd \<noteq> last_seq then reqEnd + 1 else x_reqStart x)\<rparr>
      else x)"

datatype restore_result = Restored | RestoreFailed | OutOfFuel

text \<open>What the loop does with a response: it stops with a result, or goes on after a sequence.\<close>

definition restore_found ::
  "(MsgProto option \<Rightarrow> nat) \<Rightarrow> int \<Rightarrow> network \<Rightarrow> u64 \<Rightarrow> u64 \<Rightarrow> restore_reply \<Rightarrow> MsgProto \<Rightarrow> restore_state \<Rightarrow>
   (restore_result + u64) \<times> restore_state" where
  "restore_found msize now serve last_seq seq reply m x =
     (let x1 = x\<lparr>x_cnfcount := 0\<rparr> in
      if Sequence m = seq then
        (Inr seq, x1\<lparr>x_store := snd (Store msize now m (x_store x1)), x_stored := True\<rparr>)
      else if reply \<noteq> RestoreV2First \<and> seq \<le> x_reqEnd x1 \<and> \<not> hasLeaderSentFirstAvail serve seq (Sequence m)
      then (Inl RestoreFailed, x1)
      else
        let x2 = x1\<lparr>x_store := Empty (x_store x1)\<rparr> in
        if Sequence m > last_seq then (Inl Restored, x2\<lparr>x_firstSeq := last_seq + 1\<rparr>)
        else
          let seq' = Sequence m; x3 = x2\<lparr>x_firstSeq := seq'\<rparr>;
              x4 = (if seq' > x_reqEnd x3 then x3\<lparr>x_reqStart := seq' + 1\<rparr> else x3)
          in (Inr seq', x4\<lparr>x_store := snd (Store msize now m (x_store x4)), x_stored := True\<rparr>))"

definition restore_missing ::
  "network \<Rightarrow> u64 \<Rightarrow> u64 \<Rightarrow> u64 \<Rightarrow> restore_reply \<Rightarrow> restore_state \<Rightarrow> (restore_result + u64) \<times> restore_state" where
  "restore_missing serve first last_seq seq reply x =
     (let x1 = (if seq = first \<or> x_stored x then x\<lparr>x_store := Empty (x_store x), x_stored := False\<rparr> else x);
          x2 = x1\<lparr>x_firstSeq := seq + 1\<rparr>
      in if reply = RestoreV2 then (Inl Restored, x2)
         else if Suc (x_cnfcount x2) \<ge> 10 then
           (case restoreMsgsFindFirstAvailSeqFromOldLeader serve (x_queue x2) (seq + 1) last_seq of
              None \<Rightarrow> (Inl RestoreFailed, x2\<lparr>x_cnfcount := 0\<rparr>)
            | Some (fseq, queue) \<Rightarrow>
                if fseq > last_seq then (Inl Restored, x2\<lparr>x_cnfcount := 0, x_queue := queue, x_firstSeq := last_seq + 1\<rparr>)
                else (Inr (fseq - 1), x2\<lparr>x_cnfcount := 0, x_queue := queue, x_reqStart := fseq\<rparr>))
         else (Inr seq, x2\<lparr>x_cnfcount := Suc (x_cnfcount x2), x_reqStart := seq + 1\<rparr>))"

fun restore_loop ::
  "nat \<Rightarrow> (MsgProto option \<Rightarrow> nat) \<Rightarrow> int \<Rightarrow> network \<Rightarrow> u64 \<Rightarrow> u64 \<Rightarrow> u64 \<Rightarrow> restore_state \<Rightarrow> restore_result \<times> restore_state" where
  "restore_loop 0 msize now serve first last_seq seq x = (OutOfFuel, x)"
| "restore_loop (Suc fuel) msize now serve first last_seq seq x =
     (if seq \<le> last_seq then
        let x1 = restore_request serve last_seq seq x in
        case x_queue x1 of
          [] \<Rightarrow> (RestoreFailed, x1)
        | (reply, data) # queue \<Rightarrow>
            (case (case data of
                     Some m \<Rightarrow> restore_found msize now serve last_seq seq reply m (x1\<lparr>x_queue := queue\<rparr>)
                   | None \<Rightarrow> restore_missing serve first last_seq seq reply (x1\<lparr>x_queue := queue\<rparr>)) of
               (Inl result, x2) \<Rightarrow> (result, x2)
             | (Inr seq', x2) \<Rightarrow> restore_loop fuel msize now serve first last_seq (seq' + 1) x2)
      else (Restored, x))"

definition restore_start :: "u64 \<Rightarrow> bool \<Rightarrow> chan \<Rightarrow> u64 \<times> chan" where
  "restore_start first fromApply c =
     (let storeLast = LastSequence (c_msgs c);
          first1 = (if fromApply then storeLast + 1 else first);
          (first2, c1) =
            (if first1 > storeLast + 1
             then (first1, if storeLast \<noteq> 0 then c\<lparr>c_msgs := Empty (c_msgs c)\<rparr> else c)
             else if first1 \<le> storeLast then (storeLast + 1, c) else (first1, c))
      in (if c_firstSeq c1 > first2 then c_firstSeq c1 else first2, c1))"

definition restoreMsgsFromSnapshot ::
  "(MsgProto option \<Rightarrow> nat) \<Rightarrow> int \<Rightarrow> network \<Rightarrow> u64 \<Rightarrow> u64 \<Rightarrow> bool \<Rightarrow> chan \<Rightarrow> restore_result \<times> chan" where
  "restoreMsgsFromSnapshot msize now serve first last_seq fromApply c =
     (let (first', c1) = restore_start first fromApply c in
      if first' > last_seq then (Restored, c1)
      else
        let (result, x) =
              restore_loop (Suc (Suc (unat last_seq - unat first'))) msize now serve first' last_seq first'
                \<lparr>x_store = c_msgs c1, x_firstSeq = c_firstSeq c1, x_queue = [], x_reqStart = first', x_reqEnd = 0,
                 x_stored = False, x_cnfcount = 0\<rparr>
        in (result, c1\<lparr>c_msgs := x_store x, c_firstSeq := x_firstSeq x\<rparr>))"

text \<open>What a node reports as the range of a channel, also when all its messages have expired.\<close>

definition getChannelFirstAndlLastSeq :: "env \<Rightarrow> chan \<Rightarrow> u64 \<times> u64" where
  "getChannelFirstAndlLastSeq e c =
     (let (first, last_seq) = FirstAndLastSequence (c_msgs c) in
      if e_clustered e \<and> first = 0 \<and> last_seq = 0 \<and> c_firstSeq c \<noteq> 0 then (c_firstSeq c, c_firstSeq c - 1)
      else (first, last_seq))"

end
