(* ===== verification/Channel_Store.thy ===== *)
theory Channel_Store
  imports Sub_Registry Store_Limits Msg_Restore
begin

text \<open>
  The server with its channels (\<open>channelStore\<close>, \<open>channel\<close> and the channel functions of
  \<open>server/server.go\<close>): lookup and creation of channels, their inactivity timers and their
  deletion. A pointer to a channel is its name. The stores of a channel are part of its record \<open>chan\<close>, so the
  store of the server only keeps the names of its channels.

  \<open>srv_env\<close> adds to \<open>env\<close> what a request gets from outside: options, failures of the
  stores and of Raft, answers of clients and of the leader, and fresh inboxes. Names are ASCII.
\<close>

section \<open>State\<close>

record options =
  o_ClientHBInterval :: int
  o_ClientHBFailCount :: int
  o_ReplaceDurable :: bool
  o_IOBatchSize :: nat
  o_ProceedOnRestoreFailure :: bool

record srv_env = env +
  e_opts :: options
  e_msize :: "MsgProto option \<Rightarrow> nat"
  e_evict :: "(string, ChannelLimits list) gomap \<Rightarrow> string"
  e_evictPart :: "(string, unit list) gomap \<Rightarrow> string"
  e_lastIndex :: bool
  e_setChannelID :: "string \<Rightarrow> bool"
  e_deleteChannelID :: "string \<Rightarrow> bool"
  e_createChannel :: "string \<Rightarrow> bool"
  e_deleteChannel :: "string \<Rightarrow> bool"
  e_storeMsg :: "MsgProto \<Rightarrow> bool"
  e_clientStore :: bool
  e_raft :: bool
  e_answers :: "string \<Rightarrow> bool"
  e_newInbox :: string
  e_signalled :: bool
  e_serve :: network

record pubMsg =
  pm_ClientID :: string
  pm_Guid :: string
  pm_Subject :: string
  pm_Reply :: string
  pm_Data :: bytes
  pm_ConnID :: bytes

datatype ioPendingMsg = IoMsg string pubMsg | IoDelete string

record connectResponse =
  cr_Error :: "srv_err option"
  cr_Protocol :: int
  cr_hasPings :: bool
  cr_PingInterval :: int
  cr_PingMaxOut :: int

datatype reply =
    ConnectReply connectResponse
  | CloseReply "srv_err option"
  | SubReply "srv_err option" string
  | PubAck string "srv_err option"
  | PingReply bool

record server =
  sv_channels :: "(string, chan) gomap"
  sv_channelsLC :: "(string, string) gomap"
  sv_store :: "unit genericStore"
  sv_clients :: clientStore
  sv_dupCIDs :: "(string, unit) gomap"
  sv_lastIndex :: u64
  sv_channelIDs :: "(string, u64) gomap"
  sv_partitions :: "unit sublist option"
  sv_ioChannel :: "ioPendingMsg list"
  sv_subStart :: "(subptr \<times> qref option \<times> bool) list"
  sv_replies :: "(string \<times> reply) list"

definition upd_chan :: "string \<Rightarrow> (chan \<Rightarrow> chan) \<Rightarrow> server \<Rightarrow> server" where
  "upd_chan name f s =
     (case mget (sv_channels s) name of None \<Rightarrow> s | Some c \<Rightarrow> s\<lparr>sv_channels := mput name (f c) (sv_channels s)\<rparr>)"

definition send_reply :: "string \<Rightarrow> reply \<Rightarrow> server \<Rightarrow> server" where
  "send_reply inbox r s = s\<lparr>sv_replies := sv_replies s @ [(inbox, r)]\<rparr>"

section \<open>Inactivity timers\<close>

definition resetDeleteTimer :: "int \<Rightarrow> channelActivity \<Rightarrow> channelActivity" where
  "resetDeleteTimer newDuration a = a\<lparr>a_timer := Some newDuration, a_timerSet := True\<rparr>"

definition startDeleteTimer :: "int \<Rightarrow> channelActivity \<Rightarrow> channelActivity" where
  "startDeleteTimer now a = resetDeleteTimer (a_maxInactivity a) (a\<lparr>a_last := now\<rparr>)"

definition stopDeleteTimer :: "channelActivity \<Rightarrow> channelActivity" where
  "stopDeleteTimer a = (if a_timer a \<noteq> None then a\<lparr>a_timerSet := False\<rparr> else a)"

definition upd_activity :: "(channelActivity \<Rightarrow> channelActivity) \<Rightarrow> chan \<Rightarrow> chan" where
  "upd_activity f c = c\<lparr>c_activity := map_option f (c_activity c)\<rparr>"

definition deleteInProgress :: "chan \<Rightarrow> bool" where
  "deleteInProgress c = (case c_activity c of None \<Rightarrow> False | Some a \<Rightarrow> a_deleteInProgress a)"

definition maybeStartChannelDeleteTimer :: "int \<Rightarrow> string \<Rightarrow> server \<Rightarrow> server" where
  "maybeStartChannelDeleteTimer now name s =
     upd_chan name
       (\<lambda>c. if \<not> deleteInProgress c \<and> \<not> hasActiveSubs c then upd_activity (startDeleteTimer now) c else c) s"

definition cs_stopDeleteTimer :: "string \<Rightarrow> server \<Rightarrow> server" where
  "cs_stopDeleteTimer name s =
     upd_chan name (upd_activity (\<lambda>a. (stopDeleteTimer a)\<lparr>a_deleteInProgress := False\<rparr>)) s"

definition turnOffPreventDelete :: "string \<Rightarrow> server \<Rightarrow> server" where
  "turnOffPreventDelete name s = upd_chan name (upd_activity (\<lambda>a. a\<lparr>a_preventDelete := False\<rparr>)) s"

section \<open>Lookup and creation\<close>

definition to_lower :: "char \<Rightarrow> char" where
  "to_lower x = (let n = of_char x :: nat in if 65 \<le> n \<and> n \<le> 90 then char_of (n + 32) else x)"

definition ToLower :: "string \<Rightarrow> string" where
  "ToLower name = map to_lower name"

definition newChannelStore :: "unit genericStore \<Rightarrow> server" where
  "newChannelStore st =
     \<lparr>sv_channels = [], sv_channelsLC = [], sv_store = st, sv_clients = newClientStore, sv_dupCIDs = [],
      sv_lastIndex = 0, sv_channelIDs = [], sv_partitions = None, sv_ioChannel = [], sv_subStart = [], sv_replies = []\<rparr>"

definition cs_get :: "string \<Rightarrow> server \<Rightarrow> chan option" where
  "cs_get name s = mget (sv_channels s) name"

definition getIfNotAboutToBeDeleted :: "string \<Rightarrow> server \<Rightarrow> chan option" where
  "getIfNotAboutToBeDeleted name s =
     (case mget (sv_channels s) name of Some c \<Rightarrow> if deleteInProgress c then None else Some c | None \<Rightarrow> None)"

definition checkCase :: "string \<Rightarrow> server \<Rightarrow> srv_err option" where
  "checkCase name s = (if mget (sv_channelsLC s) (ToLower name) \<noteq> None then Some ErrDifferentCase else None)"

definition blank_sub :: subState where
  "blank_sub =
     new_sub \<lparr>sr_ClientID = [], sr_Subject = [], sr_QGroup = [], sr_Inbox = [], sr_MaxInFlight = 0,
       sr_AckWaitInSecs = 0, sr_DurableName = [], sr_StartPosition = NewOnly, sr_StartSequence = 0,
       sr_StartTimeDelta = 0\<rparr> [] False"

text \<open>A channel with the empty maps of \<open>createSubStore\<close>.\<close>

definition new_chan :: "string \<Rightarrow> mem_channel \<Rightarrow> chan" where
  "new_chan name sc =
     \<lparr>c_name = name, c_id = 0, c_firstSeq = 0, c_nextSequence = LastSequence (snd sc) + 1, c_lTimestamp = 0,
      c_nextSubID = 1, c_lSeqChecked = False, c_activity = None, c_msgs = snd sc, c_substore = fst sc,
      c_heap = (\<lambda>_. blank_sub), c_qheap = (\<lambda>_. empty_queue), c_next = 0, c_qnext = 0,
      psubs = [], qsubs = [], durables = [], acks = [], inboxes = [], waiting = [], ready = [],
      c_slog = [], c_out = []\<rparr>"

definition cs_create :: "srv_env \<Rightarrow> string \<Rightarrow> mem_channel \<Rightarrow> server \<Rightarrow> server" where
  "cs_create e name sc s =
     (let s1 = s\<lparr>sv_channels := mput name (new_chan name sc) (sv_channels s),
                 sv_channelsLC := mput (ToLower name) name (sv_channelsLC s)\<rparr>;
          (cl, st) = GetChannelLimits (e_evict e) name (sv_store s1);
          s2 = s1\<lparr>sv_store := st\<rparr>
      in case cl of
           Some l \<Rightarrow>
             if MaxInactivity l > 0
             then upd_chan name (\<lambda>c. c\<lparr>c_activity := Some
                    \<lparr>a_last = 0, a_maxInactivity = MaxInactivity l, a_timer = None, a_deleteInProgress = False,
                     a_preventDelete = False, a_timerSet = False\<rparr>\<rparr>) s2
             else s2
         | None \<Rightarrow> s2)"

definition createChannelLocked :: "srv_env \<Rightarrow> string \<Rightarrow> u64 \<Rightarrow> server \<Rightarrow> srv_err option \<times> server" where
  "createChannelLocked e name i s =
     (case mget (sv_channels s) name of
        Some c \<Rightarrow> (if deleteInProgress c then Some ErrChanDelInProgress else None, s)
      | None \<Rightarrow>
          (case checkCase name s of
             Some err \<Rightarrow> (Some err, s)
           | None \<Rightarrow>
               let asks = (e_clustered e \<and> e_leader e \<and> i = 0);
                   i' = (if asks then sv_lastIndex s else i)
               in if asks \<and> \<not> e_lastIndex e then (Some StorageFailure, s)
                  else if e_clustered e \<and> \<not> e_setChannelID e name then (Some StorageFailure, s)
                  else
                    let s1 = (if e_clustered e then s\<lparr>sv_channelIDs := mput name i' (sv_channelIDs s)\<rparr> else s)
                    in case mem_CreateChannel (\<lambda>_. ()) (e_evict e) name (sv_store s1) of
                         (Inl err, _) \<Rightarrow> (Some (StoreErr err), s1)
                       | (Inr sc, st) \<Rightarrow>
                           if \<not> e_createChannel e name then (Some StorageFailure, s1)
                           else
                             let s2 = upd_chan name (\<lambda>c. c\<lparr>c_id := i'\<rparr>) (cs_create e name sc (s1\<lparr>sv_store := st\<rparr>))
                             in (None,
                                 if isStandaloneOrLeader (env.truncate e)
                                 then upd_chan name (upd_activity (startDeleteTimer (e_now e))) s2 else s2)))"

definition lookupOrCreateChannel :: "srv_env \<Rightarrow> string \<Rightarrow> server \<Rightarrow> srv_err option \<times> server" where
  "lookupOrCreateChannel e name s =
     (case mget (sv_channels s) name of
        Some c \<Rightarrow> (if deleteInProgress c then Some ErrChanDelInProgress else None, s)
      | None \<Rightarrow>
          (case checkCase name s of
             Some err \<Rightarrow> (Some err, s)
           | None \<Rightarrow> createChannelLocked e name 0 s))"

text \<open>It also returns whether deletion of the channel is now prevented.\<close>

definition lookupOrCreateChannelPreventDelete :: "srv_env \<Rightarrow> string \<Rightarrow> server \<Rightarrow> (srv_err + bool) \<times> server" where
  "lookupOrCreateChannelPreventDelete e name s =
     (let (err, s1) =
            (case mget (sv_channels s) name of
               Some c \<Rightarrow> (if deleteInProgress c then Some ErrChanDelInProgress else None, s)
             | None \<Rightarrow>
                 (case checkCase name s of
                    Some err \<Rightarrow> (Some err, s)
                  | None \<Rightarrow> createChannelLocked e name 0 s))
      in case err of
           Some x \<Rightarrow> (Inl x, s1)
         | None \<Rightarrow>
             (Inr (case cs_get name s1 of Some c \<Rightarrow> c_activity c \<noteq> None | None \<Rightarrow> False),
              upd_chan name (upd_activity (\<lambda>a. stopDeleteTimer (a\<lparr>a_preventDelete := True\<rparr>))) s1))"

definition msgsState :: "string \<Rightarrow> server \<Rightarrow> (int \<times> u64) option" where
  "msgsState name s =
     (if name \<noteq> [] then map_option (\<lambda>c. State (c_msgs c)) (cs_get name s)
      else Some (sum_list (map (\<lambda>(_, c). fst (State (c_msgs c))) (sv_channels s)),
                 sum_list (map (\<lambda>(_, c). snd (State (c_msgs c))) (sv_channels s))))"

definition numSubs :: "server \<Rightarrow> nat" where
  "numSubs s = sum_list (map (\<lambda>(_, c). chan_numSubs c) (sv_channels s))"

section \<open>Messages\<close>

definition pubMsgToMsgProto :: "int \<Rightarrow> pubMsg \<Rightarrow> u64 \<Rightarrow> chan \<Rightarrow> MsgProto \<times> chan" where
  "pubMsgToMsgProto now pm seq c =
     (let t = (if c_lTimestamp c > 0 \<and> now < c_lTimestamp c then c_lTimestamp c else now)
      in (\<lparr>Sequence = seq, Subject = pm_Subject pm, Reply = pm_Reply pm, Data = pm_Data pm, Timestamp = t,
           Redelivered = False, RedeliveryCount = 0, CRC32 = 0\<rparr>, c\<lparr>c_lTimestamp := t\<rparr>))"

section \<open>Deletion\<close>

definition drop_channel :: "string \<Rightarrow> server \<Rightarrow> server" where
  "drop_channel name s =
     s\<lparr>sv_channels := mdel name (sv_channels s), sv_channelsLC := mdel (ToLower name) (sv_channelsLC s)\<rparr>"

text \<open>Deletion from the store and, in a cluster, of the channel's ID.\<close>

definition delete_stored :: "srv_env \<Rightarrow> bool \<Rightarrow> string \<Rightarrow> server \<Rightarrow> bool \<times> server" where
  "delete_stored e withID name s =
     (let (err, st) = deleteChannel (\<lambda>c. (e_deleteChannel e name, c)) name (sv_store s);
          s1 = s\<lparr>sv_store := st\<rparr>
      in if err \<noteq> None then (False, s1)
         else if withID then
           (if e_deleteChannelID e name then (True, s1\<lparr>sv_channelIDs := mdel name (sv_channelIDs s1)\<rparr>) else (False, s1))
         else (True, s1))"

definition restart_delete :: "srv_env \<Rightarrow> bool \<Rightarrow> string \<Rightarrow> server \<Rightarrow> server" where
  "restart_delete e active name s =
     (if active then upd_chan name (upd_activity (\<lambda>a. startDeleteTimer (e_now e) (a\<lparr>a_deleteInProgress := False\<rparr>))) s
      else s)"

definition processDeleteChannel :: "srv_env \<Rightarrow> string \<Rightarrow> server \<Rightarrow> server" where
  "processDeleteChannel e name s =
     (case mget (sv_channels s) name of
        None \<Rightarrow> s
      | Some c \<Rightarrow>
          if (case c_activity c of Some a \<Rightarrow> a_preventDelete a | None \<Rightarrow> False) then s
          else
            let (ok, s1) = delete_stored e (e_clustered e) name s
            in if \<not> ok then restart_delete e (isStandaloneOrLeader (env.truncate e)) name s1 else drop_channel name s1)"

end
