(* ===== verification/Replication.thy ===== *)
theory Replication
  imports Delivery
begin

text \<open>
  Replication of sent and acknowledged sequences from the leader to the followers
  (\<open>server/server.go\<close>). The leader collects them per subscription (\<open>collectSentOrAck\<close>, in
  \<open>Delivery\<close>), a long-lived routine turns them into Raft operations, and a follower applies
  these to its own subscription. An operation that is to be replicated is returned to the caller,
  which hands it to Raft.
\<close>

section \<open>Leader\<close>

record spbSubSentAndAck =
  sa_Channel :: string
  sa_AckInbox :: string
  sa_Sent :: "u64 list"
  sa_Ack :: "u64 list"

definition fillSentOrAckSeqs :: "subSentAndAck \<Rightarrow> u64 list \<Rightarrow> u64 list" where
  "fillSentOrAckSeqs x seqMap = seqMap @ (if r_hiAckSeq x > 0 then [r_hiAckSeq x] else [])"

text \<open>The protocol and the record with its two maps emptied.\<close>

definition createSubSentAndAckProto :: "subState \<Rightarrow> subSentAndAck \<Rightarrow> spbSubSentAndAck \<times> subSentAndAck" where
  "createSubSentAndAckProto sub x =
     (\<lparr>sa_Channel = sub_subject sub, sa_AckInbox = AckInbox sub,
       sa_Sent = fillSentOrAckSeqs x (r_sent x), sa_Ack = fillSentOrAckSeqs x (r_ack x)\<rparr>,
      x\<lparr>r_sent := [], r_ack := []\<rparr>)"

definition has_collected :: "subSentAndAck \<Rightarrow> bool" where
  "has_collected x \<longleftrightarrow> length (r_sent x) + length (r_ack x) > 0 \<or> r_hiAckSeq x > 0"

text \<open>\<open>replicateSubSentAndAck\<close> up to the Raft call, and its end.\<close>

definition replicateSubSentAndAck :: "sref \<Rightarrow> chan \<Rightarrow> spbSubSentAndAck option \<times> chan" where
  "replicateSubSentAndAck r c =
     (case sub_replicate (sub_at c r) of
        None \<Rightarrow> (None, c)
      | Some x \<Rightarrow>
          if has_collected x then
            let (ssa, x') = createSubSentAndAckProto (sub_at c r) x
            in (Some ssa, upd_sub r (\<lambda>s. s\<lparr>sub_replicate := Some (x'\<lparr>r_hiSentSeq := 0, r_hiAckSeq := 0, r_applying := True\<rparr>)\<rparr>) c)
          else (None, c))"

definition replicated :: "sref \<Rightarrow> chan \<Rightarrow> chan" where
  "replicated r = upd_sub r (\<lambda>s. s\<lparr>sub_replicate := map_option (\<lambda>x. x\<lparr>r_applying := False\<rparr>) (sub_replicate s)\<rparr>)"

definition clearSentAndAck :: "sref \<Rightarrow> chan \<Rightarrow> chan" where
  "clearSentAndAck r c =
     upd_sub r (\<lambda>s. s\<lparr>sub_replicate := map_option
        (\<lambda>x. x\<lparr>r_sent := [], r_ack := [], r_hiSentSeq := 0, r_hiAckSeq := 0, r_stopped := True\<rparr>) (sub_replicate s)\<rparr>)
       (c\<lparr>waiting := removeAll r (waiting c), ready := removeAll r (ready c)\<rparr>)"

text \<open>\<open>waited\<close> is whether a replication that was going on finished in time.\<close>

definition endSubSentAndAckReplication :: "bool \<Rightarrow> sref \<Rightarrow> bool \<Rightarrow> chan \<Rightarrow> spbSubSentAndAck option \<times> chan" where
  "endSubSentAndAckReplication waited r unsub c =
     (let sub = sub_at c r in
      case sub_replicate sub of
        None \<Rightarrow> (None, c)
      | Some x \<Rightarrow>
          if r_stopped x then (None, c)
          else
            let data = (if \<not> unsub \<and> (IsDurable sub \<or> qstate sub \<noteq> None) \<and> has_collected x
                        then Some (fst (createSubSentAndAckProto sub x)) else None)
            in (if r_applying x \<and> \<not> waited then None else data, clearSentAndAck r c))"

text \<open>One pass of the routine: \<open>flush\<close>, and the tick of its timer when nobody has signalled it.\<close>

fun flush_loop :: "sref list \<Rightarrow> chan \<Rightarrow> spbSubSentAndAck list \<times> chan" where
  "flush_loop [] c = ([], c)"
| "flush_loop (r # rs) c =
     (let (ssa, c1) = replicateSubSentAndAck r (c\<lparr>ready := removeAll r (ready c)\<rparr>);
          c2 = (if ssa = None then c1 else replicated r c1);
          (out, c3) = flush_loop rs c2
      in ((case ssa of None \<Rightarrow> out | Some x \<Rightarrow> x # out), c3))"

definition replicator_flush :: "chan \<Rightarrow> spbSubSentAndAck list \<times> chan" where
  "replicator_flush c = flush_loop (ready c) c"

definition replicator_tick :: "bool \<Rightarrow> chan \<Rightarrow> spbSubSentAndAck list \<times> chan" where
  "replicator_tick notified c =
     (let c1 = c\<lparr>ready := fold List.insert (waiting c) (ready c), waiting := []\<rparr>
      in if waiting c \<noteq> [] \<and> \<not> notified then replicator_flush c1 else ([], c1))"

section \<open>Follower\<close>

definition apply_sent :: "sref \<Rightarrow> u64 \<Rightarrow> chan \<Rightarrow> chan" where
  "apply_sent r sequence c =
     (let c1 = upd_sub r (bump_lastSent sequence) c;
          c2 = (case qstate (sub_at c1 r) of
                  None \<Rightarrow> c1
                | Some q \<Rightarrow> upd_queue q (\<lambda>qs. if sequence > q_lastSent qs then qs\<lparr>q_lastSent := sequence\<rparr> else qs) c1)
      in upd_sub r (set_pending sequence 0) c2)"

definition apply_ack :: "sref \<Rightarrow> u64 \<Rightarrow> chan \<Rightarrow> chan" where
  "apply_ack r sequence = upd_sub r (\<lambda>s. s\<lparr>acksPending := mdel sequence (acksPending s)\<rparr>)"

text \<open>\<open>processReplicatedSendAndAck\<close> once the channel is known.\<close>

definition processReplicatedSendAndAck :: "spbSubSentAndAck \<Rightarrow> chan \<Rightarrow> chan" where
  "processReplicatedSendAndAck ssa c =
     (case mget (acks c) (sa_AckInbox ssa) of
        None \<Rightarrow> c
      | Some r \<Rightarrow>
          upd_sub r (\<lambda>s. s\<lparr>stalled := (int (length (acksPending s)) \<ge> MaxInFlight s)\<rparr>)
            (fold (apply_ack r) (sa_Ack ssa) (fold (apply_sent r) (sa_Sent ssa) c)))"

section \<open>Changes of leadership\<close>

definition subChangesOnLeadershipAcquired :: "sref \<Rightarrow> chan \<Rightarrow> chan" where
  "subChangesOnLeadershipAcquired r =
     upd_sub r (\<lambda>s. s\<lparr>sub_replicate := map_option (\<lambda>x. x\<lparr>r_stopped := False\<rparr>) (sub_replicate s)\<rparr>)"

definition subChangesOnLeadershipLost :: "sref \<Rightarrow> chan \<Rightarrow> chan" where
  "subChangesOnLeadershipLost r c =
     clearSentAndAck r (upd_sub r (\<lambda>s. clearAckTimer (stopAckSub (s\<lparr>rdlvCount := []\<rparr>))) c)"

end
