(* ===== verification/Server.thy ===== *)
theory Server
  imports Channel_Store Replication
begin

text \<open>
  The request handlers of \<open>server/server.go\<close> and the state machine of \<open>server/clustering.go\<close>:
  connections, heartbeats, subscriptions, and the publication of messages.

  A handler gets the decoded request, or \<open>None\<close> when it cannot be decoded, and the subject to
  reply to. \<open>Raft.Apply\<close> either fails or applies the operation to this server and returns the
  response of the state machine. The protocol barrier and the hand-over to other goroutines are
  the order in which the definitions are called.
\<close>

section \<open>Closing a client\<close>

definition remove_sub :: "srv_env \<Rightarrow> subptr \<Rightarrow> server \<Rightarrow> server" where
  "remove_sub e = (\<lambda>(channel, r) s. upd_chan channel (subStore_Remove (env.truncate e) r False) s)"

definition removeAllNonDurableSubscribers :: "srv_env \<Rightarrow> client \<Rightarrow> server \<Rightarrow> server" where
  "removeAllNonDurableSubscribers e cl s =
     (let s1 = fold (remove_sub e) (cl_subs cl) s;
          channels = remdups (filter (\<lambda>n. n \<in> set (map fst (sv_channels s))) (map fst (cl_subs cl)))
      in fold (maybeStartChannelDeleteTimer (e_now e)) channels s1)"

definition closeClient :: "srv_env \<Rightarrow> string \<Rightarrow> server \<Rightarrow> srv_err option \<times> server" where
  "closeClient e clientID s =
     (case lookup_client clientID (sv_clients s) of
        None \<Rightarrow> (Some ErrUnknownClient, s)
      | Some cl \<Rightarrow>
          let (_, cs) = unregister (e_clientStore e) clientID (sv_clients s)
          in (None, removeAllNonDurableSubscribers e cl (s\<lparr>sv_clients := cs\<rparr>)))"

section \<open>Connecting\<close>

record connectRequest =
  cq_ClientID :: string
  cq_HeartbeatInbox :: string
  cq_ConnID :: bytes
  cq_Protocol :: int
  cq_PingInterval :: int
  cq_PingMaxOut :: int

definition clientIDRegEx :: "string \<Rightarrow> bool" where
  "clientIDRegEx i \<longleftrightarrow>
     i \<noteq> [] \<and>
     list_all (\<lambda>x. let n = of_char x :: nat
                   in (97 \<le> n \<and> n \<le> 122) \<or> (65 \<le> n \<and> n \<le> 90) \<or> (48 \<le> n \<and> n \<le> 57) \<or> n = 95 \<or> n = 45) i"

definition protocolOne :: int where
  "protocolOne = 1"

definition processConnect :: "srv_env \<Rightarrow> connectRequest \<Rightarrow> bool \<Rightarrow> server \<Rightarrow> srv_err option \<times> server" where
  "processConnect e req replaceOld s =
     (let s1 = (if replaceOld then snd (closeClient e (cq_ClientID req) s) else s)
      in case register (e_clientStore e)
                \<lparr>ci_ID = cq_ClientID req, ci_HbInbox = cq_HeartbeatInbox req, ci_ConnID = cq_ConnID req,
                 ci_Protocol = cq_Protocol req, ci_PingInterval = cq_PingInterval req,
                 ci_PingMaxOut = cq_PingMaxOut req\<rparr> (sv_clients s1) of
           (Inl err, cs) \<Rightarrow> (Some (ErrClient err), s1\<lparr>sv_clients := cs\<rparr>)
         | (Inr _, cs) \<Rightarrow> (None, s1\<lparr>sv_clients := cs\<rparr>))"

definition finishConnectRequest :: "srv_env \<Rightarrow> connectRequest \<Rightarrow> string \<Rightarrow> server \<Rightarrow> server" where
  "finishConnectRequest e req replyInbox s =
     (let s1 = s\<lparr>sv_clients := setClientHB (cq_ClientID req) (o_ClientHBInterval (e_opts e)) (sv_clients s)\<rparr>;
          pings = (cq_Protocol req \<ge> protocolOne)
      in send_reply replyInbox
           (ConnectReply \<lparr>cr_Error = None, cr_Protocol = protocolOne, cr_hasPings = pings,
              cr_PingInterval = (if pings then cq_PingInterval req else 0),
              cr_PingMaxOut = (if pings then cq_PingMaxOut req else 0)\<rparr>) s1)"

definition sendConnectErr :: "string \<Rightarrow> srv_err \<Rightarrow> server \<Rightarrow> server" where
  "sendConnectErr replyInbox err =
     send_reply replyInbox
       (ConnectReply \<lparr>cr_Error = Some err, cr_Protocol = 0, cr_hasPings = False, cr_PingInterval = 0, cr_PingMaxOut = 0\<rparr>)"

section \<open>The replicated state machine\<close>

record unsubRequest =
  ur_ClientID :: string
  ur_Subject :: string
  ur_Inbox :: string

datatype raftOperation =
    OpPublish u64 "MsgProto list"
  | OpConnect connectRequest bool
  | OpDisconnect string
  | OpSubscribe u64 subRequest string u64
  | OpRemoveSubscription unsubRequest
  | OpCloseSubscription unsubRequest
  | OpSendAndAck spbSubSentAndAck
  | OpDeleteChannel string u64

datatype raft_resp = RespErr "srv_err option" | RespSub "srv_err + subptr" | RespPanic

definition fsm_lookupChannel :: "string \<Rightarrow> u64 \<Rightarrow> server \<Rightarrow> chan option" where
  "fsm_lookupChannel name i s =
     (case mget (sv_channels s) name of
        Some c \<Rightarrow> if i = 0 \<or> c_id c = 0 \<or> c_id c = i then Some c else None
      | None \<Rightarrow> None)"

text \<open>
  The result is an error, or whether there is a channel. The subscriptions of a channel that is
  replaced are still referenced by their clients, so the new channel keeps the heaps.
\<close>

definition keep_heaps :: "chan \<Rightarrow> chan \<Rightarrow> chan" where
  "keep_heaps old c = c\<lparr>c_heap := c_heap old, c_qheap := c_qheap old, c_next := c_next old, c_qnext := c_qnext old\<rparr>"

definition fsm_lookupOrCreateChannel :: "srv_env \<Rightarrow> string \<Rightarrow> u64 \<Rightarrow> server \<Rightarrow> (srv_err + bool) \<times> server" where
  "fsm_lookupOrCreateChannel e name i s =
     (case mget (sv_channels s) name of
        None \<Rightarrow>
          (case createChannelLocked e name i s of (Some err, s1) \<Rightarrow> (Inl err, s1) | (None, s1) \<Rightarrow> (Inr True, s1))
      | Some c \<Rightarrow>
          if i = 0 \<or> c_id c = 0 \<or> c_id c = i then (Inr True, s)
          else if c_id c > i then (Inr False, s)
          else
            let (ok, s1) = delete_stored e True name s in
            if \<not> ok then (Inl StorageFailure, restart_delete e (e_leader e) name s1)
            else
              case createChannelLocked e name i (drop_channel name s1) of
                (Some err, s2) \<Rightarrow> (Inl err, s2)
              | (None, s2) \<Rightarrow> (Inr True, upd_chan name (keep_heaps c) s2))"

text \<open>The storing of a batch of replicated messages; false is the panic.\<close>

fun store_batch :: "srv_env \<Rightarrow> MsgProto list \<Rightarrow> chan \<Rightarrow> bool \<times> chan" where
  "store_batch e [] c = (True, c)"
| "store_batch e (m # ms) c =
     (if \<not> e_storeMsg e m then (False, c)
      else store_batch e ms (c\<lparr>c_msgs := snd (Store (e_msize e) (e_now e) m (c_msgs c))\<rparr>))"

definition check_lastSeq :: "srv_env \<Rightarrow> u64 \<Rightarrow> chan \<Rightarrow> bool \<times> chan" where
  "check_lastSeq e seq c =
     (if c_lSeqChecked c then (True, c)
      else
        let (result, c1) =
              (if seq > 1 then restoreMsgsFromSnapshot (e_msize e) (e_now e) (e_serve e) 1 (seq - 1) True c
               else (Restored, c))
        in if result = Restored then (True, c1\<lparr>c_lSeqChecked := True\<rparr>) else (False, c1))"

definition apply_publish :: "srv_env \<Rightarrow> u64 \<Rightarrow> MsgProto list \<Rightarrow> server \<Rightarrow> raft_resp \<times> server" where
  "apply_publish e channelID msgs s =
     (case msgs of
        [] \<Rightarrow> (RespErr None, s)
      | m # _ \<Rightarrow>
          (case fsm_lookupOrCreateChannel e (Subject m) channelID s of
             (Inl err, s1) \<Rightarrow> (RespPanic, s1)
           | (Inr False, s1) \<Rightarrow> (RespErr None, s1)
           | (Inr True, s1) \<Rightarrow>
               (case cs_get (Subject m) s1 of
                  None \<Rightarrow> (RespPanic, s1)
                | Some c \<Rightarrow>
                    let (ok, c1) = check_lastSeq e (Sequence m) c;
                        (ok', c2) = (if ok then store_batch e msgs c1 else (False, c1))
                    in (if ok' then RespErr (if e_flush e then None else Some StorageFailure) else RespPanic,
                        upd_chan (Subject m) (\<lambda>_. c2) s1))))"

text \<open>\<open>processSub\<close> and \<open>unsubscribeSub\<close> on the server.\<close>

definition srv_processSub :: "srv_env \<Rightarrow> string \<Rightarrow> subRequest \<Rightarrow> string \<Rightarrow> u64 \<Rightarrow> server \<Rightarrow> (srv_err + subptr) \<times> server" where
  "srv_processSub e name sr ackInbox subID s =
     (case cs_get name s of
        None \<Rightarrow> (Inl ErrUnknownChannel, s)
      | Some c \<Rightarrow>
          (case processSub (env.truncate e) sr ackInbox subID (c, sv_clients s) of
             (res, c1, cs1) \<Rightarrow>
               (map_sum id (\<lambda>r. (name, r)) res, upd_chan name (\<lambda>_. c1) (s\<lparr>sv_clients := cs1\<rparr>))))"

definition srv_unsubscribeSub :: "srv_env \<Rightarrow> string \<Rightarrow> string \<Rightarrow> sref \<Rightarrow> bool \<Rightarrow> bool \<Rightarrow> server \<Rightarrow> srv_err option \<times> server" where
  "srv_unsubscribeSub e name clientID r isSubClose shouldFlush s =
     (case cs_get name s of
        None \<Rightarrow> (Some ErrUnknownChannel, s)
      | Some c \<Rightarrow>
          (case unsubscribeSub (env.truncate e) clientID r isSubClose shouldFlush (c, sv_clients s) of
             (err, c1, cs1) \<Rightarrow> (err, upd_chan name (\<lambda>_. c1) (s\<lparr>sv_clients := cs1\<rparr>))))"

text \<open>The channel is unknown, or the subscription is, or there are both.\<close>

definition getChannelAndSubForSubCloseOrUnsub :: "unsubRequest \<Rightarrow> server \<Rightarrow> (chan \<times> sref option) option" where
  "getChannelAndSubForSubCloseOrUnsub req s =
     map_option (\<lambda>c. (c, case LookupByAckInbox (ur_Inbox req) c of Some r \<Rightarrow> Some r | None \<Rightarrow> LookupByInbox (ur_Inbox req) c))
       (cs_get (ur_Subject req) s)"

definition apply_unsub :: "srv_env \<Rightarrow> unsubRequest \<Rightarrow> bool \<Rightarrow> server \<Rightarrow> raft_resp \<times> server" where
  "apply_unsub e req isSubClose s =
     (case getChannelAndSubForSubCloseOrUnsub req s of
        Some (c, Some r) \<Rightarrow>
          (let (err, s1) = srv_unsubscribeSub e (ur_Subject req) (ur_ClientID req) r isSubClose True s in (RespErr err, s1))
      | _ \<Rightarrow> (RespErr None, s))"

definition apply_subscribe :: "srv_env \<Rightarrow> u64 \<Rightarrow> subRequest \<Rightarrow> string \<Rightarrow> u64 \<Rightarrow> server \<Rightarrow> raft_resp \<times> server" where
  "apply_subscribe e channelID sr ackInbox subID s =
     (case fsm_lookupOrCreateChannel e (sr_Subject sr) channelID s of
        (Inl err, s1) \<Rightarrow> (RespSub (Inl err), s1)
      | (Inr False, s1) \<Rightarrow> (RespSub (Inl WrongChannelID), s1)
      | (Inr True, s1) \<Rightarrow>
          (let (res, s2) = srv_processSub e (sr_Subject sr) sr ackInbox subID s1 in (RespSub res, s2)))"

definition fsm_Apply :: "srv_env \<Rightarrow> raftOperation \<Rightarrow> server \<Rightarrow> raft_resp \<times> server" where
  "fsm_Apply e op s =
     (case op of
        OpPublish channelID msgs \<Rightarrow> apply_publish e channelID msgs s
      | OpConnect req refresh \<Rightarrow> (let (err, s1) = processConnect e req refresh s in (RespErr err, s1))
      | OpDisconnect clientID \<Rightarrow> (let (err, s1) = closeClient e clientID s in (RespErr err, s1))
      | OpSubscribe channelID sr ackInbox subID \<Rightarrow> apply_subscribe e channelID sr ackInbox subID s
      | OpRemoveSubscription req \<Rightarrow> apply_unsub e req False s
      | OpCloseSubscription req \<Rightarrow> apply_unsub e req True s
      | OpSendAndAck ssa \<Rightarrow>
          if e_leader e then (RespErr None, s)
          else
            (case lookupOrCreateChannel e (sa_Channel ssa) s of
               (Some err, s1) \<Rightarrow> (RespErr None, s1)
             | (None, s1) \<Rightarrow> (RespErr None, upd_chan (sa_Channel ssa) (processReplicatedSendAndAck ssa) s1))
      | OpDeleteChannel name channelID \<Rightarrow>
          (case fsm_lookupChannel name channelID s of
             None \<Rightarrow> (RespErr None, s)
           | Some _ \<Rightarrow> (RespErr None, processDeleteChannel e name s)))"

text \<open>\<open>Raft.Apply\<close> on the leader: \<open>None\<close> is an error of the future.\<close>

definition raft_Apply :: "srv_env \<Rightarrow> raftOperation \<Rightarrow> server \<Rightarrow> raft_resp option \<times> server" where
  "raft_Apply e op s =
     (if \<not> e_raft e then (None, s)
      else let (resp, s1) = fsm_Apply e op (s\<lparr>sv_lastIndex := sv_lastIndex s + 1\<rparr>) in (Some resp, s1))"

definition waitForReplicationErrResponse :: "raft_resp option \<Rightarrow> srv_err option" where
  "waitForReplicationErrResponse f =
     (case f of None \<Rightarrow> Some RaftFailure | Some (RespErr err) \<Rightarrow> err | Some _ \<Rightarrow> Some Panic)"

end
