(* ===== verification/Server_Handlers.thy ===== *)
theory Server_Handlers
  imports Server
begin

text \<open>
  The handlers of the protocol of \<open>server/server.go\<close>: connect, heartbeat, close, ping, subscribe,
  unsubscribe and close of a subscription, publish, and the loop that stores published messages.
\<close>

section \<open>Connections\<close>

definition replicateConnect :: "srv_env \<Rightarrow> connectRequest \<Rightarrow> bool \<Rightarrow> server \<Rightarrow> srv_err option \<times> server" where
  "replicateConnect e req refresh s =
     (let (f, s1) = raft_Apply e (OpConnect req refresh) s in (waitForReplicationErrResponse f, s1))"

definition handleConnect :: "srv_env \<Rightarrow> connectRequest \<Rightarrow> string \<Rightarrow> bool \<Rightarrow> server \<Rightarrow> server" where
  "handleConnect e req reply replaceOld s =
     (let (err, s1) = (if e_clustered e then replicateConnect e req replaceOld s else processConnect e req replaceOld s)
      in case err of
           Some x \<Rightarrow> sendConnectErr reply x s1
         | None \<Rightarrow> finishConnectRequest e req reply s1)"

text \<open>
  \<open>connectCB\<close>: when the client ID is already registered, the request goes on in another
  goroutine, which pings the heartbeat inbox that is returned.
\<close>

definition connectCB :: "srv_env \<Rightarrow> connectRequest option \<Rightarrow> string \<Rightarrow> server \<Rightarrow> string option \<times> server" where
  "connectCB e data reply s =
     (case data of
        None \<Rightarrow> (None, sendConnectErr reply ErrInvalidConnReq s)
      | Some req \<Rightarrow>
          if cq_HeartbeatInbox req = [] then (None, sendConnectErr reply ErrInvalidConnReq s)
          else if \<not> clientIDRegEx (cq_ClientID req) then (None, sendConnectErr reply ErrInvalidClientID s)
          else
            (case lookup_client (cq_ClientID req) (sv_clients s) of
               None \<Rightarrow> (None, handleConnect e req reply False s)
             | Some cl \<Rightarrow>
                 if mget (sv_dupCIDs s) (cq_ClientID req) \<noteq> None
                 then (None, sendConnectErr reply (ErrClient ErrInvalidClient) s)
                 else (Some (ci_HbInbox (cl_info cl)),
                       s\<lparr>sv_dupCIDs := mput (cq_ClientID req) () (sv_dupCIDs s)\<rparr>)))"

definition isDuplicateConnect :: "srv_env \<Rightarrow> string \<Rightarrow> bool" where
  "isDuplicateConnect e hbInbox = e_answers e hbInbox"

definition connect_duplicate :: "srv_env \<Rightarrow> connectRequest \<Rightarrow> string \<Rightarrow> string \<Rightarrow> server \<Rightarrow> server" where
  "connect_duplicate e req reply hbInbox s =
     (let s1 = (if isDuplicateConnect e hbInbox then sendConnectErr reply (ErrClient ErrInvalidClient) s
                else handleConnect e req reply True s)
      in s1\<lparr>sv_dupCIDs := mdel (cq_ClientID req) (sv_dupCIDs s1)\<rparr>)"

text \<open>The end of the replication of a subscription's sent and acknowledged sequences.\<close>

definition end_replication :: "srv_env \<Rightarrow> bool \<Rightarrow> subptr \<Rightarrow> server \<Rightarrow> server" where
  "end_replication e unsub = (\<lambda>(name, r) s.
     (case cs_get name s of
        None \<Rightarrow> s
      | Some c \<Rightarrow>
          (case endSubSentAndAckReplication (e_signalled e) r unsub c of
             (None, c1) \<Rightarrow> upd_chan name (\<lambda>_. c1) s
           | (Some ssa, c1) \<Rightarrow> snd (raft_Apply e (OpSendAndAck ssa) (upd_chan name (\<lambda>_. c1) s)))))"

definition replicateConnClose :: "srv_env \<Rightarrow> string \<Rightarrow> bool \<Rightarrow> server \<Rightarrow> srv_err option \<times> server" where
  "replicateConnClose e clientID flushSubAcks s =
     (let s1 = (if flushSubAcks then fold (end_replication e False) (getSubs clientID (sv_clients s)) s else s);
          (f, s2) = raft_Apply e (OpDisconnect clientID) s1
      in (waitForReplicationErrResponse f, s2))"

definition processCloseRequest :: "srv_env \<Rightarrow> string option \<Rightarrow> string \<Rightarrow> server \<Rightarrow> server" where
  "processCloseRequest e data reply s =
     (case data of
        None \<Rightarrow> send_reply reply (CloseReply (Some ErrInvalidCloseReq)) s
      | Some clientID \<Rightarrow>
          let (err, s1) = (if e_clustered e then replicateConnClose e clientID True s else closeClient e clientID s)
          in send_reply reply (CloseReply err) s1)"

definition set_failedHB :: "bool \<Rightarrow> subptr \<Rightarrow> server \<Rightarrow> server" where
  "set_failedHB b = (\<lambda>(name, r) s. upd_chan name (upd_sub r (\<lambda>x. x\<lparr>hasFailedHB := b\<rparr>)) s)"

definition checkClientHealth :: "srv_env \<Rightarrow> string \<Rightarrow> server \<Rightarrow> server" where
  "checkClientHealth e clientID s =
     (case lookup_client clientID (sv_clients s) of
        None \<Rightarrow> s
      | Some cl \<Rightarrow>
          let interval = o_ClientHBInterval (e_opts e) in
          if e_clustered e \<and> \<not> e_leader e
          then s\<lparr>sv_clients := upd_client clientID (\<lambda>c. if cl_hbt c \<noteq> None then c\<lparr>cl_hbt := Some interval\<rparr> else c) (sv_clients s)\<rparr>
          else if cl_hbt cl = None then s
          else
            let answered = e_answers e (ci_HbInbox (cl_info cl));
                fhb = (if answered then 0 else cl_fhb cl + 1);
                s1 = s\<lparr>sv_clients := upd_client clientID (\<lambda>c. c\<lparr>cl_fhb := fhb\<rparr>) (sv_clients s)\<rparr>
            in if \<not> answered \<and> fhb > o_ClientHBFailCount (e_opts e)
               then (if e_clustered e then snd (replicateConnClose e clientID False s1) else snd (closeClient e clientID s1))
               else
                 let s2 = s1\<lparr>sv_clients := upd_client clientID (\<lambda>c. c\<lparr>cl_hbt := Some interval\<rparr>) (sv_clients s1)\<rparr>
                 in if (cl_fhb cl > 0) \<noteq> (fhb > 0) then fold (set_failedHB (fhb > 0)) (getSubsCopy cl) s2 else s2)"

definition processClientPings :: "bytes option \<Rightarrow> string \<Rightarrow> server \<Rightarrow> server" where
  "processClientPings data reply s =
     (case data of
        None \<Rightarrow> s
      | Some connID \<Rightarrow>
          (case lookupByConnID connID (sv_clients s) of
             None \<Rightarrow> send_reply reply (PingReply False) s
           | Some cl \<Rightarrow>
               send_reply reply (PingReply True)
                 (if cl_fhb cl > 0
                  then s\<lparr>sv_clients := upd_client (ci_ID (cl_info cl))
                         (\<lambda>c. if cl_hbt c \<noteq> None then c\<lparr>cl_hbt := Some 1000000\<rparr> else c) (sv_clients s)\<rparr>
                  else s)))"

section \<open>Subscriptions\<close>

text \<open>Whether the client is known. With partitions a request may have to wait for the connect request.\<close>

definition client_valid :: "srv_env \<Rightarrow> string \<Rightarrow> bytes \<Rightarrow> server \<Rightarrow> bool \<times> server" where
  "client_valid e clientID connID s =
     (if sv_partitions s = None then (isValid clientID connID (sv_clients s), s)
      else
        case isValidWithTimeout clientID connID (sv_clients s) of
          (Some b, cs) \<Rightarrow> (b, s\<lparr>sv_clients := cs\<rparr>)
        | (None, cs) \<Rightarrow> (let (b, cs') = waitTimeout (e_signalled e) clientID connID cs in (b, s\<lparr>sv_clients := cs'\<rparr>)))"

definition in_partition :: "srv_env \<Rightarrow> string \<Rightarrow> server \<Rightarrow> bool \<times> server" where
  "in_partition e subject s =
     (case sv_partitions s of
        None \<Rightarrow> (True, s)
      | Some sl \<Rightarrow> (let (r, sl') = Match (e_evictPart e) subject sl in (length r > 0, s\<lparr>sv_partitions := Some sl'\<rparr>)))"

text \<open>\<open>sendSubscriptionResponseErr\<close>.\<close>

definition send_subErr :: "string \<Rightarrow> srv_err option \<Rightarrow> server \<Rightarrow> server" where
  "send_subErr reply err s = (if reply = [] then s else send_reply reply (SubReply err []) s)"

definition replicateSubCloseOrUnsubscribe ::
  "srv_env \<Rightarrow> unsubRequest \<Rightarrow> bool \<Rightarrow> subptr \<Rightarrow> server \<Rightarrow> srv_err option \<times> server" where
  "replicateSubCloseOrUnsubscribe e req isSubClose sub s =
     (let s1 = end_replication e (\<not> isSubClose) sub s;
          (f, s2) = raft_Apply e (if isSubClose then OpCloseSubscription req else OpRemoveSubscription req) s1
      in (waitForReplicationErrResponse f, s2))"

definition performUnsubOrCloseSubscription ::
  "srv_env \<Rightarrow> unsubRequest \<Rightarrow> string \<Rightarrow> bool \<Rightarrow> server \<Rightarrow> server" where
  "performUnsubOrCloseSubscription e req reply isSubClose s0 =
     (let (mine, s) = in_partition e (ur_Subject req) s0 in
      if \<not> mine then s
      else
        case getChannelAndSubForSubCloseOrUnsub req s of
          None \<Rightarrow> send_subErr reply (Some ErrUnknownChannel) s
        | Some (c, None) \<Rightarrow> send_subErr reply (Some ErrInvalidSub) s
        | Some (c, Some r) \<Rightarrow>
            let (err, s1) =
                  (if e_clustered e
                   then replicateSubCloseOrUnsubscribe e req isSubClose (ur_Subject req, r) s
                   else srv_unsubscribeSub e (ur_Subject req) (ur_ClientID req) r isSubClose True s);
                s2 = (if err = None then maybeStartChannelDeleteTimer (e_now e) (ur_Subject req) s1 else s1)
            in send_subErr reply err s2)"

definition processUnsubscribeRequest :: "srv_env \<Rightarrow> unsubRequest option \<Rightarrow> string \<Rightarrow> server \<Rightarrow> server" where
  "processUnsubscribeRequest e data reply s =
     (case data of
        None \<Rightarrow> send_subErr reply (Some ErrInvalidUnsubReq) s
      | Some req \<Rightarrow> performUnsubOrCloseSubscription e req reply False s)"

definition processSubCloseRequest :: "srv_env \<Rightarrow> unsubRequest option \<Rightarrow> string \<Rightarrow> server \<Rightarrow> server" where
  "processSubCloseRequest e data reply s =
     (case data of
        None \<Rightarrow> send_subErr reply (Some ErrInvalidUnsubReq) s
      | Some req \<Rightarrow> performUnsubOrCloseSubscription e req reply True s)"

definition closeDurableIfDuplicate :: "srv_env \<Rightarrow> subRequest \<Rightarrow> server \<Rightarrow> srv_err option \<times> server" where
  "closeDurableIfDuplicate e sr s =
     (case cs_get (sr_Subject sr) s of
        None \<Rightarrow> (None, s)
      | Some c \<Rightarrow>
          (case mget (durables c) (durableKey sr) of
             None \<Rightarrow> (None, s)
           | Some r \<Rightarrow>
               if ClientID (sub_at c r) = [] then (None, s)
               else if e_clustered e
               then replicateSubCloseOrUnsubscribe e
                      \<lparr>ur_ClientID = sr_ClientID sr, ur_Subject = sr_Subject sr, ur_Inbox = AckInbox (sub_at c r)\<rparr>
                      True (sr_Subject sr, r) s
               else srv_unsubscribeSub e (sr_Subject sr) (sr_ClientID sr) r True True s))"

definition check_subRequest :: "subRequest \<Rightarrow> srv_err option" where
  "check_subRequest sr =
     (if sr_ClientID sr = [] then Some ErrMissingClient
      else if sr_AckWaitInSecs sr \<le> 0 then Some ErrInvalidAckWait
      else if sr_MaxInFlight sr \<le> 0 then Some ErrInvalidMaxInflight
      else if sr_StartPosition sr = OtherPosition then Some ErrInvalidStart
      else if \<not> IsChannelNameValid (sr_Subject sr) False then Some srv_err.ErrInvalidSubject
      else None)"

definition replicateSub :: "srv_env \<Rightarrow> subRequest \<Rightarrow> string \<Rightarrow> u64 \<Rightarrow> server \<Rightarrow> (srv_err + subptr) \<times> server" where
  "replicateSub e sr ackInbox subID s =
     (let channelID = (case cs_get (sr_Subject sr) s of Some c \<Rightarrow> c_id c | None \<Rightarrow> 0);
          (f, s1) = raft_Apply e (OpSubscribe channelID sr ackInbox subID) s
      in (case f of None \<Rightarrow> Inl RaftFailure | Some (RespSub res) \<Rightarrow> res | Some _ \<Rightarrow> Inl Panic, s1))"

text \<open>The clustered path of the request: the start position becomes a sequence.\<close>

definition subscribe_clustered :: "srv_env \<Rightarrow> subRequest \<Rightarrow> string \<Rightarrow> server \<Rightarrow> (srv_err + subptr) \<times> server" where
  "subscribe_clustered e sr ackInbox s =
     (case cs_get (sr_Subject sr) s of
        None \<Rightarrow> (Inl ErrUnknownChannel, s)
      | Some c \<Rightarrow>
          if sr_StartPosition sr \<noteq> SequenceStart then
            (case setSubStartSequence (env.truncate e) c sr of
               None \<Rightarrow> (Inl Panic, s)
             | Some seq \<Rightarrow>
                 replicateSub e (sr\<lparr>sr_StartPosition := SequenceStart, sr_StartSequence := seq + 1\<rparr>) ackInbox (c_nextSubID c) s)
          else replicateSub e sr ackInbox (c_nextSubID c) s)"

definition create_subscription :: "srv_env \<Rightarrow> subRequest \<Rightarrow> server \<Rightarrow> (srv_err + subptr) \<times> server" where
  "create_subscription e sr s =
     (let (err, s1) =
            (if sr_DurableName sr \<noteq> [] \<and> sr_QGroup sr = [] \<and> o_ReplaceDurable (e_opts e)
             then closeDurableIfDuplicate e sr s else (None, s))
      in case err of
           Some x \<Rightarrow> (Inl x, s1)
         | None \<Rightarrow>
             if e_clustered e then subscribe_clustered e sr (e_newInbox e) s1
             else srv_processSub e (sr_Subject sr) sr (e_newInbox e) 0 s1)"

definition subscribed :: "string \<Rightarrow> bool \<Rightarrow> subptr \<Rightarrow> server \<Rightarrow> server" where
  "subscribed reply preventDelete = (\<lambda>(name, r) s.
     (case cs_get name s of
        None \<Rightarrow> s
      | Some c \<Rightarrow>
          let sub = sub_at c r;
              s1 = upd_chan name (upd_sub r (\<lambda>x. x\<lparr>initialized := True\<rparr>)) (send_reply reply (SubReply None (AckInbox sub)) s);
              s2 = s1\<lparr>sv_subStart := sv_subStart s1 @ [((name, r), qstate sub, IsDurable sub)]\<rparr>
          in if preventDelete then turnOffPreventDelete name s2 else s2))"

definition processSubscriptionRequest :: "srv_env \<Rightarrow> subRequest option \<Rightarrow> string \<Rightarrow> server \<Rightarrow> server" where
  "processSubscriptionRequest e data reply s0 =
     (case data of
        None \<Rightarrow> send_subErr reply (Some ErrInvalidSubReq) s0
      | Some sr \<Rightarrow>
          (case check_subRequest sr of
             Some err \<Rightarrow> send_subErr reply (Some err) s0
           | None \<Rightarrow>
               let (mine, s1) = in_partition e (sr_Subject sr) s0 in
               if \<not> mine then s1
               else
                 let (valid, s2) = client_valid e (sr_ClientID sr) [] s1 in
                 if \<not> valid
                 then send_subErr reply (Some (if sv_partitions s2 = None then ErrUnknownClient else ErrInvalidSubReq)) s2
                 else
                   case lookupOrCreateChannelPreventDelete e (sr_Subject sr) s2 of
                     (Inl err, s3) \<Rightarrow> send_subErr reply (Some err) (maybeStartChannelDeleteTimer (e_now e) (sr_Subject sr) s3)
                   | (Inr preventDelete, s3) \<Rightarrow>
                       (case create_subscription e sr s3 of
                          (Inl err, s4) \<Rightarrow>
                            send_subErr reply (Some err)
                              (maybeStartChannelDeleteTimer (e_now e) (sr_Subject sr) (turnOffPreventDelete (sr_Subject sr) s4))
                        | (Inr sub, s4) \<Rightarrow> subscribed reply preventDelete sub s4)))"

text \<open>One item of \<open>processSubscriptionsStart\<close>.\<close>

definition processSubscriptionsStart :: "srv_env \<Rightarrow> server \<Rightarrow> server" where
  "processSubscriptionsStart e s =
     (case sv_subStart s of
        [] \<Rightarrow> s
      | ((name, r), qs, isDurable) # rest \<Rightarrow>
          upd_chan name (\<lambda>c.
            let known = (lookup_client (ClientID (sub_at c r)) (sv_clients s) \<noteq> None);
                c1 = (if isDurable then performDurableRedelivery (env.truncate e) known r c else c)
            in case qs of
                 Some q \<Rightarrow> sendAvailableMessagesToQueue (env.truncate e) q c1
               | None \<Rightarrow> sendAvailableMessages (env.truncate e) r c1) (s\<lparr>sv_subStart := rest\<rparr>))"

section \<open>Publishing\<close>

datatype pub_data = PubData pubMsg | CtrlData | InvalidData

definition processClientPublish :: "srv_env \<Rightarrow> pub_data \<Rightarrow> string \<Rightarrow> server \<Rightarrow> server" where
  "processClientPublish e data reply s =
     (case data of
        InvalidData \<Rightarrow> send_reply reply (PubAck [] (Some ErrInvalidPubReq)) s
      | CtrlData \<Rightarrow> s
      | PubData pm \<Rightarrow>
          if pm_Guid pm = [] \<or> \<not> IsChannelNameValid (pm_Subject pm) False
          then send_reply reply (PubAck (pm_Guid pm) (Some ErrInvalidPubReq)) s
          else
            let (valid, s1) = client_valid e (pm_ClientID pm) (pm_ConnID pm) s in
            if \<not> valid then send_reply reply (PubAck (pm_Guid pm) (Some ErrInvalidPubReq)) s1
            else s1\<lparr>sv_ioChannel := sv_ioChannel s1 @ [IoMsg reply pm]\<rparr>)"

type_synonym iopm = "string \<times> pubMsg"

definition send_publishErr :: "iopm \<Rightarrow> srv_err \<Rightarrow> server \<Rightarrow> server" where
  "send_publishErr = (\<lambda>(reply, pm) err. send_reply reply (PubAck (pm_Guid pm) (Some err)))"

definition ackPublisher :: "iopm \<Rightarrow> server \<Rightarrow> server" where
  "ackPublisher = (\<lambda>(reply, pm). send_reply reply (PubAck (pm_Guid pm) None))"

text \<open>
  The storing of a batch without Raft. It returns the messages to acknowledge and the channels
  that got messages.
\<close>

fun store_io :: "srv_env \<Rightarrow> iopm list \<Rightarrow> server \<Rightarrow> iopm list \<times> string list \<times> server" where
  "store_io e [] s = ([], [], s)"
| "store_io e (iopm # rest) s =
     (let pm = snd iopm; (err, s1) = lookupOrCreateChannel e (pm_Subject pm) s in
      case (err, cs_get (pm_Subject pm) s1) of
        (None, Some c) \<Rightarrow>
          let (msg, c1) = pubMsgToMsgProto (e_now e) pm (c_nextSequence c) c in
          if e_storeMsg e msg then
            let c2 = c1\<lparr>c_msgs := snd (Store (e_msize e) (e_now e) msg (c_msgs c1)), c_nextSequence := c_nextSequence c1 + 1\<rparr>;
                (pending, flush, s2) = store_io e rest (upd_chan (pm_Subject pm) (\<lambda>_. c2) s1)
            in (iopm # pending, List.insert (pm_Subject pm) flush, s2)
          else store_io e rest (send_publishErr iopm StorageFailure (upd_chan (pm_Subject pm) (\<lambda>_. c1) s1))
      | (Some x, _) \<Rightarrow> store_io e rest (send_publishErr iopm x s1)
      | (None, None) \<Rightarrow> store_io e rest (send_publishErr iopm ErrUnknownChannel s1))"

text \<open>The first loop of \<open>replicate\<close>: a batch of messages for each channel. An error stops it.\<close>

fun replicate_collect ::
  "srv_env \<Rightarrow> iopm list \<Rightarrow> (string, MsgProto list) gomap \<Rightarrow> server \<Rightarrow> (srv_err + (string, MsgProto list) gomap) \<times> server" where
  "replicate_collect e [] batches s = (Inr batches, s)"
| "replicate_collect e (iopm # rest) batches s =
     (let pm = snd iopm; (err, s1) = lookupOrCreateChannel e (pm_Subject pm) s in
      case (err, cs_get (pm_Subject pm) s1) of
        (None, Some c) \<Rightarrow>
          let (msg, c1) = pubMsgToMsgProto (e_now e) pm (c_nextSequence c) c;
              batch = (case mget batches (pm_Subject pm) of None \<Rightarrow> [] | Some b \<Rightarrow> b)
          in replicate_collect e rest (mput (pm_Subject pm) (batch @ [msg]) batches)
               (upd_chan (pm_Subject pm) (\<lambda>_. c1\<lparr>c_nextSequence := c_nextSequence c1 + 1\<rparr>) s1)
      | (Some x, _) \<Rightarrow> (Inl x, s1)
      | (None, None) \<Rightarrow> (Inl ErrUnknownChannel, s1))"

text \<open>The second loop: the result of a future is whether it succeeded.\<close>

fun replicate_apply :: "srv_env \<Rightarrow> (string \<times> MsgProto list) list \<Rightarrow> server \<Rightarrow> (string, bool) gomap \<times> server" where
  "replicate_apply e [] s = ([], s)"
| "replicate_apply e ((name, batch) # rest) s =
     (let channelID = (case cs_get name s of Some c \<Rightarrow> c_id c | None \<Rightarrow> 0);
          (f, s1) = raft_Apply e (OpPublish channelID batch) s;
          (futures, s2) = replicate_apply e rest s1
      in (mput name (case f of Some (RespErr _) \<Rightarrow> True | _ \<Rightarrow> False) futures, s2))"

definition replicate_msgs :: "srv_env \<Rightarrow> iopm list \<Rightarrow> server \<Rightarrow> (srv_err + (string, bool) gomap) \<times> server" where
  "replicate_msgs e iopms s =
     (case replicate_collect e iopms [] s of
        (Inl err, s1) \<Rightarrow> (Inl err, s1)
      | (Inr batches, s1) \<Rightarrow> (let (futures, s2) = replicate_apply e batches s1 in (Inr futures, s2)))"

definition reset_nextSequence :: "string \<Rightarrow> server \<Rightarrow> server" where
  "reset_nextSequence name = upd_chan name (\<lambda>c. c\<lparr>c_nextSequence := LastSequence (c_msgs c) + 1\<rparr>)"

definition storeIOPendingMsgs :: "srv_env \<Rightarrow> iopm list \<Rightarrow> server \<Rightarrow> iopm list \<times> string list \<times> server" where
  "storeIOPendingMsgs e iopms s =
     (if e_clustered e then
        case replicate_msgs e iopms s of
          (Inl err, s1) \<Rightarrow> ([], [], fold (\<lambda>iopm. send_publishErr iopm err) iopms s1)
        | (Inr futures, s1) \<Rightarrow>
            let failed = (\<lambda>iopm. mget futures (pm_Subject (snd iopm)) \<noteq> Some True);
                s2 = fold reset_nextSequence (map fst (filter (\<lambda>(_, ok). \<not> ok) futures)) s1;
                s3 = fold (\<lambda>iopm. send_publishErr iopm RaftFailure) (filter failed iopms) s2
            in (filter (\<lambda>iopm. \<not> failed iopm) iopms, map fst (filter snd futures), s3)
      else store_io e iopms s)"

section \<open>Deletion of inactive channels\<close>

definition replicateDeleteChannel :: "srv_env \<Rightarrow> string \<Rightarrow> server \<Rightarrow> server" where
  "replicateDeleteChannel e name s =
     (let channelID = (case cs_get name s of Some c \<Rightarrow> c_id c | None \<Rightarrow> 0);
          (f, s1) = raft_Apply e (OpDeleteChannel name channelID) s
      in if f = None then upd_chan name (upd_activity (\<lambda>a. a\<lparr>a_deleteInProgress := False\<rparr>)) s1 else s1)"

definition handleChannelDelete :: "srv_env \<Rightarrow> string \<Rightarrow> server \<Rightarrow> server" where
  "handleChannelDelete e name s =
     (case cs_get name s of
        None \<Rightarrow> s
      | Some c \<Rightarrow>
          (case c_activity c of
             None \<Rightarrow> s
           | Some a \<Rightarrow>
               if a_preventDelete a \<or> a_deleteInProgress a \<or> hasActiveSubs c
               then upd_chan name (upd_activity stopDeleteTimer) s
               else
                 let elapsed = e_now e - a_last a in
                 if elapsed \<ge> a_maxInactivity a then
                   let s1 = upd_chan name (upd_activity (\<lambda>a. (stopDeleteTimer a)\<lparr>a_deleteInProgress := True\<rparr>)) s
                   in if e_clustered e then replicateDeleteChannel e name s1 else processDeleteChannel e name s1
                 else
                   upd_chan name (upd_activity (resetDeleteTimer
                     (if elapsed < 0 then a_maxInactivity a else a_maxInactivity a - elapsed))) s))"

section \<open>The loop of the I/O channel\<close>

text \<open>A batch of at most \<open>remaining\<close> messages; it ends before a request to delete a channel.\<close>

fun fill_batch :: "nat \<Rightarrow> ioPendingMsg list \<Rightarrow> iopm list \<times> string option \<times> ioPendingMsg list" where
  "fill_batch 0 queue = ([], None, queue)"
| "fill_batch (Suc n) [] = ([], None, [])"
| "fill_batch (Suc n) (IoDelete name # queue) = ([], Some name, queue)"
| "fill_batch (Suc n) (IoMsg reply pm # queue) =
     (let (batch, dc, rest) = fill_batch n queue in ((reply, pm) # batch, dc, rest))"

definition deliver_stored :: "srv_env \<Rightarrow> string \<Rightarrow> server \<Rightarrow> server" where
  "deliver_stored e name =
     upd_chan name (\<lambda>c. let c1 = processMsg (env.truncate e) c
                        in upd_activity (\<lambda>a. a\<lparr>a_last := c_lTimestamp c1\<rparr>) c1)"

definition io_batch :: "srv_env \<Rightarrow> iopm list \<Rightarrow> server \<Rightarrow> server" where
  "io_batch e batch s =
     (let (pending, flush, s1) = storeIOPendingMsgs e batch s;
          s2 = fold (deliver_stored e) flush s1
      in fold ackPublisher pending s2)"

text \<open>One iteration of \<open>ioLoop\<close>.\<close>

definition ioLoop_step :: "srv_env \<Rightarrow> server \<Rightarrow> server" where
  "ioLoop_step e s =
     (case sv_ioChannel s of
        [] \<Rightarrow> s
      | IoDelete name # queue \<Rightarrow> handleChannelDelete e name (s\<lparr>sv_ioChannel := queue\<rparr>)
      | IoMsg reply pm # queue \<Rightarrow>
          let (batch, dc, rest) = fill_batch (o_IOBatchSize (e_opts e) - 1) queue;
              s1 = io_batch e ((reply, pm) # batch) (s\<lparr>sv_ioChannel := rest\<rparr>)
          in case dc of None \<Rightarrow> s1 | Some name \<Rightarrow> handleChannelDelete e name s1)"

definition sendDeleteChannelRequest :: "string \<Rightarrow> server \<Rightarrow> server" where
  "sendDeleteChannelRequest name s = s\<lparr>sv_ioChannel := sv_ioChannel s @ [IoDelete name]\<rparr>"

end
