(* ===== verification/Recovery.thy ===== *)
theory Recovery
  imports Server_Handlers
begin

text \<open>
  Recovery of the server's state: from the store on restart and on changes of leadership
  (\<open>server/server.go\<close>), and from a Raft snapshot (\<open>server/snapshot.go\<close>). A recovered set of pending
  sequences, a map or an array in the code, is a list. The encoding of a snapshot is left out.
\<close>

section \<open>Subscriptions\<close>

definition recovered_pending :: "u64 list \<Rightarrow> (u64, int) gomap" where
  "recovered_pending seqs = fold (\<lambda>seq m. mput seq 0 m) seqs []"

definition recovered_sub :: "string \<Rightarrow> spbSubState \<Rightarrow> u64 list \<Rightarrow> subState" where
  "recovered_sub name recSub seqs =
     (let pending = recovered_pending seqs;
          hold = (length pending > 0)
      in spbSubState.extend recSub
           (subState.fields name None (computeAckWait (AckWaitInSecs recSub)) None False pending [] None [] False
              (hold \<and> i32 (int (length pending)) \<ge> MaxInFlight recSub) hold False))"

definition processOfflineSub :: "sref \<Rightarrow> chan \<Rightarrow> chan" where
  "processOfflineSub r c =
     upd_sub r (\<lambda>s. s\<lparr>savedClientID := ClientID s, ClientID := []\<rparr>)
       (c\<lparr>durables := mput (sub_durableKey (sub_at c r)) r (durables c)\<rparr>)"

definition recoverOneSub ::
  "env \<Rightarrow> spbSubState \<Rightarrow> u64 list \<Rightarrow> chan \<times> clientStore \<Rightarrow> sref option \<times> chan \<times> clientStore" where
  "recoverOneSub e recSub seqs = (\<lambda>(c, cs).
     (let r = c_next c;
          sub0 = recovered_sub (c_name c) recSub seqs;
          durableSub = isDurableSubscriber sub0;
          sub = (if durableSub then sub0\<lparr>IsDurable := True\<rparr> else sub0);
          c1 = upd_sub r (\<lambda>_. sub) (c\<lparr>c_next := Suc r\<rparr>)
      in if durableSub \<and> IsClosed sub then (None, processOfflineSub r c1, cs)
         else
           let (added, cs1) = addSub (ClientID sub) (c_name c, r) cs in
           if \<not> added \<and> \<not> IsDurable sub then (None, c1, cs1)
           else if \<not> added \<and> isQueueDurableSubscriber sub \<and> \<not> isShadowQueueDurable sub
           then (None, store_delete e (ID sub) c1, cs1)
           else if durableSub \<and> \<not> added then (None, processOfflineSub r c1, cs1)
           else
             let c2 = updateState r c1
             in (if isShadowQueueDurable (sub_at c2 r) then None else Some r, c2, cs1)))"

section \<open>Restart\<close>

record recoveredChannel =
  rc_stores :: mem_channel
  rc_subs :: "(spbSubState \<times> u64 list) list"

definition processRecoveredClients :: "srv_env \<Rightarrow> clientInfo list \<Rightarrow> server \<Rightarrow> server" where
  "processRecoveredClients e infos s =
     (if e_clustered e then s else s\<lparr>sv_clients := recoverClients infos (sv_clients s)\<rparr>)"

fun recover_subs ::
  "env \<Rightarrow> (spbSubState \<times> u64 list) list \<Rightarrow> chan \<times> clientStore \<Rightarrow> (srv_err + sref list) \<times> chan \<times> clientStore" where
  "recover_subs e [] (c, cs) = (Inr [], c, cs)"
| "recover_subs e ((recSub, seqs) # rest) (c, cs) =
     (case recoverOneSub e recSub seqs (c, cs) of
        (None, c1, cs1) \<Rightarrow> recover_subs e rest (c1, cs1)
      | (Some r, c1, cs1) \<Rightarrow>
          (case startAckSub e r c1 of
             (Some err, c2) \<Rightarrow> (Inl err, c2, cs1)
           | (None, c2) \<Rightarrow>
               (case recover_subs e rest (c2, cs1) of
                  (Inl err, x) \<Rightarrow> (Inl err, x)
                | (Inr rs, x) \<Rightarrow> (Inr (r # rs), x))))"

fun processRecoveredChannels ::
  "srv_env \<Rightarrow> (string \<times> recoveredChannel) list \<Rightarrow> server \<Rightarrow> (srv_err + subptr list) \<times> server" where
  "processRecoveredChannels e [] s = (Inr [], s)"
| "processRecoveredChannels e ((name, rc) # rest) s =
     (let s1 = cs_create e name (rc_stores rc) s in
      if e_clustered e then processRecoveredChannels e rest s1
      else
        case cs_get name s1 of
          None \<Rightarrow> processRecoveredChannels e rest s1
        | Some c \<Rightarrow>
            (case recover_subs (env.truncate e) (rc_subs rc) (c, sv_clients s1) of
               (Inl err, c1, cs1) \<Rightarrow> (Inl err, upd_chan name (\<lambda>_. c1) (s1\<lparr>sv_clients := cs1\<rparr>))
             | (Inr rs, c1, cs1) \<Rightarrow>
                 (case processRecoveredChannels e rest
                         (maybeStartChannelDeleteTimer (e_now e) name (upd_chan name (\<lambda>_. c1) (s1\<lparr>sv_clients := cs1\<rparr>))) of
                    (Inl err, s2) \<Rightarrow> (Inl err, s2)
                  | (Inr subs, s2) \<Rightarrow> (Inr (map (\<lambda>r. (name, r)) rs @ subs), s2))))"

definition set_initialized :: "subptr \<Rightarrow> server \<Rightarrow> server" where
  "set_initialized = (\<lambda>(name, r). upd_chan name (upd_sub r (\<lambda>s. s\<lparr>initialized := True\<rparr>)))"

definition postRecoveryProcessing :: "srv_env \<Rightarrow> clientInfo list \<Rightarrow> subptr list \<Rightarrow> server \<Rightarrow> server" where
  "postRecoveryProcessing e recoveredClients recoveredSubs s =
     (let s1 = fold set_initialized recoveredSubs s
      in if e_clustered e then s1
         else s1\<lparr>sv_clients := fold (\<lambda>info. setClientHB (ci_ID info) (o_ClientHBInterval (e_opts e))) recoveredClients (sv_clients s1)\<rparr>)"

text \<open>
  Redelivery for one recovered subscription; the result includes its queue group, to which new
  messages are sent at the end. \<open>redelivery_fuel\<close> bounds the restarts of the redelivery.
\<close>

definition redelivery_fuel :: nat where
  "redelivery_fuel = 2"

definition startup_sub :: "env \<Rightarrow> sref \<Rightarrow> chan \<Rightarrow> qref option \<times> chan" where
  "startup_sub e r c =
     (let c1 = upd_sub r (\<lambda>s. s\<lparr>initialized := True\<rparr>) c in
      if isOfflineDurableSubscriber (sub_at c1 r) then (None, upd_sub r (\<lambda>s. s\<lparr>newOnHold := False\<rparr>) c1)
      else
        let c2 = upd_sub r (\<lambda>s. if ackTimer s = None then setupAckTimer (ackWait s) s else s) c1;
            c3 = performAckExpirationRedelivery redelivery_fuel e r True c2;
            c4 = upd_sub r (\<lambda>s. s\<lparr>newOnHold := False\<rparr>) c3
        in case qstate (sub_at c4 r) of
             Some q \<Rightarrow> (Some q, c4)
           | None \<Rightarrow> (None, sendAvailableMessages e r c4))"

fun startup_subs :: "env \<Rightarrow> subptr list \<Rightarrow> server \<Rightarrow> (string \<times> qref) list \<times> server" where
  "startup_subs e [] s = ([], s)"
| "startup_subs e ((name, r) # rest) s =
     (case cs_get name s of
        None \<Rightarrow> startup_subs e rest s
      | Some c \<Rightarrow>
          let (q, c1) = startup_sub e r c;
              (queues, s1) = startup_subs e rest (upd_chan name (\<lambda>_. c1) s)
          in (case q of None \<Rightarrow> queues | Some x \<Rightarrow> List.insert (name, x) queues, s1))"

definition startup_queue :: "env \<Rightarrow> string \<times> qref \<Rightarrow> server \<Rightarrow> server" where
  "startup_queue e = (\<lambda>(name, q).
     upd_chan name (\<lambda>c.
       sendAvailableMessagesToQueue e q
         (upd_queue q (\<lambda>qs. qs\<lparr>q_newOnHold := False, q_rdlvCount := [],
            q_stalledSubCount := int (length (filter (\<lambda>r. stalled (sub_at c r)) (q_subs qs)))\<rparr>) c)))"

definition performRedeliveryOnStartup :: "env \<Rightarrow> subptr list \<Rightarrow> server \<Rightarrow> server" where
  "performRedeliveryOnStartup e recoveredSubs s =
     (let (queues, s1) = startup_subs e recoveredSubs s in fold (startup_queue e) queues s1)"

section \<open>Leadership\<close>

definition update_nextSequence :: "env \<Rightarrow> chan \<Rightarrow> chan" where
  "update_nextSequence e c =
     (let lastSequence = snd (getChannelFirstAndlLastSeq e c)
      in if c_nextSequence c \<le> lastSequence then c\<lparr>c_nextSequence := lastSequence + 1\<rparr> else c)"

fun acquire_subs :: "env \<Rightarrow> subptr list \<Rightarrow> server \<Rightarrow> srv_err option \<times> server" where
  "acquire_subs e [] s = (None, s)"
| "acquire_subs e ((name, r) # rest) s =
     (case cs_get name s of
        None \<Rightarrow> acquire_subs e rest s
      | Some c \<Rightarrow>
          (case startAckSub e r (subChangesOnLeadershipAcquired r c) of
             (Some err, c1) \<Rightarrow> (Some err, upd_chan name (\<lambda>_. c1) s)
           | (None, c1) \<Rightarrow> acquire_subs e rest (upd_chan name (\<lambda>_. c1) s)))"

fun acquire_clients :: "srv_env \<Rightarrow> client list \<Rightarrow> server \<Rightarrow> srv_err option \<times> server" where
  "acquire_clients e [] s = (None, s)"
| "acquire_clients e (cl # rest) s =
     (case acquire_subs (env.truncate e) (cl_subs cl) s of
        (Some err, s1) \<Rightarrow> (Some err, s1)
      | (None, s1) \<Rightarrow>
          acquire_clients e rest
            (s1\<lparr>sv_clients := setClientHB (ci_ID (cl_info cl)) (o_ClientHBInterval (e_opts e)) (sv_clients s1)\<rparr>))"

text \<open>
  The synchronisation with the I/O loop and the server's NATS subscriptions are left out. The server is not yet
  the leader in \<open>e\<close> while it redelivers.
\<close>

definition leadershipAcquired :: "srv_env \<Rightarrow> server \<Rightarrow> srv_err option \<times> server" where
  "leadershipAcquired e s =
     (if \<not> e_raft e then (Some RaftFailure, s)
      else
        let s1 = s\<lparr>sv_channels := map (\<lambda>(n, c). (n, update_nextSequence (env.truncate e) c)) (sv_channels s)\<rparr> in
        case acquire_clients e (map snd (getClients (sv_clients s1))) s1 of
          (Some err, s2) \<Rightarrow> (Some err, s2)
        | (None, s2) \<Rightarrow>
            let allSubs = concat (map (\<lambda>(n, c). map (\<lambda>r. (n, r)) (getAllSubs c)) (sv_channels s2));
                s3 = fold (maybeStartChannelDeleteTimer (e_now e)) (map fst (sv_channels s2)) s2
            in (None, if length allSubs > 0 then performRedeliveryOnStartup (env.truncate e) allSubs s3 else s3))"

definition lose_sub :: "subptr \<Rightarrow> server \<Rightarrow> server" where
  "lose_sub = (\<lambda>(name, r). upd_chan name (subChangesOnLeadershipLost r))"

definition lose_client :: "client \<Rightarrow> server \<Rightarrow> server" where
  "lose_client cl s =
     fold lose_sub (getSubsCopy cl) (s\<lparr>sv_clients := removeClientHB (ci_ID (cl_info cl)) (sv_clients s)\<rparr>)"

definition leadershipLost :: "server \<Rightarrow> server" where
  "leadershipLost s =
     (let s1 = fold lose_client (map snd (getClients (sv_clients s))) s
      in fold cs_stopDeleteTimer (map fst (sv_channels s1)) s1)"

section \<open>Snapshots\<close>

record subscriptionSnapshot =
  sn_State :: spbSubState
  sn_AcksPending :: "u64 list"

record channelSnapshot =
  sn_Channel :: string
  sn_First :: u64
  sn_Last :: u64
  sn_NextSubID :: u64
  sn_ChannelID :: u64
  sn_Subscriptions :: "subscriptionSnapshot list"

record raftSnapshot =
  sn_Clients :: "clientInfo list"
  sn_Channels :: "channelSnapshot list"

definition snapshotASub :: "chan \<Rightarrow> subState \<Rightarrow> subscriptionSnapshot" where
  "snapshotASub c sub =
     (let state = spbSubState.truncate sub;
          state' = (case qstate sub of
                      Some q \<Rightarrow> if q_lastSent (queue_at c q) > LastSent state
                                then state\<lparr>LastSent := q_lastSent (queue_at c q)\<rparr> else state
                    | None \<Rightarrow> state)
      in \<lparr>sn_State = state', sn_AcksPending = map fst (acksPending sub)\<rparr>)"

definition snapshot_queue :: "chan \<Rightarrow> queueState \<Rightarrow> subscriptionSnapshot list" where
  "snapshot_queue c qs =
     map (\<lambda>r. snapshotASub c (sub_at c r)) (q_subs qs) @
     (case q_shadow qs of None \<Rightarrow> [] | Some r \<Rightarrow> [snapshotASub c (sub_at c r)])"

definition snapshotChannel :: "env \<Rightarrow> chan \<Rightarrow> channelSnapshot" where
  "snapshotChannel e c =
     (let (first, last_seq) = getChannelFirstAndlLastSeq e c;
          closed = filter (\<lambda>r. IsClosed (sub_at c r)) (map snd (durables c))
      in \<lparr>sn_Channel = c_name c, sn_First = first, sn_Last = last_seq, sn_NextSubID = c_nextSubID c,
          sn_ChannelID = c_id c,
          sn_Subscriptions =
            map (\<lambda>r. snapshotASub c (sub_at c r)) (psubs c) @
            map (\<lambda>r. snapshotASub c ((sub_at c r)\<lparr>ClientID := savedClientID (sub_at c r)\<rparr>)) closed @
            concat (map (\<lambda>(_, q). snapshot_queue c (queue_at c q)) (qsubs c))\<rparr>)"

text \<open>The closing of the snapshotted durables leaves their client ID empty. \<open>None\<close> is a failed flush.\<close>

definition clear_closed :: "chan \<Rightarrow> chan" where
  "clear_closed c =
     fold (\<lambda>r. upd_sub r (\<lambda>s. if IsClosed s then s\<lparr>ClientID := []\<rparr> else s)) (map snd (durables c)) c"

definition snapshotChannels :: "env \<Rightarrow> server \<Rightarrow> (channelSnapshot list \<times> server) option" where
  "snapshotChannels e s =
     (if sv_channels s \<noteq> [] \<and> \<not> e_flush e then None
      else Some (map (\<lambda>(_, c). snapshotChannel e c) (sv_channels s),
                 s\<lparr>sv_channels := map (\<lambda>(n, c). (n, clear_closed c)) (sv_channels s)\<rparr>))"

definition snapshotClients :: "server \<Rightarrow> clientInfo list" where
  "snapshotClients s = map (\<lambda>(_, cl). cl_info cl) (cs_clients (sv_clients s))"

definition Persist :: "env \<Rightarrow> server \<Rightarrow> (raftSnapshot \<times> server) option" where
  "Persist e s =
     map_option (\<lambda>(chans, s1). (\<lparr>sn_Clients = snapshotClients s, sn_Channels = chans\<rparr>, s1)) (snapshotChannels e s)"

fun restoreClientsFromSnapshot :: "srv_env \<Rightarrow> clientInfo list \<Rightarrow> server \<Rightarrow> srv_err option \<times> server" where
  "restoreClientsFromSnapshot e [] s = (None, s)"
| "restoreClientsFromSnapshot e (info # rest) s =
     (case register (e_clientStore e) info (sv_clients s) of
        (Inl err, cs) \<Rightarrow> (Some (ErrClient err), s\<lparr>sv_clients := cs\<rparr>)
      | (Inr _, cs) \<Rightarrow> restoreClientsFromSnapshot e rest (s\<lparr>sv_clients := cs\<rparr>))"

definition restoreMsgsAttempts :: nat where
  "restoreMsgsAttempts = 10"

fun restore_attempts :: "nat \<Rightarrow> srv_env \<Rightarrow> u64 \<Rightarrow> u64 \<Rightarrow> chan \<Rightarrow> bool \<times> chan" where
  "restore_attempts 0 e first last_seq c = (False, c)"
| "restore_attempts (Suc n) e first last_seq c =
     (case restoreMsgsFromSnapshot (e_msize e) (e_now e) (e_serve e) first last_seq False c of
        (Restored, c1) \<Rightarrow> (True, c1)
      | (_, c1) \<Rightarrow> restore_attempts n e first last_seq c1)"

definition restore_one_sub :: "env \<Rightarrow> subscriptionSnapshot \<Rightarrow> chan \<times> clientStore \<Rightarrow> chan \<times> clientStore" where
  "restore_one_sub e ss x =
     (let (_, c, cs) = recoverOneSub e (sn_State ss) (sn_AcksPending ss) x
      in (if ID (sn_State ss) \<ge> c_nextSubID c then c\<lparr>c_nextSubID := ID (sn_State ss) + 1\<rparr> else c, cs))"

definition restore_channel_subs :: "env \<Rightarrow> channelSnapshot \<Rightarrow> chan \<times> clientStore \<Rightarrow> chan \<times> clientStore" where
  "restore_channel_subs e sc x =
     (let (c, cs) = fold (restore_one_sub e) (sn_Subscriptions sc) x
      in (if sn_NextSubID sc > c_nextSubID c then c\<lparr>c_nextSubID := sn_NextSubID sc\<rparr> else c, cs))"

text \<open>
  One channel of the snapshot: an error, or whether it was restored and its new first sequence.
  The panic is the one on a channel that is newer than the snapshot.
\<close>

definition restore_channel :: "srv_env \<Rightarrow> bool \<Rightarrow> channelSnapshot \<Rightarrow> server \<Rightarrow> (srv_err + u64 option) \<times> server" where
  "restore_channel e inNewRaftCall sc s =
     (case (if inNewRaftCall then (Inr (\<not> Option.is_none (fsm_lookupChannel (sn_Channel sc) (sn_ChannelID sc) s)), s)
            else fsm_lookupOrCreateChannel e (sn_Channel sc) (sn_ChannelID sc) s) of
        (Inl err, s1) \<Rightarrow> (Inl err, s1)
      | (Inr found, s1) \<Rightarrow>
          (case (found, cs_get (sn_Channel sc) s1) of
             (True, Some c) \<Rightarrow>
               let (ok, c1) = restore_attempts restoreMsgsAttempts e (sn_First sc) (sn_Last sc) (c\<lparr>c_firstSeq := sn_First sc\<rparr>) in
               if \<not> ok \<and> \<not> o_ProceedOnRestoreFailure (e_opts e)
               then (Inl StorageFailure, upd_chan (sn_Channel sc) (\<lambda>_. c1) s1)
               else
                 let (c2, cs2) = restore_channel_subs (env.truncate e) sc (c1\<lparr>c_lSeqChecked := False\<rparr>, sv_clients s1)
                 in (Inr (Some (c_firstSeq c1)), upd_chan (sn_Channel sc) (\<lambda>_. c2) (s1\<lparr>sv_clients := cs2\<rparr>))
           | _ \<Rightarrow> if inNewRaftCall then (Inr None, s1) else (Inl Panic, s1)))"

fun restore_channels ::
  "srv_env \<Rightarrow> bool \<Rightarrow> channelSnapshot list \<Rightarrow> bool \<Rightarrow> string list \<Rightarrow> server \<Rightarrow> (srv_err + bool \<times> string list) \<times> server" where
  "restore_channels e inNewRaftCall [] shouldSnapshot olds s = (Inr (shouldSnapshot, olds), s)"
| "restore_channels e inNewRaftCall (sc # rest) shouldSnapshot olds s =
     (case restore_channel e inNewRaftCall sc s of
        (Inl err, s1) \<Rightarrow> (Inl err, s1)
      | (Inr None, s1) \<Rightarrow> restore_channels e inNewRaftCall rest shouldSnapshot olds s1
      | (Inr (Some firstSeq), s1) \<Rightarrow>
          restore_channels e inNewRaftCall rest (firstSeq \<noteq> sn_First sc) (removeAll (sn_Channel sc) olds) s1)"

definition restoreChannelsFromSnapshot ::
  "srv_env \<Rightarrow> raftSnapshot \<Rightarrow> bool \<Rightarrow> server \<Rightarrow> (srv_err + bool) \<times> server" where
  "restoreChannelsFromSnapshot e snap inNewRaftCall s =
     (case restore_channels e inNewRaftCall (sn_Channels snap) False
             (if inNewRaftCall then [] else map fst (sv_channels s)) s of
        (Inl err, s1) \<Rightarrow> (Inl err, s1)
      | (Inr (shouldSnapshot, olds), s1) \<Rightarrow> (Inr shouldSnapshot, fold (processDeleteChannel e) olds s1))"

text \<open>The state that \<open>Restore\<close> drops: the subscriptions of every channel, then the clients.\<close>

fun drop_subs :: "srv_env \<Rightarrow> subptr list \<Rightarrow> server \<Rightarrow> srv_err option \<times> server" where
  "drop_subs e [] s = (None, s)"
| "drop_subs e ((name, r) # rest) s =
     (let clientID = (case cs_get name s of Some c \<Rightarrow> ClientID (sub_at c r) | None \<Rightarrow> [])
      in case srv_unsubscribeSub e name clientID r False False s of
           (Some err, s1) \<Rightarrow> (Some err, s1)
         | (None, s1) \<Rightarrow> drop_subs e rest s1)"

fun drop_clients :: "srv_env \<Rightarrow> string list \<Rightarrow> server \<Rightarrow> srv_err option \<times> server" where
  "drop_clients e [] s = (None, s)"
| "drop_clients e (clientID # rest) s =
     (case unregister (e_clientStore e) clientID (sv_clients s) of
        ((_, ok), cs) \<Rightarrow>
          if \<not> ok then (Some StorageFailure, s\<lparr>sv_clients := cs\<rparr>)
          else drop_clients e rest (s\<lparr>sv_clients := cs\<rparr>))"

definition Restore :: "srv_env \<Rightarrow> bool \<Rightarrow> raftSnapshot option \<Rightarrow> server \<Rightarrow> (srv_err + bool) \<times> server" where
  "Restore e restoreFromInit data s =
     (let subs = concat (map (\<lambda>(n, c). map (\<lambda>r. (n, r)) (getAllSubs c)) (sv_channels s)) in
      case drop_subs e subs s of
        (Some err, s1) \<Rightarrow> (Inl err, s1)
      | (None, s1) \<Rightarrow>
          (case drop_clients e (map fst (getClients (sv_clients s1))) s1 of
             (Some err, s2) \<Rightarrow> (Inl err, s2)
           | (None, s2) \<Rightarrow>
               (case data of
                  None \<Rightarrow> (Inr False, s2)
                | Some snap \<Rightarrow>
                    (case restoreClientsFromSnapshot e (sn_Clients snap) s2 of
                       (Some err, s3) \<Rightarrow> (Inl err, s3)
                     | (None, s3) \<Rightarrow> restoreChannelsFromSnapshot e snap restoreFromInit s3))))"

end
