(* ===== verification/Delivery_Proofs.thy ===== *)
theory Delivery_Proofs
  imports Delivery
begin

text \<open>
  The lemmas on delivery: what a send, an acknowledgement and a redelivery change and what they
  leave alone, and which messages \<open>sendAvailableMessages\<close> sends.
\<close>

section \<open>Frames\<close>

text \<open>What delivery never changes: the message log and the registry of the channel.\<close>

definition same_reg :: "chan \<Rightarrow> chan \<Rightarrow> bool" where
  "same_reg c c' \<longleftrightarrow>
     c_name c' = c_name c \<and> c_msgs c' = c_msgs c \<and> psubs c' = psubs c \<and> qsubs c' = qsubs c \<and>
     durables c' = durables c \<and> acks c' = acks c \<and> inboxes c' = inboxes c"

lemma same_reg_refl [simp]: "same_reg c c"
  by (simp add: same_reg_def)

lemma same_reg_trans [trans]: "same_reg a b \<Longrightarrow> same_reg b c \<Longrightarrow> same_reg a c"
  by (simp add: same_reg_def)

text \<open>The fields of a subscription that delivery never changes.\<close>

definition static_eq :: "subState \<Rightarrow> subState \<Rightarrow> bool" where
  "static_eq s s' \<longleftrightarrow>
     ID s' = ID s \<and> ClientID s' = ClientID s \<and> QGroup s' = QGroup s \<and> Inbox s' = Inbox s \<and>
     AckInbox s' = AckInbox s \<and> MaxInFlight s' = MaxInFlight s \<and> AckWaitInSecs s' = AckWaitInSecs s \<and> DurableName s' = DurableName s \<and>
     IsDurable s' = IsDurable s \<and> IsClosed s' = IsClosed s \<and> sub_subject s' = sub_subject s \<and> qstate s' = qstate s \<and>
     ackWait s' = ackWait s \<and> ackSub s' = ackSub s \<and> savedClientID s' = savedClientID s \<and> initialized s' = initialized s \<and>
     newOnHold s' = newOnHold s \<and> hasFailedHB s' = hasFailedHB s"

lemma static_eq_refl [simp]: "static_eq s s"
  by (simp add: static_eq_def)

lemma static_eq_trans: "static_eq a b \<Longrightarrow> static_eq b c \<Longrightarrow> static_eq a c"
  by (simp add: static_eq_def)

lemma static_eqD:
  assumes "static_eq s s'"
  shows "ID s' = ID s" "ClientID s' = ClientID s" "QGroup s' = QGroup s" "Inbox s' = Inbox s"
    "AckInbox s' = AckInbox s" "MaxInFlight s' = MaxInFlight s" "AckWaitInSecs s' = AckWaitInSecs s" "DurableName s' = DurableName s"
    "IsDurable s' = IsDurable s" "IsClosed s' = IsClosed s" "sub_subject s' = sub_subject s" "qstate s' = qstate s"
    "ackWait s' = ackWait s" "ackSub s' = ackSub s" "savedClientID s' = savedClientID s" "initialized s' = initialized s"
    "newOnHold s' = newOnHold s" "hasFailedHB s' = hasFailedHB s"
  using assms by (simp_all add: static_eq_def)

lemma static_eq_upd [simp]:
  "static_eq s (s\<lparr>stalled := b\<rparr>)"
  "static_eq s (s\<lparr>LastSent := n\<rparr>)"
  "static_eq s (s\<lparr>ackTimer := t\<rparr>)"
  "static_eq s (s\<lparr>acksPending := p\<rparr>)"
  "static_eq s (s\<lparr>sub_replicate := x\<rparr>)"
  "static_eq s (s\<lparr>rdlvCount := m\<rparr>)"
  "static_eq s (set_pending q ex s)"
  "static_eq s (del_pending q s)"
  "static_eq s (bump_lastSent q s)"
  "static_eq s (setupAckTimer d s)"
  "static_eq s (set_pending q ex (bump_lastSent q s))"
  by (simp_all add: static_eq_def set_pending_def del_pending_def bump_lastSent_def setupAckTimer_def)

text \<open>Queue groups up to their redelivery counts.\<close>

definition q_same :: "queueState \<Rightarrow> queueState \<Rightarrow> bool" where
  "q_same a b \<longleftrightarrow>
     q_lastSent b = q_lastSent a \<and> q_subs b = q_subs a \<and> q_shadow b = q_shadow a \<and>
     q_stalledSubCount b = q_stalledSubCount a \<and> q_newOnHold b = q_newOnHold a"

lemma q_same_refl [simp]: "q_same a a"
  by (simp add: q_same_def)

text \<open>Only one subscription changes, and of the queue groups only redelivery counts.\<close>

definition only_sub :: "sref \<Rightarrow> chan \<Rightarrow> chan \<Rightarrow> bool" where
  "only_sub r c c' \<longleftrightarrow>
     same_reg c c' \<and> (\<forall>x. x \<noteq> r \<longrightarrow> sub_at c' x = sub_at c x) \<and>
     static_eq (sub_at c r) (sub_at c' r) \<and> (\<forall>q. q_same (queue_at c q) (queue_at c' q))"

lemma only_sub_refl [simp]: "only_sub r c c"
  by (simp add: only_sub_def)

lemma only_sub_trans: "only_sub r a b \<Longrightarrow> only_sub r b c \<Longrightarrow> only_sub r a c"
  by (auto simp: only_sub_def same_reg_def q_same_def intro: static_eq_trans)

lemma only_sub_upd_sub: "(\<And>s. static_eq s (f s)) \<Longrightarrow> only_sub r c (upd_sub r f c)"
  by (simp add: only_sub_def same_reg_def)

lemma only_sub_log [simp]: "only_sub r c (log_rec x c)" "only_sub r c (c\<lparr>c_out := out\<rparr>)"
  "only_sub r c (c\<lparr>waiting := w\<rparr>)" "only_sub r c (c\<lparr>ready := w\<rparr>)"
  by (simp_all add: only_sub_def same_reg_def)

lemma only_sub_collect: "only_sub r c (collectSentOrAck r b seq c)"
  by (simp add: collectSentOrAck_def Let_def only_sub_def same_reg_def)

lemma collect_fields [simp]:
  "acksPending (sub_at (collectSentOrAck r b seq c) x) = acksPending (sub_at c x)"
  "LastSent (sub_at (collectSentOrAck r b seq c) x) = LastSent (sub_at c x)"
  "stalled (sub_at (collectSentOrAck r b seq c) x) = stalled (sub_at c x)"
  "ackTimer (sub_at (collectSentOrAck r b seq c) x) = ackTimer (sub_at c x)"
  "rdlvCount (sub_at (collectSentOrAck r b seq c) x) = rdlvCount (sub_at c x)"
  "c_out (collectSentOrAck r b seq c) = c_out c"
  "c_slog (collectSentOrAck r b seq c) = c_slog c"
  "c_qheap (collectSentOrAck r b seq c) = c_qheap c"
  by (simp_all add: collectSentOrAck_def Let_def)

lemma only_sub_count:
  "updateRedeliveryCount r m c = (m', c') \<Longrightarrow> only_sub r c c'"
  by (auto simp: updateRedeliveryCount_def Let_def only_sub_def same_reg_def q_same_def split: option.splits if_splits)

lemma count_fields:
  assumes "updateRedeliveryCount r m c = (m', c')"
  shows "acksPending (sub_at c' x) = acksPending (sub_at c x)" "LastSent (sub_at c' x) = LastSent (sub_at c x)"
    "stalled (sub_at c' x) = stalled (sub_at c x)" "ackTimer (sub_at c' x) = ackTimer (sub_at c x)"
    "c_out c' = c_out c" "c_slog c' = c_slog c" "Sequence m' = Sequence m" "Redelivered m' = Redelivered m"
    "\<exists>n. m' = m\<lparr>RedeliveryCount := n\<rparr>"
  using assms by (auto simp: updateRedeliveryCount_def Let_def split: option.splits if_splits)


lemma only_sub_publish: "only_sub r c (publish r m c)"
  unfolding publish_def Let_def
  by (auto intro: only_sub_trans [OF only_sub_log(2) only_sub_upd_sub])

lemma publish_fields [simp]:
  "acksPending (sub_at (publish r m c) x) = acksPending (sub_at c x)"
  "LastSent (sub_at (publish r m c) x) = LastSent (sub_at c x)"
  "stalled (sub_at (publish r m c) x) = stalled (sub_at c x)"
  "ID (sub_at (publish r m c) x) = ID (sub_at c x)"
  "ackWait (sub_at (publish r m c) x) = ackWait (sub_at c x)"
  "MaxInFlight (sub_at (publish r m c) x) = MaxInFlight (sub_at c x)"
  "c_out (publish r m c) = c_out c @ [(Inbox (sub_at c r), m)]"
  "c_slog (publish r m c) = c_slog c"
  by (simp_all add: publish_def Let_def setupAckTimer_def)

lemma only_sub_add_pending:
  assumes "add_pending e r seq force ap c = ((sent, mr), c')"
  shows "only_sub r c c'"
  using assms unfolding add_pending_def Let_def
  by (auto split: option.splits if_splits intro!: only_sub_upd_sub only_sub_collect
      only_sub_trans [OF _ only_sub_upd_sub] only_sub_trans [OF _ only_sub_log(1)]
      intro: static_eq_trans)


lemma add_pending_effect:
  assumes "add_pending e r seq force ap c = ((sent, mr), c')"
  shows "c_out c' = c_out c"
    and "sent \<Longrightarrow> \<exists>t. acksPending (sub_at c' r) = mput seq t (acksPending (sub_at c r))"
    and "\<not> sent \<Longrightarrow> acksPending (sub_at c' r) = acksPending (sub_at c r)"
    and "LastSent (sub_at c' r) =
      (if sent \<and> seq \<notin> keys (acksPending (sub_at c r)) \<and> seq > LastSent (sub_at c r) then seq
       else LastSent (sub_at c r))"
    and "c_slog c' = (if sent \<and> seq \<notin> keys (acksPending (sub_at c r))
       then c_slog c @ [RecMsg (ID (sub_at c r)) seq] else c_slog c)"
    and "stalled (sub_at c' r) = (stalled (sub_at c r) \<or>
       sent \<and> seq \<notin> keys (acksPending (sub_at c r)) \<and> \<not> force \<and> i32 (ap + 1) = MaxInFlight (sub_at c r))"
    and "mr = (sent \<and> \<not> (seq \<notin> keys (acksPending (sub_at c r)) \<and> \<not> force \<and> i32 (ap + 1) = MaxInFlight (sub_at c r)))"
    and "sent = (seq \<in> keys (acksPending (sub_at c r)) \<or> e_addPending e (ID (sub_at c r)) seq)"
  using assms unfolding add_pending_def Let_def
  by (auto simp: mget_None_iff set_pending_def bump_lastSent_def dest: mget_Some_keys split: option.splits if_splits)

lemma only_sub_send:
  assumes "sendMsgToSub e r m force c = ((sent, mr), c')"
  shows "only_sub r c c'"
proof -
  obtain m' c1 where mc: "(if Redelivered m then updateRedeliveryCount r m c else (m, c)) = (m', c1)"
    by (metis surj_pair)
  then have c1: "only_sub r c c1" by (auto split: if_splits dest: only_sub_count)
  show ?thesis
    using assms c1 only_sub_trans [OF only_sub_trans [OF c1 only_sub_publish] only_sub_add_pending]
    by (auto simp: sendMsgToSub_def Let_def mc intro: only_sub_upd_sub split: if_splits)
qed

definition can_send :: "subState \<Rightarrow> MsgProto \<Rightarrow> bool \<Rightarrow> bool" where
  "can_send sub m force \<longleftrightarrow>
     \<not> cannot_send sub m \<and> (force \<or> i32 (int (length (acksPending sub))) < MaxInFlight sub)"

lemma send_effect:
  assumes "sendMsgToSub e r m force c = ((sent, mr), c')"
  defines "sub \<equiv> sub_at c r" and "sub' \<equiv> sub_at c' r" and "seq \<equiv> Sequence m"
  shows send_sent_can: "sent \<Longrightarrow> can_send sub m force"
    and send_sent_pending: "sent \<Longrightarrow> \<exists>t. acksPending sub' = mput seq t (acksPending sub)"
    and send_unsent_pending: "\<not> sent \<Longrightarrow> acksPending sub' = acksPending sub"
    and send_LastSent: "LastSent sub' =
      (if sent \<and> seq \<notin> keys (acksPending sub) \<and> seq > LastSent sub then seq else LastSent sub)"
    and send_slog: "c_slog c' = (if sent \<and> seq \<notin> keys (acksPending sub)
       then c_slog c @ [RecMsg (ID sub) seq] else c_slog c)"
    and send_out: "sent \<Longrightarrow> \<exists>m'. c_out c' = c_out c @ [(Inbox sub, m')] \<and>
       (if Redelivered m then \<exists>n. m' = m\<lparr>RedeliveryCount := n\<rparr> else m' = m)"
    and send_more: "mr = (sent \<and> \<not> (seq \<notin> keys (acksPending sub) \<and> \<not> force \<and>
       i32 (i32 (int (length (acksPending sub))) + 1) = MaxInFlight sub))"
    and send_stalled: "sent \<Longrightarrow> stalled sub' = (stalled sub \<or> seq \<notin> keys (acksPending sub) \<and> \<not> force \<and>
       i32 (i32 (int (length (acksPending sub))) + 1) = MaxInFlight sub)"
    and send_stalled_mono: "stalled sub \<Longrightarrow> stalled sub'"
    and send_stalled_unsent: "\<not> sent \<Longrightarrow> stalled sub' = (stalled sub \<or>
       \<not> cannot_send sub m \<and> \<not> force \<and> i32 (int (length (acksPending sub))) \<ge> MaxInFlight sub)"
proof -
  obtain m' c1 where mc: "(if Redelivered m then updateRedeliveryCount r m c else (m, c)) = (m', c1)"
    by (metis surj_pair)
  then have c1: "only_sub r c c1" "acksPending (sub_at c1 r) = acksPending sub" "LastSent (sub_at c1 r) = LastSent sub"
    "stalled (sub_at c1 r) = stalled sub" "c_out c1 = c_out c" "c_slog c1 = c_slog c"
    "if Redelivered m then \<exists>n. m' = m\<lparr>RedeliveryCount := n\<rparr> else m' = m"
    by (auto simp: sub_def split: if_splits dest: only_sub_count count_fields)
  from c1(1) have st: "ID (sub_at c1 r) = ID sub" "Inbox (sub_at c1 r) = Inbox sub"
    "MaxInFlight (sub_at c1 r) = MaxInFlight sub"
    by (simp_all add: only_sub_def static_eq_def sub_def)
  let ?ap = "i32 (int (length (acksPending sub)))"
  have cases: "(cannot_send sub m \<and> \<not> sent \<and> \<not> mr \<and> c' = c) \<or>
    (\<not> cannot_send sub m \<and> \<not> force \<and> ?ap \<ge> MaxInFlight sub \<and> \<not> sent \<and> \<not> mr \<and>
       c' = upd_sub r (\<lambda>s. s\<lparr>stalled := True\<rparr>) c) \<or>
    (can_send sub m force \<and> \<not> sent \<and> \<not> mr \<and> c' = c1) \<or>
    (can_send sub m force \<and> add_pending e r seq force ?ap (publish r m' c1) = ((sent, mr), c'))"
    using assms(1) unfolding sendMsgToSub_def Let_def mc can_send_def
    by (auto simp: sub_def seq_def split: if_splits)
  note ap = add_pending_effect [of e r seq force ?ap "publish r m' c1" sent mr c']
  show "sent \<Longrightarrow> can_send sub m force" using cases by auto
  show "sent \<Longrightarrow> \<exists>t. acksPending sub' = mput seq t (acksPending sub)"
    using cases ap(2) c1(2) by (auto simp: sub'_def)
  show "\<not> sent \<Longrightarrow> acksPending sub' = acksPending sub"
    using cases ap(3) c1(2) by (auto simp: sub'_def sub_def)
  show "LastSent sub' =
      (if sent \<and> seq \<notin> keys (acksPending sub) \<and> seq > LastSent sub then seq else LastSent sub)"
    using cases ap(4) c1(2,3) by (auto simp: sub'_def sub_def)
  show "c_slog c' = (if sent \<and> seq \<notin> keys (acksPending sub)
       then c_slog c @ [RecMsg (ID sub) seq] else c_slog c)"
    using cases ap(5) c1(2,6) st(1) by (auto simp: sub_def)
  show "sent \<Longrightarrow> \<exists>m'. c_out c' = c_out c @ [(Inbox sub, m')] \<and>
       (if Redelivered m then \<exists>n. m' = m\<lparr>RedeliveryCount := n\<rparr> else m' = m)"
    using cases ap(1) c1(5,7) st(2) by (intro exI [of _ m']) auto
  show "mr = (sent \<and> \<not> (seq \<notin> keys (acksPending sub) \<and> \<not> force \<and> i32 (?ap + 1) = MaxInFlight sub))"
    using cases ap(7) c1(2) st(3) by auto
  show "sent \<Longrightarrow> stalled sub' = (stalled sub \<or> seq \<notin> keys (acksPending sub) \<and> \<not> force \<and>
       i32 (?ap + 1) = MaxInFlight sub)"
    using cases ap(6) c1(2,4) st(3) by (auto simp: sub'_def)
  show "stalled sub \<Longrightarrow> stalled sub'"
    using cases ap(6) c1(4) by (auto simp: sub'_def sub_def)
  show "\<not> sent \<Longrightarrow> stalled sub' = (stalled sub \<or>
       \<not> cannot_send sub m \<and> \<not> force \<and> ?ap \<ge> MaxInFlight sub)"
    using cases ap(6) c1(4) by (auto simp: sub'_def sub_def can_send_def)
qed


section \<open>The next message\<close>

definition env_ok :: "env \<Rightarrow> bool" where
  "env_ok e \<longleftrightarrow> (\<forall>i m. e_publish e i m) \<and> (\<forall>i q. e_addPending e i q) \<and> (\<forall>i q. e_ackPending e i q) \<and>
     (\<forall>q. e_lookup e q)"

definition newer :: "u64 \<Rightarrow> MsgProto list \<Rightarrow> MsgProto list" where
  "newer n xs = filter (\<lambda>m. Sequence m > n) xs"

lemma consec_sorted: "consec k xs \<Longrightarrow> sorted_wrt (\<lambda>a b. Sequence a < Sequence b) xs"
proof (induction xs arbitrary: k)
  case (Cons x xs)
  then show ?case using consec_range [of "Suc k" xs] by (fastforce simp: word_less_nat_alt)
qed simp

lemma ms_log_sorted: "ms_log msize ms xs \<Longrightarrow> sorted_wrt (\<lambda>a b. Sequence a < Sequence b) xs"
  by (auto simp: ms_log_def dest: consec_sorted split: if_splits)

lemma newer_Cons_next:
  assumes "ms_log msize ms xs" "newer n xs = y # ys"
  shows "newer (Sequence y) xs = ys" "n < Sequence y" "y \<in> set xs"
proof -
  have sorted: "sorted_wrt (\<lambda>a b. Sequence a < Sequence b) (newer n xs)"
    unfolding newer_def by (rule sorted_wrt_filter [OF ms_log_sorted [OF assms(1)]])
  have "y \<in> set (newer n xs)" using assms(2) by simp
  then show y: "n < Sequence y" "y \<in> set xs" by (auto simp: newer_def)
  have "newer (Sequence y) xs = newer (Sequence y) (newer n xs)"
    using y(1) by (auto simp: newer_def intro!: filter_cong)
  also have "\<dots> = ys"
    using sorted assms(2) by (auto simp: newer_def filter_id_conv)
  finally show "newer (Sequence y) xs = ys" .
qed

lemma getNextMsg_found:
  assumes "ms_log msize ms xs" "\<And>q. e_lookup e q" "newer n xs = y # ys"
  shows "getNextMsg e ms False (n + 1) n = (Some y, Sequence y, Sequence y - 1)"
proof -
  note y = newer_Cons_next [OF assms(1,3)]
  from y(2) have n: "n \<noteq> - 1" by (rule seq_less_not_max)
  have look: "Lookup ms (Sequence y) = Some y" using ms_log_lookup [OF assms(1)] y(3) by simp
  show ?thesis
  proof (cases "Sequence y = n + 1")
    case True
    then have "n = Sequence y - 1" by simp
    with True show ?thesis using look assms(2) by (subst getNextMsg.simps) simp
  next
    case False
    with y(2) n have lt: "n + 1 < Sequence y" by (simp add: seq_Suc_le le_neq_trans less_le)
    have none: "Lookup ms (n + 1) = None"
    proof (rule ccontr)
      assume "Lookup ms (n + 1) \<noteq> None"
      then obtain m where m: "m \<in> set xs" "Sequence m = n + 1" using ms_log_lookup [OF assms(1)] by blast
      with n have "m \<in> set (newer n xs)" by (simp add: newer_def seq_less_Suc)
      with assms(3) newer_Cons_next(1) [OF assms(1,3)] m lt have "m \<in> set (newer (Sequence y) xs)" by auto
      with m lt show False by (auto simp: newer_def)
    qed
    have inr: "ms_first ms \<noteq> 0 \<and> ms_first ms \<le> Sequence y \<and> Sequence y \<le> ms_last ms"
      using ms_log_lookup_iff [OF assms(1), of "Sequence y"] look by simp
    with none lt ms_log_lookup_iff [OF assms(1), of "n + 1"] have nf: "n + 1 < ms_first ms" by auto
    obtain x zs where xs: "xs = x # zs" using y(3) by (cases xs) auto
    have x: "Sequence x = ms_first ms" "Lookup ms (ms_first ms) = Some x"
      using ms_log_first [OF assms(1) [unfolded xs]] by (simp_all add: Lookup_def)
    have "n < Sequence x" using nf n x(1) by (metis less_trans seq_less_Suc)
    then have "y = x" using assms(3) by (simp add: newer_def xs)
    have step: "getNextMsg e ms False (n + 1) n = getNextMsg e ms True (ms_first ms) (ms_first ms - 1)"
      using none assms(2) nf inr lt by (subst getNextMsg.simps) (auto simp: FirstAndLastSequence_def Let_def)
    have "getNextMsg e ms True (ms_first ms) (ms_first ms - 1) = (Some x, ms_first ms, ms_first ms - 1)"
      using x assms(2) by (subst getNextMsg.simps) simp
    with step x \<open>y = x\<close> show ?thesis by simp
  qed
qed

lemma getNextMsg_none:
  assumes "ms_log msize ms xs" "\<And>q. e_lookup e q" "newer n xs = []" "n \<noteq> - 1"
  shows "\<exists>nx n'. getNextMsg e ms False (n + 1) n = (None, nx, n') \<and> n \<le> n' \<and> n' \<noteq> - 1 \<and> newer n' xs = []"
proof -
  have none: "Lookup ms q = None" if "n < q" for q
    using that assms(3) ms_log_lookup [OF assms(1)] by (cases "Lookup ms q") (auto simp: newer_def filter_empty_conv)
  show ?thesis
  proof (cases "n + 1 < ms_last ms")
    case False
    then show ?thesis
      using none [of "n + 1"] assms
      by (subst getNextMsg.simps) (simp add: FirstAndLastSequence_def Let_def not_less seq_less_Suc)
  next
    case True
    then have gt: "n < ms_last ms" using assms(4) by (meson less_trans seq_less_Suc)
    from none [OF gt] ms_log_lookup_iff [OF assms(1), of "ms_last ms"] True
    have f: "ms_last ms < ms_first ms" "ms_first ms \<noteq> 0"
      using assms(1) by (auto simp: ms_log_def not_le split: if_splits)
    then have xs: "xs = []" using assms(1) ms_log_last(3) [OF assms(1)] by (meson leD)
    with assms(1) f have "unat (ms_first ms) = Suc (unat (ms_last ms))" by (simp add: ms_log_def)
    moreover have nm: "ms_last ms \<noteq> - 1" using assms(1) by (simp add: ms_log_def)
    ultimately have fl: "ms_first ms = ms_last ms + 1" by (simp add: word_unat_eq_iff unat_seq_Suc)
    have "getNextMsg e ms False (n + 1) n = getNextMsg e ms True (ms_first ms) (ms_first ms - 1)"
      using none [of "n + 1"] True f assms(2,4)
      by (subst getNextMsg.simps) (auto simp: FirstAndLastSequence_def Let_def seq_less_Suc)
    also have "\<dots> = (None, ms_first ms, ms_first ms - 1)"
      using none [of "ms_first ms"] f gt assms(2)
      by (subst getNextMsg.simps) (auto simp: FirstAndLastSequence_def Let_def)
    finally show ?thesis using gt nm xs fl by (simp add: newer_def)
  qed
qed


section \<open>Sending available messages to a subscription\<close>

text \<open>A subscription that can be sent new messages, with its pending messages not after \<open>LastSent\<close>.\<close>

definition sub_ready :: "subState \<Rightarrow> bool" where
  "sub_ready s \<longleftrightarrow>
     initialized s \<and> ClientID s \<noteq> [] \<and> \<not> newOnHold s \<and> wf_map (acksPending s) \<and>
     (\<forall>q \<in> keys (acksPending s). q \<le> LastSent s) \<and>
     int (length (acksPending s)) \<le> MaxInFlight s \<and> MaxInFlight s < 2 ^ 31 \<and> LastSent s \<noteq> - 1"

definition room :: "subState \<Rightarrow> nat" where
  "room s = nat (MaxInFlight s - int (length (acksPending s)))"

text \<open>\<open>c'\<close> results from sending the messages \<open>zs\<close> as new ones to \<open>r\<close>.\<close>

definition delivered :: "sref \<Rightarrow> MsgProto list \<Rightarrow> chan \<Rightarrow> chan \<Rightarrow> bool" where
  "delivered r zs c c' \<longleftrightarrow>
     only_sub r c c' \<and>
     c_out c' = c_out c @ map (Pair (Inbox (sub_at c r))) zs \<and>
     c_slog c' = c_slog c @ map (\<lambda>m. RecMsg (ID (sub_at c r)) (Sequence m)) zs \<and>
     keys (acksPending (sub_at c' r)) = keys (acksPending (sub_at c r)) \<union> Sequence ` set zs \<and>
     length (acksPending (sub_at c' r)) = length (acksPending (sub_at c r)) + length zs"

lemma delivered_Nil: "only_sub r c c' \<Longrightarrow> c_out c' = c_out c \<Longrightarrow> c_slog c' = c_slog c \<Longrightarrow>
   acksPending (sub_at c' r) = acksPending (sub_at c r) \<Longrightarrow> delivered r [] c c'"
  by (simp add: delivered_def)

lemma delivered_append:
  assumes "delivered r zs a b" "delivered r ws b c"
  shows "delivered r (zs @ ws) a c"
proof -
  have "only_sub r a c" using assms only_sub_trans by (auto simp: delivered_def)
  moreover have "Inbox (sub_at b r) = Inbox (sub_at a r)" "ID (sub_at b r) = ID (sub_at a r)"
    using assms by (simp_all add: delivered_def only_sub_def static_eq_def)
  ultimately show ?thesis using assms by (auto simp: delivered_def image_Un)
qed

lemma send_new:
  assumes "env_ok e" "sub_ready (sub_at c r)" "room (sub_at c r) > 0" "\<not> Redelivered m"
    and "LastSent (sub_at c r) < Sequence m" "Sequence m \<noteq> - 1"
    and "sendMsgToSub e r m False c = ((sent, mr), c')"
  shows "sent" and "delivered r [m] c c'" and "sub_ready (sub_at c' r)"
    and "LastSent (sub_at c' r) = Sequence m"
    and "mr \<longleftrightarrow> room (sub_at c r) > 1"
    and "stalled (sub_at c' r) \<longleftrightarrow> stalled (sub_at c r) \<or> room (sub_at c r) = 1"
proof -
  let ?s = "sub_at c r" and ?s' = "sub_at c' r"
  note eff = send_effect [OF assms(7)]
  have fresh: "Sequence m \<notin> keys (acksPending ?s)"
    using assms(2,5) by (auto simp: sub_ready_def)
  have len: "i32 (int (length (acksPending ?s))) = int (length (acksPending ?s))"
    "i32 (int (length (acksPending ?s)) + 1) = int (length (acksPending ?s)) + 1"
    using assms(2,3) by (simp_all add: sub_ready_def room_def)
  have "can_send ?s m False"
    using assms(2,3) len by (auto simp: can_send_def cannot_send_def sub_ready_def room_def)
  then show sent
    using assms(1,4,7) add_pending_effect(8) [of e r "Sequence m" False _ "publish r m c"]
    by (auto simp: sendMsgToSub_def Let_def can_send_def env_ok_def split: if_splits)
  with eff fresh assms(4,5) have new: "\<exists>t. acksPending ?s' = mput (Sequence m) t (acksPending ?s)"
    "LastSent ?s' = Sequence m" "c_slog c' = c_slog c @ [RecMsg (ID ?s) (Sequence m)]"
    "c_out c' = c_out c @ [(Inbox ?s, m)]"
    by auto
  from new(2) show "LastSent ?s' = Sequence m" .
  have os: "only_sub r c c'" by (rule only_sub_send [OF assms(7)])
  have wf: "wf_map (acksPending ?s)" using assms(2) by (simp add: sub_ready_def)
  with new(1) fresh have pend: "keys (acksPending ?s') = insert (Sequence m) (keys (acksPending ?s))"
    "length (acksPending ?s') = Suc (length (acksPending ?s))" "wf_map (acksPending ?s')"
    by (auto simp: length_mput)
  show "delivered r [m] c c'" using os new pend by (simp add: delivered_def)
  have "static_eq ?s ?s'" using os by (simp add: only_sub_def)
  with pend new(2) assms(2,3,5,6) show "sub_ready ?s'"
    by (auto simp: sub_ready_def static_eq_def room_def)
  from eff(7) \<open>sent\<close> fresh len assms(2,3) show "mr \<longleftrightarrow> room ?s > 1"
    by (auto simp: room_def sub_ready_def)
  from eff(8) \<open>sent\<close> fresh len assms(2,3) show "stalled ?s' \<longleftrightarrow> stalled ?s \<or> room ?s = 1"
    by (auto simp: room_def sub_ready_def)
qed

lemma send_full:
  assumes "sub_ready (sub_at c r)" "room (sub_at c r) = 0" "\<not> Redelivered m"
  shows "sendMsgToSub e r m False c = ((False, False), upd_sub r (\<lambda>s. s\<lparr>stalled := True\<rparr>) c)"
  using assms by (auto simp: sendMsgToSub_def cannot_send_def sub_ready_def room_def)

lemma newer_skip:
  assumes "ms_log msize ms xs" "newer n xs = y # ys"
  shows "newer (Sequence y - 1) xs = y # ys"
proof -
  note y = newer_Cons_next [OF assms]
  have "Sequence y \<noteq> 0" using y(2) by auto
  then have "n \<le> Sequence y - 1" "Sequence y - 1 < Sequence y"
    using y(2) by (simp_all add: seq_le_pred seq_pred_less)
  then have "newer (Sequence y - 1) xs = newer (Sequence y - 1) (newer n xs)"
    by (auto simp: newer_def intro!: filter_cong)
  also have "\<dots> = y # filter (\<lambda>m. Sequence y - 1 < Sequence m) ys"
    unfolding assms(2) using \<open>Sequence y - 1 < Sequence y\<close> by (simp add: newer_def)
  also have "\<dots> = y # ys"
  proof -
    have "Sequence y - 1 < Sequence m" if "m \<in> set ys" for m
      using that y(1) \<open>Sequence y - 1 < Sequence y\<close> by (auto simp: newer_def)
    then show ?thesis by (simp add: filter_id_conv)
  qed
  finally show ?thesis .
qed

lemma ms_log_not_max:
  assumes "ms_log msize ms xs" "y \<in> set xs"
  shows "Sequence y \<noteq> - 1"
proof -
  have "Sequence y \<le> ms_last ms"
    using ms_log_lookup_iff [OF assms(1), of "Sequence y"] ms_log_lookup [OF assms(1)] assms(2) by auto
  then show ?thesis using assms(1) by (auto simp: ms_log_def word_order.extremum_unique)
qed

lemma seq_between:
  assumes "(a::u64) < b"
  shows "b \<noteq> 0" "a \<le> b - 1" "b - 1 < b" "b - 1 \<noteq> - 1"
proof -
  show b: "b \<noteq> 0" using assms by auto
  then show "a \<le> b - 1" using assms by (simp add: seq_le_pred)
  show lt: "b - 1 < b" using b by (rule seq_pred_less)
  then show "b - 1 \<noteq> - 1" by (rule seq_less_not_max)
qed

lemma avail_loop_none:
  fixes n :: nat
  assumes "env_ok e" "ms_log msize (c_msgs c) xs" "sub_ready (sub_at c r)" "\<not> stalled (sub_at c r)"
    and "newer (LastSent (sub_at c r)) xs = []"
  defines "c' \<equiv> avail_loop (Suc n) e r (LastSent (sub_at c r) + 1) c"
  shows "delivered r [] c c'" "sub_ready (sub_at c' r)" "newer (LastSent (sub_at c' r)) xs = []"
    "LastSent (sub_at c r) \<le> LastSent (sub_at c' r)" "\<not> stalled (sub_at c' r)"
proof -
  let ?s = "sub_at c r"
  obtain nx n' where nx: "getNextMsg e (c_msgs c) False (LastSent ?s + 1) (LastSent ?s) = (None, nx, n')"
    "LastSent ?s \<le> n'" "n' \<noteq> - 1" "newer n' xs = []"
    using getNextMsg_none [OF assms(2), of e "LastSent ?s"] assms(1,3,5)
    by (auto simp: env_ok_def sub_ready_def)
  then have c': "c' = upd_sub r (\<lambda>s. s\<lparr>LastSent := n'\<rparr>) c"
    using assms(4) by (simp add: c'_def)
  show "delivered r [] c c'" unfolding c' by (rule delivered_Nil) (simp_all add: only_sub_upd_sub)
  show "sub_ready (sub_at c' r)" using assms(3) nx(2,3) by (auto simp: c' sub_ready_def)
  show "newer (LastSent (sub_at c' r)) xs = []" "LastSent ?s \<le> LastSent (sub_at c' r)"
    "\<not> stalled (sub_at c' r)"
    using nx assms(4) by (simp_all add: c')
qed

text \<open>One iteration that finds the message \<open>y\<close>: \<open>c1\<close> is the state after \<open>getNextMsg\<close>.\<close>

lemma avail_loop_found:
  assumes "env_ok e" "list_all (\<lambda>m. \<not> Redelivered m) xs" "ms_log msize (c_msgs c) xs"
    "sub_ready (sub_at c r)" "\<not> stalled (sub_at c r)" "newer (LastSent (sub_at c r)) xs = y # zs"
  obtains c1 where "delivered r [] c c1" "sub_ready (sub_at c1 r)" "room (sub_at c1 r) = room (sub_at c r)"
    "stalled (sub_at c1 r) = stalled (sub_at c r)" "LastSent (sub_at c1 r) = Sequence y - 1"
    "\<And>n. avail_loop (Suc n) e r (LastSent (sub_at c r) + 1) c =
       (case sendMsgToSub e r y False c1 of
          ((sent, mr), c2) \<Rightarrow> if \<not> sent \<or> \<not> mr then c2 else avail_loop n e r (Sequence y + 1) c2)"
proof -
  let ?s = "sub_at c r"
  define c1 where "c1 = upd_sub r (\<lambda>s. s\<lparr>LastSent := Sequence y - 1\<rparr>) c"
  note y = newer_Cons_next [OF assms(3,6)]
  have "getNextMsg e (c_msgs c) False (LastSent ?s + 1) (LastSent ?s) = (Some y, Sequence y, Sequence y - 1)"
    using getNextMsg_found [OF assms(3) _ assms(6)] assms(1) by (simp add: env_ok_def)
  then have "avail_loop (Suc n) e r (LastSent ?s + 1) c =
       (case sendMsgToSub e r y False c1 of
          ((sent, mr), c2) \<Rightarrow> if \<not> sent \<or> \<not> mr then c2 else avail_loop n e r (Sequence y + 1) c2)" for n
    using assms(5) by (simp add: c1_def case_prod_unfold)
  moreover have "sub_ready (sub_at c1 r)"
    using assms(4) seq_between [OF y(2)] by (auto simp: sub_ready_def c1_def)
  moreover have "delivered r [] c c1"
    unfolding c1_def by (rule delivered_Nil) (simp_all add: only_sub_upd_sub)
  ultimately show thesis by (intro that [of c1]) (simp_all add: c1_def room_def)
qed

lemma avail_loop_send:
  assumes "env_ok e" "list_all (\<lambda>m. \<not> Redelivered m) xs" "ms_log msize (c_msgs c) xs"
    "sub_ready (sub_at c r)" "\<not> stalled (sub_at c r)" "newer (LastSent (sub_at c r)) xs = y # zs"
    "room (sub_at c r) > 0"
  obtains c2 where "delivered r [y] c c2" "sub_ready (sub_at c2 r)" "c_msgs c2 = c_msgs c"
    "newer (LastSent (sub_at c2 r)) xs = zs" "LastSent (sub_at c r) \<le> LastSent (sub_at c2 r)"
    "room (sub_at c2 r) = room (sub_at c r) - 1" "stalled (sub_at c2 r) = (room (sub_at c r) = 1)"
    "\<And>n. avail_loop (Suc n) e r (LastSent (sub_at c r) + 1) c =
       (if room (sub_at c r) = 1 then c2 else avail_loop n e r (LastSent (sub_at c2 r) + 1) c2)"
proof -
  let ?s = "sub_at c r"
  note y = newer_Cons_next [OF assms(3,6)]
  obtain c1 where c1: "delivered r [] c c1" "sub_ready (sub_at c1 r)"
    "room (sub_at c1 r) = room ?s" "stalled (sub_at c1 r) = stalled ?s" "LastSent (sub_at c1 r) = Sequence y - 1"
    and loop: "\<And>n. avail_loop (Suc n) e r (LastSent ?s + 1) c =
       (case sendMsgToSub e r y False c1 of
          ((sent, mr), c2) \<Rightarrow> if \<not> sent \<or> \<not> mr then c2 else avail_loop n e r (Sequence y + 1) c2)"
    by (rule avail_loop_found [OF assms(1-6)], rule that) assumption+
  obtain sent mr c2 where send: "sendMsgToSub e r y False c1 = ((sent, mr), c2)" by (metis surj_pair)
  have nr: "\<not> Redelivered y" using assms(2) y(3) by (auto simp: list_all_iff)
  have rp: "room (sub_at c1 r) > 0" using c1(3) assms(7) by simp
  have lt: "LastSent (sub_at c1 r) < Sequence y" using c1(5) seq_between(3) [OF y(2)] by simp
  note new = send_new [OF assms(1) c1(2) rp nr lt ms_log_not_max [OF assms(3) y(3)] send, unfolded c1(3)]
  have del: "delivered r [y] c c2" using delivered_append [OF c1(1) new(2)] by simp
  then have same: "c_msgs c2 = c_msgs c" "MaxInFlight (sub_at c2 r) = MaxInFlight ?s"
    by (simp_all add: delivered_def only_sub_def same_reg_def static_eq_def)
  have "room (sub_at c2 r) = room ?s - 1" using del same(2) by (auto simp: delivered_def room_def)
  moreover have "newer (LastSent (sub_at c2 r)) xs = zs" "LastSent ?s \<le> LastSent (sub_at c2 r)"
    using y(1,2) new(4) by simp_all
  moreover have "avail_loop (Suc n) e r (LastSent ?s + 1) c =
       (if room ?s = 1 then c2 else avail_loop n e r (LastSent (sub_at c2 r) + 1) c2)" for n
    using loop [of n] send new(1,4,5) assms(7) by auto
  ultimately show thesis using del new(3,6) same(1) c1(4) assms(5) by (intro that [of c2]) auto
qed

lemma avail_loop_full:
  fixes n :: nat
  assumes "env_ok e" "list_all (\<lambda>m. \<not> Redelivered m) xs" "ms_log msize (c_msgs c) xs"
    "sub_ready (sub_at c r)" "\<not> stalled (sub_at c r)" "newer (LastSent (sub_at c r)) xs = y # zs"
    "room (sub_at c r) = 0"
  defines "c' \<equiv> avail_loop (Suc n) e r (LastSent (sub_at c r) + 1) c"
  shows "delivered r [] c c'" "sub_ready (sub_at c' r)" "newer (LastSent (sub_at c' r)) xs = y # zs"
    "LastSent (sub_at c r) \<le> LastSent (sub_at c' r)" "stalled (sub_at c' r)"
proof -
  note y = newer_Cons_next [OF assms(3,6)]
  obtain c1 where c1: "delivered r [] c c1" "sub_ready (sub_at c1 r)"
    "room (sub_at c1 r) = room (sub_at c r)" "stalled (sub_at c1 r) = stalled (sub_at c r)"
    "LastSent (sub_at c1 r) = Sequence y - 1"
    and loop: "\<And>n. avail_loop (Suc n) e r (LastSent (sub_at c r) + 1) c =
       (case sendMsgToSub e r y False c1 of
          ((sent, mr), c2) \<Rightarrow> if \<not> sent \<or> \<not> mr then c2 else avail_loop n e r (Sequence y + 1) c2)"
    by (rule avail_loop_found [OF assms(1-6)], rule that) assumption+
  have "\<not> Redelivered y" using assms(2) y(3) by (auto simp: list_all_iff)
  with loop [of n] send_full [OF c1(2) _ this] c1(3) assms(7)
  have c': "c' = upd_sub r (\<lambda>s. s\<lparr>stalled := True\<rparr>) c1" by (simp add: c'_def)
  have "delivered r [] c1 c'" unfolding c' by (rule delivered_Nil) (simp_all add: only_sub_upd_sub)
  with delivered_append [OF c1(1)] show "delivered r [] c c'" by fastforce
  show "sub_ready (sub_at c' r)" using c1(2) by (simp add: c' sub_ready_def)
  show "newer (LastSent (sub_at c' r)) xs = y # zs"
    using newer_skip [OF assms(3,6)] c1(5) by (simp add: c')
  show "LastSent (sub_at c r) \<le> LastSent (sub_at c' r)" "stalled (sub_at c' r)"
    using seq_between(2) [OF y(2)] c1(5) by (simp_all add: c')
qed

lemma avail_loop_spec:
  assumes "env_ok e" "list_all (\<lambda>m. \<not> Redelivered m) xs"
  shows "ms_log msize (c_msgs c) xs \<Longrightarrow> sub_ready (sub_at c r) \<Longrightarrow>
    length (newer (LastSent (sub_at c r)) xs) < n \<Longrightarrow>
    (let s = sub_at c r; ys = newer (LastSent s) xs;
         k = (if stalled s then 0 else min (length ys) (room s));
         c' = avail_loop n e r (LastSent s + 1) c
     in delivered r (take k ys) c c' \<and> newer (LastSent (sub_at c' r)) xs = drop k ys \<and>
        sub_ready (sub_at c' r) \<and> LastSent s \<le> LastSent (sub_at c' r) \<and>
        stalled (sub_at c' r) = (stalled s \<or> ys \<noteq> [] \<and> room s \<le> length ys))"
proof (induction n arbitrary: c)
  case (Suc n)
  let ?s = "sub_at c r" and ?c' = "avail_loop (Suc n) e r (LastSent (sub_at c r) + 1) c"
  consider (stalled) "stalled ?s" | (none) "\<not> stalled ?s" "newer (LastSent ?s) xs = []"
    | (full) y zs where "\<not> stalled ?s" "newer (LastSent ?s) xs = y # zs" "room ?s = 0"
    | (send) y zs where "\<not> stalled ?s" "newer (LastSent ?s) xs = y # zs" "room ?s > 0"
    by (cases "newer (LastSent ?s) xs") auto
  then show ?case
  proof cases
    case stalled
    with Suc.prems show ?thesis by (simp add: delivered_def)
  next
    case none
    from avail_loop_none [OF assms(1) Suc.prems(1,2) none, of n] none show ?thesis
      by (simp add: Let_def)
  next
    case full
    from avail_loop_full [OF assms Suc.prems(1,2) full, of n] full show ?thesis
      by (simp add: Let_def)
  next
    case send
    obtain c2 where c2: "delivered r [y] c c2" "sub_ready (sub_at c2 r)"
      "c_msgs c2 = c_msgs c" "newer (LastSent (sub_at c2 r)) xs = zs" "LastSent ?s \<le> LastSent (sub_at c2 r)"
      "room (sub_at c2 r) = room ?s - 1" "stalled (sub_at c2 r) = (room ?s = 1)"
      and loop: "\<And>n. avail_loop (Suc n) e r (LastSent ?s + 1) c =
         (if room ?s = 1 then c2 else avail_loop n e r (LastSent (sub_at c2 r) + 1) c2)"
      by (rule avail_loop_send [OF assms Suc.prems(1,2) send], rule that) assumption+
    show ?thesis
    proof (cases "room ?s = 1")
      case True
      with c2 loop [of n] send show ?thesis by (simp add: Let_def)
    next
      case False
      let ?k = "min (length zs) (room ?s - 1)"
      have eq: "?c' = avail_loop n e r (LastSent (sub_at c2 r) + 1) c2" using loop [of n] False by simp
      have "length zs < n" using Suc.prems(3) send(2) by simp
      with Suc.IH [of c2] Suc.prems(1) c2 False
      have ih: "delivered r (take ?k zs) c2 ?c'" "newer (LastSent (sub_at ?c' r)) xs = drop ?k zs"
        "sub_ready (sub_at ?c' r)" "LastSent (sub_at c2 r) \<le> LastSent (sub_at ?c' r)"
        "stalled (sub_at ?c' r) = (zs \<noteq> [] \<and> room ?s - 1 \<le> length zs)"
        unfolding eq by (simp_all add: Let_def)
      have k: "min (Suc (length zs)) (room ?s) = Suc ?k" using False send(3) by auto
      have "delivered r (y # take ?k zs) c ?c'" using delivered_append [OF c2(1) ih(1)] by simp
      with ih k send c2(5) False show ?thesis by (auto simp: Let_def simp del: avail_loop.simps)
    qed
  qed
qed simp


lemma sendAvailableMessages_ready:
  assumes "env_ok e" "list_all (\<lambda>m. \<not> Redelivered m) xs" "ms_log msize (c_msgs c) xs" "sub_ready (sub_at c r)"
  shows "let s = sub_at c r; ys = newer (LastSent s) xs;
         k = (if stalled s then 0 else min (length ys) (room s));
         c' = sendAvailableMessages e r c
     in delivered r (take k ys) c c' \<and> newer (LastSent (sub_at c' r)) xs = drop k ys \<and>
        sub_ready (sub_at c' r) \<and> LastSent s \<le> LastSent (sub_at c' r) \<and>
        stalled (sub_at c' r) = (stalled s \<or> ys \<noteq> [] \<and> room s \<le> length ys)"
proof -
  have "length (newer (LastSent (sub_at c r)) xs) < avail_fuel c"
    by (simp add: avail_fuel_def ms_log_length [OF assms(3)] newer_def less_Suc_eq_le)
  from avail_loop_spec [OF assms this] show ?thesis by (simp add: sendAvailableMessages_def)
qed

end
