(* ===== verification/Delivery_Inv.thy ===== *)
theory Delivery_Inv
  imports Delivery_Proofs
begin

text \<open>
  The invariant of a channel under delivery, acknowledgement and redelivery, whatever the
  environment does: every handler keeps it.
\<close>

section \<open>The invariant of a channel\<close>

text \<open>
  Of a subscription: the pending messages are distinct and were sent, and a plain subscription
  never has more than \<open>MaxInFlight\<close> of them.
\<close>

definition sub_wf :: "subState \<Rightarrow> bool" where
  "sub_wf s \<longleftrightarrow> wf_map (acksPending s) \<and> (\<forall>q \<in> keys (acksPending s). q \<le> LastSent s) \<and> LastSent s \<noteq> - 1 \<and>
     (qstate s = None \<longrightarrow> int (length (acksPending s)) \<le> MaxInFlight s \<and> MaxInFlight s < 2 ^ 31)"

definition reg_ok :: "chan \<Rightarrow> bool" where
  "reg_ok c \<longleftrightarrow> (\<forall>q. q_lastSent (queue_at c q) \<noteq> - 1) \<and>
     (\<forall>q. \<forall>r \<in> set (q_subs (queue_at c q)). qstate (sub_at c r) = Some q) \<and>
     (\<forall>r \<in> set (psubs c). qstate (sub_at c r) = None)"

definition chan_wf :: "(MsgProto option \<Rightarrow> nat) \<Rightarrow> MsgProto list \<Rightarrow> chan \<Rightarrow> bool" where
  "chan_wf msize xs c \<longleftrightarrow> ms_log msize (c_msgs c) xs \<and> (\<forall>r. sub_wf (sub_at c r)) \<and> reg_ok c"

text \<open>No member of a queue group is ahead of the group.\<close>

definition lastSent_ok :: "chan \<Rightarrow> bool" where
  "lastSent_ok c \<longleftrightarrow>
     (\<forall>q. \<forall>r \<in> set (q_subs (queue_at c q)). LastSent (sub_at c r) \<le> q_lastSent (queue_at c q))"

definition chan_inv :: "(MsgProto option \<Rightarrow> nat) \<Rightarrow> MsgProto list \<Rightarrow> chan \<Rightarrow> bool" where
  "chan_inv msize xs c \<longleftrightarrow> chan_wf msize xs c \<and> lastSent_ok c"

lemma chan_wfD:
  assumes "chan_wf msize xs c"
  shows "ms_log msize (c_msgs c) xs" "sub_wf (sub_at c r)" "reg_ok c"
  using assms by (simp_all add: chan_wf_def)

lemma chan_invD:
  assumes "chan_inv msize xs c"
  shows "chan_wf msize xs c" "ms_log msize (c_msgs c) xs" "sub_wf (sub_at c r)" "reg_ok c" "lastSent_ok c"
  using assms by (simp_all add: chan_inv_def chan_wf_def)

lemma only_subD:
  assumes "only_sub r c c'"
  shows "c_msgs c' = c_msgs c" "psubs c' = psubs c" "x \<noteq> r \<Longrightarrow> sub_at c' x = sub_at c x"
    "qstate (sub_at c' x) = qstate (sub_at c x)" "MaxInFlight (sub_at c' x) = MaxInFlight (sub_at c x)"
    "q_lastSent (queue_at c' q) = q_lastSent (queue_at c q)" "q_subs (queue_at c' q) = q_subs (queue_at c q)"
  using assms by (cases "x = r"; auto simp: only_sub_def same_reg_def q_same_def static_eq_def)+

lemma chan_wf_only_sub:
  assumes "chan_wf msize xs c" "only_sub r c c'" "sub_wf (sub_at c' r)"
  shows "chan_wf msize xs c'"
proof -
  note o = only_subD [OF assms(2)]
  have "sub_wf (sub_at c' x)" for x using assms(1,3) o(3) by (cases "x = r") (auto simp: chan_wf_def)
  moreover have "reg_ok c'" using chan_wfD(3) [OF assms(1)] o by (simp add: reg_ok_def)
  ultimately show ?thesis using chan_wfD(1) [OF assms(1)] o by (simp add: chan_wf_def)
qed

lemma lastSent_only_sub:
  assumes "lastSent_ok c" "reg_ok c" "only_sub r c c'"
    and "qstate (sub_at c r) = None \<or> LastSent (sub_at c' r) = LastSent (sub_at c r)"
  shows "lastSent_ok c'"
proof -
  note o = only_subD [OF assms(3)]
  have "LastSent (sub_at c' x) \<le> q_lastSent (queue_at c q)" if "x \<in> set (q_subs (queue_at c q))" for x q
  proof (cases "x = r")
    case True
    with that assms(2,4) have "LastSent (sub_at c' x) = LastSent (sub_at c x)" by (auto simp: reg_ok_def)
    with that assms(1) show ?thesis by (simp add: lastSent_ok_def)
  next
    case False
    with that assms(1) show ?thesis by (simp add: lastSent_ok_def o(3))
  qed
  then show ?thesis by (simp add: lastSent_ok_def o)
qed

lemma chan_inv_only_sub:
  assumes "chan_inv msize xs c" "only_sub r c c'" "sub_wf (sub_at c' r)"
    and "qstate (sub_at c r) = None \<or> LastSent (sub_at c' r) = LastSent (sub_at c r)"
  shows "chan_inv msize xs c'"
  using chan_wf_only_sub [OF chan_invD(1) [OF assms(1)] assms(2,3)]
    lastSent_only_sub [OF chan_invD(5,4) [OF assms(1)] assms(2,4)]
  by (simp add: chan_inv_def)

lemma chan_inv_upd_sub:
  assumes "chan_inv msize xs c" "static_eq (sub_at c r) (f (sub_at c r))" "sub_wf (f (sub_at c r))"
    "LastSent (f (sub_at c r)) = LastSent (sub_at c r)"
  shows "chan_inv msize xs (upd_sub r f c)"
proof (rule chan_inv_only_sub [OF assms(1)])
  show "only_sub r c (upd_sub r f c)" using assms(2) by (simp add: only_sub_def same_reg_def)
qed (use assms in simp_all)

lemma chan_inv_upd_queue:
  assumes "chan_inv msize xs c" "q_lastSent (f (queue_at c q)) \<noteq> - 1"
    and "q_lastSent (queue_at c q) \<le> q_lastSent (f (queue_at c q))"
    and "set (q_subs (f (queue_at c q))) \<subseteq> set (q_subs (queue_at c q))"
  shows "chan_inv msize xs (upd_queue q f c)"
proof -
  have "LastSent (sub_at c r) \<le> q_lastSent (f (queue_at c q))" if "r \<in> set (q_subs (f (queue_at c q)))" for r
    using assms that unfolding chan_inv_def lastSent_ok_def by (blast intro: order_trans)
  with assms show ?thesis unfolding chan_inv_def chan_wf_def reg_ok_def lastSent_ok_def by auto
qed

lemma chan_inv_same [simp]:
  "chan_inv msize xs (log_rec x c) = chan_inv msize xs c"
  by (simp add: chan_inv_def chan_wf_def reg_ok_def lastSent_ok_def)

lemma sub_wf_upd [simp]:
  "sub_wf (s\<lparr>stalled := b\<rparr>) = sub_wf s" "sub_wf (s\<lparr>ackTimer := t\<rparr>) = sub_wf s"
  "sub_wf (s\<lparr>sub_replicate := x\<rparr>) = sub_wf s" "sub_wf (s\<lparr>rdlvCount := m\<rparr>) = sub_wf s"
  "sub_wf (s\<lparr>newOnHold := b\<rparr>) = sub_wf s"
  by (simp_all add: sub_wf_def)

lemma sub_wf_del [intro]: "sub_wf s \<Longrightarrow> sub_wf (del_pending q s)"
  by (auto simp: sub_wf_def del_pending_def length_mdel)

lemma sub_wf_set: "sub_wf s \<Longrightarrow> q \<in> keys (acksPending s) \<Longrightarrow> sub_wf (set_pending q t s)"
  by (auto simp: sub_wf_def set_pending_def length_mput insert_absorb)

lemma chan_inv_collect [intro]:
  assumes "chan_inv msize xs c"
  shows "chan_inv msize xs (collectSentOrAck r b q c)"
proof (rule chan_inv_only_sub [OF assms only_sub_collect])
  show "sub_wf (sub_at (collectSentOrAck r b q c) r)"
    using chan_invD(3) [OF assms, of r] by (simp add: collectSentOrAck_def Let_def)
qed simp

text \<open>A forced send to a plain subscription is only ever of a message that is pending there.\<close>

lemma send_wf:
  assumes "sendMsgToSub e r m force c = ((sent, mr), c')" "sub_wf (sub_at c r)" "Sequence m \<noteq> - 1"
    and "force \<Longrightarrow> qstate (sub_at c r) \<noteq> None \<or> Sequence m \<in> keys (acksPending (sub_at c r))"
  shows "sub_wf (sub_at c' r)"
proof -
  let ?s = "sub_at c r" and ?s' = "sub_at c' r"
  note eff = send_effect [OF assms(1)]
  have st: "static_eq ?s ?s'" using only_sub_send [OF assms(1)] by (simp add: only_sub_def)
  show ?thesis
  proof (cases sent)
    case False
    with eff(3,4) st assms(2) show ?thesis by (simp add: sub_wf_def static_eq_def)
  next
    case True
    with eff(2) obtain t where t: "acksPending ?s' = mput (Sequence m) t (acksPending ?s)" by blast
    have "int (length (acksPending ?s')) \<le> MaxInFlight ?s'" if "qstate ?s' = None"
    proof (cases "Sequence m \<in> keys (acksPending ?s)")
      case True
      with t that st assms(2) show ?thesis by (auto simp: sub_wf_def static_eq_def length_mput)
    next
      case False
      with assms(4) that st have "\<not> force" by (auto simp: static_eq_def)
      with eff(1) [OF True] have "i32 (int (length (acksPending ?s))) < MaxInFlight ?s"
        by (simp add: can_send_def)
      with t False that st assms(2) show ?thesis
        by (auto simp: sub_wf_def static_eq_def length_mput)
    qed
    moreover have "LastSent ?s \<le> LastSent ?s' \<and> LastSent ?s' \<noteq> - 1 \<and> Sequence m \<le> LastSent ?s'"
      using eff(4) True assms(2,3) by (auto simp: sub_wf_def not_less)
    ultimately show ?thesis
      using assms(2) static_eqD(6,12) [OF st]
      by (simp add: sub_wf_def t) (blast intro: order_trans)
  qed
qed

lemma send_chan_wf:
  assumes "sendMsgToSub e r m force c = ((sent, mr), c')" "chan_wf msize xs c" "Sequence m \<noteq> - 1"
    and "force \<Longrightarrow> qstate (sub_at c r) \<noteq> None \<or> Sequence m \<in> keys (acksPending (sub_at c r))"
  shows "chan_wf msize xs c'"
  by (rule chan_wf_only_sub [OF assms(2) only_sub_send [OF assms(1)]])
    (rule send_wf [OF assms(1) chan_wfD(2) [OF assms(2)] assms(3,4)])

lemma send_inv:
  assumes "sendMsgToSub e r m force c = ((sent, mr), c')" "chan_inv msize xs c" "Sequence m \<noteq> - 1"
    and "qstate (sub_at c r) = None \<and> \<not> force \<or> Sequence m \<in> keys (acksPending (sub_at c r))"
  shows "chan_inv msize xs c'"
proof (rule chan_inv_only_sub [OF assms(2) only_sub_send [OF assms(1)]])
  show "sub_wf (sub_at c' r)"
    using assms(4) by (intro send_wf [OF assms(1) chan_invD(3) [OF assms(2)] assms(3)]) auto
  show "qstate (sub_at c r) = None \<or> LastSent (sub_at c' r) = LastSent (sub_at c r)"
    using assms(4) send_LastSent [OF assms(1)] by auto
qed

lemma seq_both_Suc:
  fixes a b :: u64
  assumes "a < b" "b \<noteq> - 1"
  shows "a + 1 < b + 1" "a \<le> a + 1"
  using assms seq_less_not_max [OF assms(1)] by (simp_all add: word_less_nat_alt word_le_nat_alt unat_seq_Suc)

lemma getNextMsg_safe:
  "getNextMsg e ms later nextSeq lastSent = (mo, nx, ls) \<Longrightarrow> ms_log msize ms xs \<Longrightarrow>
   lastSent < nextSeq \<Longrightarrow>
   ls < nx \<and> lastSent \<le> ls \<and> (\<forall>m. mo = Some m \<longrightarrow> m \<in> set xs \<and> Sequence m = nx)"
proof (induction e ms later nextSeq lastSent arbitrary: mo nx ls rule: getNextMsg.induct)
  case (1 e ms later nextSeq lastSent)
  note lt = "1.prems"(3)
  show ?case
  proof (cases "e_lookup e nextSeq \<and> Lookup ms nextSeq = None \<and> nextSeq < ms_last ms")
    case False
    then have "getNextMsg e ms later nextSeq lastSent =
        (if e_lookup e nextSeq then Lookup ms nextSeq else None, nextSeq, lastSent)"
      by (subst getNextMsg.simps) (auto simp: FirstAndLastSequence_def Let_def split: option.splits)
    with "1.prems"(1) have "(mo, nx, ls) = (if e_lookup e nextSeq then Lookup ms nextSeq else None, nextSeq, lastSent)"
      by (rule trans [OF sym])
    with lt show ?thesis by (simp add: ms_log_lookup [OF "1.prems"(2)])
  next
    case True
    then have nm: "nextSeq \<noteq> - 1" by (meson seq_less_not_max)
    show ?thesis
    proof (cases "nextSeq < ms_first ms")
      case first: True
      have "getNextMsg e ms later nextSeq lastSent = getNextMsg e ms True (ms_first ms) (ms_first ms - 1)"
        using True first by (subst getNextMsg.simps) (auto simp: FirstAndLastSequence_def Let_def dest: leD)
      then have "getNextMsg e ms True (ms_first ms) (ms_first ms - 1) = (mo, nx, ls)" using "1.prems"(1) by simp
      moreover have "lastSent \<le> ms_first ms - 1" "ms_first ms - 1 < ms_first ms"
        using seq_between(2,3) [OF less_trans [OF lt first]] .
      ultimately show ?thesis
        using "1.IH"(1) [of "ms_first ms" "ms_last ms" mo nx ls] True first "1.prems"(2)
        by (fastforce simp: FirstAndLastSequence_def not_le intro: order_trans)
    next
      case False
      let ?d = "if later then 1 else 0"
      have "getNextMsg e ms later nextSeq lastSent = getNextMsg e ms True (nextSeq + ?d) (lastSent + ?d)"
        using True False by (subst getNextMsg.simps) (auto simp: FirstAndLastSequence_def Let_def dest: leD)
      then have "getNextMsg e ms True (nextSeq + ?d) (lastSent + ?d) = (mo, nx, ls)" using "1.prems"(1) by simp
      note get = this
      note suc = seq_both_Suc [OF lt nm]
      show ?thesis
      proof (cases later)
        case True
        have "ls < nx \<and> lastSent + 1 \<le> ls \<and>
          (\<forall>m. mo = Some m \<longrightarrow> m \<in> set xs \<and> Sequence m = nx)"
          by (rule "1.IH"(2) [OF _ _ refl refl])
            (use True False \<open>e_lookup e nextSeq \<and> _\<close> get suc "1.prems"(2) in
              \<open>simp_all add: FirstAndLastSequence_def not_le\<close>)
        with suc(2) show ?thesis by (blast intro: order_trans)
      next
        case nl: False
        show ?thesis
          by (rule "1.IH"(3) [OF _ _ refl refl])
            (use nl False \<open>e_lookup e nextSeq \<and> _\<close> get lt "1.prems"(2) in
              \<open>simp_all add: FirstAndLastSequence_def not_le\<close>)
      qed
    qed
  qed
qed

lemma avail_loop_inv:
  "chan_inv msize xs c \<Longrightarrow> qstate (sub_at c r) = None \<Longrightarrow> LastSent (sub_at c r) < nextSeq \<Longrightarrow>
   chan_inv msize xs (avail_loop n e r nextSeq c)"
proof (induction n arbitrary: c nextSeq)
  case (Suc n)
  show ?case
  proof (cases "stalled (sub_at c r)")
    case False
    obtain mo nx ls where get: "getNextMsg e (c_msgs c) False nextSeq (LastSent (sub_at c r)) = (mo, nx, ls)"
      by (metis surj_pair)
    note inv = chan_invD [OF Suc.prems(1)]
    note safe = getNextMsg_safe [OF get inv(2) Suc.prems(3)]
    let ?c1 = "upd_sub r (\<lambda>s. s\<lparr>LastSent := ls\<rparr>) c"
    have "ls \<noteq> - 1" using safe seq_less_not_max by blast
    then have "sub_wf (sub_at ?c1 r)" using inv(3) [of r] safe by (auto simp: sub_wf_def)
    then have inv1: "chan_inv msize xs ?c1"
      using Suc.prems(2) by (intro chan_inv_only_sub [OF Suc.prems(1) only_sub_upd_sub]) auto
    show ?thesis
    proof (cases mo)
      case None
      with inv1 get False show ?thesis by simp
    next
      case (Some m)
      obtain sent more c2 where send: "sendMsgToSub e r m False ?c1 = ((sent, more), c2)" by (metis surj_pair)
      have m: "Sequence m = nx" "nx \<noteq> - 1" using safe Some ms_log_not_max [OF inv(2)] by auto
      have inv2: "chan_inv msize xs c2" by (rule send_inv [OF send inv1]) (use m Suc.prems(2) in auto)
      have q: "qstate (sub_at c2 r) = None"
        using only_subD(4) [OF only_sub_send [OF send], of r] Suc.prems(2) by simp
      have "LastSent (sub_at c2 r) < nx + 1"
        using send_LastSent [OF send] safe m seq_less_Suc [of nx] by (auto intro: less_trans)
      with Suc.IH [OF inv2 q] inv2 get Some False send show ?thesis by simp
    qed
  qed (use Suc.prems in simp)
qed simp

lemma sendAvailableMessages_inv:
  assumes "chan_inv msize xs c" "qstate (sub_at c r) = None"
  shows "chan_inv msize xs (sendAvailableMessages e r c)"
  unfolding sendAvailableMessages_def
  using avail_loop_inv [OF assms] chan_invD(3) [OF assms(1), of r] by (simp add: sub_wf_def seq_less_Suc)

section \<open>Queue groups\<close>

lemma best_loop_mem: "best_loop c rs least a = Some r \<Longrightarrow> r \<in> set rs \<or> a = Some r"
  by (induction rs arbitrary: least a) (auto simp: Let_def split: if_splits)

lemma findBestQueueSub_mem:
  assumes "findBestQueueSub c sl = (rsub, sl')"
  shows "mset sl' = mset sl" "rsub = Some r \<Longrightarrow> r \<in> set sl" "rsub = None \<longleftrightarrow> sl = []"
proof -
  show "mset sl' = mset sl"
    using assms by (cases sl) (auto simp: findBestQueueSub_def Let_def split: if_splits)
  show "r \<in> set sl" if "rsub = Some r"
    using assms that best_loop_mem [of c sl _ None r] by (auto simp: findBestQueueSub_def Let_def split: if_splits)
  show "rsub = None \<longleftrightarrow> sl = []"
    using assms by (cases sl) (auto simp: findBestQueueSub_def Let_def split: if_splits)
qed

lemma sendMsgToQueueGroup_inv:
  assumes "sendMsgToQueueGroup e q m force c = ((p, sent), c')" "chan_inv msize xs c" "Sequence m \<noteq> - 1"
  shows "chan_inv msize xs c'" "q_lastSent (queue_at c q) \<le> q_lastSent (queue_at c' q)"
    "q_lastSent (queue_at c' q) \<le> max (q_lastSent (queue_at c q)) (Sequence m)"
    "mset (q_subs (queue_at c' q)) = mset (q_subs (queue_at c q))"
proof -
  obtain rsub sl where best: "findBestQueueSub c (q_subs (queue_at c q)) = (rsub, sl)" by (metis surj_pair)
  note best' = findBestQueueSub_mem [OF best]
  let ?c1 = "upd_queue q (\<lambda>qs. qs\<lparr>q_subs := sl\<rparr>) c"
  have inv1: "chan_inv msize xs ?c1"
    using assms(2) mset_eq_setD [OF best'(1)] chan_invD(4) [OF assms(2)]
    by (intro chan_inv_upd_queue) (auto simp: reg_ok_def)
  have "chan_inv msize xs c' \<and> q_lastSent (queue_at c q) \<le> q_lastSent (queue_at c' q) \<and>
    q_lastSent (queue_at c' q) \<le> max (q_lastSent (queue_at c q)) (Sequence m) \<and>
    mset (q_subs (queue_at c' q)) = mset (q_subs (queue_at c q))"
  proof (cases rsub)
    case None
    with assms(1) best inv1 best'(1) show ?thesis by (auto simp: sendMsgToQueueGroup_def)
  next
    case (Some r)
    obtain did mr c2 where send: "sendMsgToSub e r m force ?c1 = ((did, mr), c2)" by (metis surj_pair)
    note o = only_subD [OF only_sub_send [OF send]]
    have r: "r \<in> set sl" using best'(2) [OF Some] mset_eq_setD [OF best'(1)] by simp
    have reg1: "reg_ok ?c1" using chan_invD(4) [OF inv1] .
    with r have qr: "qstate (sub_at ?c1 r) = Some q" by (auto simp: reg_ok_def)
    have wf2: "chan_wf msize xs c2"
      by (rule send_chan_wf [OF send chan_invD(1) [OF inv1] assms(3)]) (use qr in simp)
    let ?ls = "LastSent (sub_at c2 r)" and ?ql = "q_lastSent (queue_at c q)"
    have old: "LastSent (sub_at c r) \<le> ?ql"
      using chan_invD(5) [OF assms(2)] best'(2) [OF Some] by (simp add: lastSent_ok_def)
    have ls: "?ls \<le> max ?ql (Sequence m)" "did \<or> ?ls \<le> ?ql"
      using send_LastSent [OF send] old by (auto simp: le_max_iff_disj)
    have ls1: "?ls \<noteq> - 1" using chan_wfD(2) [OF wf2, of r] by (simp add: sub_wf_def)
    define c3 where "c3 = (if \<not> force \<and> \<not> stalled (sub_at c r) \<and> stalled (sub_at c2 r)
      then upd_queue q (\<lambda>qs. qs\<lparr>q_stalledSubCount := q_stalledSubCount qs + 1\<rparr>) c2 else c2)"
    have c3: "c_heap c3 = c_heap c2" "c_msgs c3 = c_msgs c2" "psubs c3 = psubs c2"
      "\<And>x. q_lastSent (queue_at c3 x) = q_lastSent (queue_at c2 x)" "\<And>x. q_subs (queue_at c3 x) = q_subs (queue_at c2 x)"
      by (simp_all add: c3_def)
    have c': "c' = (if did \<and> ?ls > ?ql then upd_queue q (\<lambda>qs. qs\<lparr>q_lastSent := ?ls\<rparr>) c3 else c3)"
      using assms(1) best Some send o(6) [of q]
      by (auto simp: sendMsgToQueueGroup_def Let_def c3_def)
    have sel: "q_lastSent (queue_at c' x) = (if x = q then max ?ql ?ls else q_lastSent (queue_at c x))"
      "q_subs (queue_at c' x) = (if x = q then sl else q_subs (queue_at c x))" "c_heap c' = c_heap c2"
      "c_msgs c' = c_msgs c2" "psubs c' = psubs c2" for x
      using ls(2) o(6,7) [of x] by (auto simp: c' c3 max_def)
    have "LastSent (sub_at c2 y) \<le> q_lastSent (queue_at c' x)" if "y \<in> set (q_subs (queue_at c' x))" for x y
    proof (cases "y = r")
      case True
      have "qstate (sub_at c y) = Some x"
        using that chan_invD(4) [OF assms(2)] mset_eq_setD [OF best'(1)] by (auto simp: sel reg_ok_def split: if_splits)
      with True qr show ?thesis by (simp add: sel)
    next
      case False
      have "LastSent (sub_at c y) \<le> q_lastSent (queue_at c x)"
        using that chan_invD(5) [OF assms(2)] mset_eq_setD [OF best'(1)] by (auto simp: sel lastSent_ok_def split: if_splits)
      with o(3) [OF False] show ?thesis by (auto simp: sel le_max_iff_disj)
    qed
    then have "lastSent_ok c'" by (simp add: lastSent_ok_def sel)
    moreover have "reg_ok c'"
      using chan_wfD(3) [OF wf2] ls1 chan_invD(4) [OF assms(2)] o(7)
      by (auto simp: reg_ok_def sel max_def split: if_splits)
    ultimately show ?thesis
      using wf2 ls(1) best'(1) by (simp add: chan_inv_def chan_wf_def sel)
  qed
  then show "chan_inv msize xs c'" "q_lastSent (queue_at c q) \<le> q_lastSent (queue_at c' q)"
    "q_lastSent (queue_at c' q) \<le> max (q_lastSent (queue_at c q)) (Sequence m)"
    "mset (q_subs (queue_at c' q)) = mset (q_subs (queue_at c q))" by blast+
qed

lemma avail_queue_loop_inv:
  "chan_inv msize xs c \<Longrightarrow> q_lastSent (queue_at c q) < nextSeq \<Longrightarrow>
   chan_inv msize xs (avail_queue_loop n e q nextSeq c)"
proof (induction n arbitrary: c nextSeq)
  case (Suc n)
  let ?ql = "q_lastSent (queue_at c q)"
  obtain mo nx ls where get: "getNextMsg e (c_msgs c) False nextSeq ?ql = (mo, nx, ls)"
    by (metis surj_pair)
  note inv = chan_invD [OF Suc.prems(1)]
  note safe = getNextMsg_safe [OF get inv(2) Suc.prems(2)]
  let ?c1 = "upd_queue q (\<lambda>qs. qs\<lparr>q_lastSent := ls\<rparr>) c"
  have inv1: "chan_inv msize xs ?c1"
    using safe seq_less_not_max [of ls nx] by (intro chan_inv_upd_queue [OF Suc.prems(1)]) auto
  show ?case
  proof (cases mo)
    case None
    with inv1 get Suc.prems(1) show ?thesis by simp
  next
    case (Some m)
    obtain p sent c2 where send: "sendMsgToQueueGroup e q m False ?c1 = ((p, sent), c2)" by (metis surj_pair)
    have m: "Sequence m = nx" "nx \<noteq> - 1" using safe Some ms_log_not_max [OF inv(2)] by auto
    note group = sendMsgToQueueGroup_inv [OF send inv1]
    have "q_lastSent (queue_at c2 q) < nx + 1"
      using group(3) safe m seq_less_Suc [of nx] by (auto simp: max_def split: if_splits)
    with Suc.IH [OF group(1)] group(1) get Some send m Suc.prems(1) show ?thesis by simp
  qed
qed simp

lemma sendAvailableMessagesToQueue_inv:
  assumes "chan_inv msize xs c"
  shows "chan_inv msize xs (sendAvailableMessagesToQueue e q c)"
  unfolding sendAvailableMessagesToQueue_def
  using avail_queue_loop_inv [OF assms] chan_invD(4) [OF assms] by (simp add: assms reg_ok_def seq_less_Suc)

section \<open>What every handler leaves alone\<close>

definition steady :: "chan \<Rightarrow> chan \<Rightarrow> bool" where
  "steady c c' \<longleftrightarrow> same_reg c c' \<and> (\<forall>x. static_eq (sub_at c x) (sub_at c' x)) \<and>
     (\<forall>q. mset (q_subs (queue_at c' q)) = mset (q_subs (queue_at c q)))"

lemma steady_refl [simp]: "steady c c"
  by (simp add: steady_def)

lemma steady_trans: "steady a b \<Longrightarrow> steady b c \<Longrightarrow> steady a c"
  by (auto simp: steady_def intro: same_reg_trans static_eq_trans)

lemma steadyD:
  assumes "steady c c'"
  shows "psubs c' = psubs c" "qsubs c' = qsubs c" "c_msgs c' = c_msgs c" "qstate (sub_at c' x) = qstate (sub_at c x)"
    "MaxInFlight (sub_at c' x) = MaxInFlight (sub_at c x)" "set (q_subs (queue_at c' q)) = set (q_subs (queue_at c q))"
  using assms by (auto simp: steady_def same_reg_def static_eq_def dest: mset_eq_setD)

lemma steady_only_sub: "only_sub r c c' \<Longrightarrow> steady c c'"
  unfolding only_sub_def steady_def q_same_def by (metis static_eq_refl)

lemma steady_upd_sub: "static_eq (sub_at c r) (f (sub_at c r)) \<Longrightarrow> steady c (upd_sub r f c)"
  by (simp add: steady_def same_reg_def)

lemma steady_upd_queue:
  "mset (q_subs (f (queue_at c q))) = mset (q_subs (queue_at c q)) \<Longrightarrow> steady c (upd_queue q f c)"
  by (simp add: steady_def same_reg_def)

lemma steady_log [simp]: "steady c (log_rec x c)"
  by (simp add: steady_def same_reg_def)

lemmas steady_send = steady_only_sub [OF only_sub_send]
lemmas steady_collect = steady_only_sub [OF only_sub_collect]

lemma avail_loop_steady: "steady c (avail_loop n e r nextSeq c)"
proof (induction n arbitrary: c nextSeq)
  case (Suc n)
  obtain mo nx ls where get: "getNextMsg e (c_msgs c) False nextSeq (LastSent (sub_at c r)) = (mo, nx, ls)"
    by (metis surj_pair)
  let ?c1 = "upd_sub r (\<lambda>s. s\<lparr>LastSent := ls\<rparr>) c"
  have c1: "steady c ?c1" by (rule steady_upd_sub) simp
  show ?case
  proof (cases mo)
    case None
    with c1 get show ?thesis by simp
  next
    case (Some m)
    obtain sent more c2 where send: "sendMsgToSub e r m False ?c1 = ((sent, more), c2)" by (metis surj_pair)
    have c2: "steady c c2" by (rule steady_trans [OF c1 steady_send [OF send]])
    with steady_trans [OF c2 Suc.IH] get Some send show ?thesis by simp
  qed
qed simp

lemma sendAvailableMessages_steady: "steady c (sendAvailableMessages e r c)"
  unfolding sendAvailableMessages_def by (rule avail_loop_steady)

lemma sendMsgToQueueGroup_steady:
  assumes "sendMsgToQueueGroup e q m force c = ((p, sent), c')"
  shows "steady c c'"
proof -
  obtain rsub sl where best: "findBestQueueSub c (q_subs (queue_at c q)) = (rsub, sl)" by (metis surj_pair)
  let ?c1 = "upd_queue q (\<lambda>qs. qs\<lparr>q_subs := sl\<rparr>) c"
  have c1: "steady c ?c1" using findBestQueueSub_mem(1) [OF best] by (intro steady_upd_queue) simp
  show ?thesis
  proof (cases rsub)
    case None
    with assms best c1 show ?thesis by (simp add: sendMsgToQueueGroup_def)
  next
    case (Some r)
    obtain did mr c2 where send: "sendMsgToSub e r m force ?c1 = ((did, mr), c2)" by (metis surj_pair)
    have c2: "steady c c2" by (rule steady_trans [OF c1 steady_send [OF send]])
    have "steady c2 c'"
      using assms best Some send by (auto simp: sendMsgToQueueGroup_def Let_def steady_def same_reg_def)
    with c2 show ?thesis by (rule steady_trans)
  qed
qed

lemma avail_queue_loop_steady: "steady c (avail_queue_loop n e q nextSeq c)"
proof (induction n arbitrary: c nextSeq)
  case (Suc n)
  obtain mo nx ls where get: "getNextMsg e (c_msgs c) False nextSeq (q_lastSent (queue_at c q)) = (mo, nx, ls)"
    by (metis surj_pair)
  let ?c1 = "upd_queue q (\<lambda>qs. qs\<lparr>q_lastSent := ls\<rparr>) c"
  have c1: "steady c ?c1" by (rule steady_upd_queue) simp
  show ?case
  proof (cases mo)
    case None
    with c1 get show ?thesis by simp
  next
    case (Some m)
    obtain p sent c2 where send: "sendMsgToQueueGroup e q m False ?c1 = ((p, sent), c2)" by (metis surj_pair)
    have c2: "steady c c2" by (rule steady_trans [OF c1 sendMsgToQueueGroup_steady [OF send]])
    with steady_trans [OF c2 Suc.IH] get Some send show ?thesis by simp
  qed
qed simp

lemma sendAvailableMessagesToQueue_steady: "steady c (sendAvailableMessagesToQueue e q c)"
  unfolding sendAvailableMessagesToQueue_def by (simp add: avail_queue_loop_steady)

section \<open>Acknowledgements and redelivery\<close>

text \<open>A step that keeps the invariant and leaves alone what every handler leaves alone.\<close>

definition good :: "(MsgProto option \<Rightarrow> nat) \<Rightarrow> MsgProto list \<Rightarrow> chan \<Rightarrow> chan \<Rightarrow> bool" where
  "good msize xs c c' \<longleftrightarrow> (chan_inv msize xs c \<longrightarrow> chan_inv msize xs c') \<and> steady c c'"

lemma good_refl [simp]: "good msize xs c c"
  by (simp add: good_def)

lemma good_trans: "good msize xs a b \<Longrightarrow> good msize xs b c \<Longrightarrow> good msize xs a c"
  by (auto simp: good_def intro: steady_trans)

lemma LastSent_del_pending: "LastSent (del_pending q s) = LastSent s"
  by (simp add: del_pending_def)

lemma good_steps [intro, simp]:
  "good msize xs c (log_rec x c)"
  "good msize xs c (collectSentOrAck r b q c)"
  "good msize xs c (upd_sub r (del_pending q) c)"
  "good msize xs c (upd_sub r (\<lambda>s. s\<lparr>stalled := b\<rparr>) c)"
  "good msize xs c (upd_sub r (\<lambda>s. s\<lparr>ackTimer := f s\<rparr>) c)"
  "good msize xs c (upd_sub r (\<lambda>s. s\<lparr>rdlvCount := g s\<rparr>) c)"
  "good msize xs c (sendAvailableMessagesToQueue e k c)"
  by (auto simp: good_def steady_collect steady_upd_sub sendAvailableMessagesToQueue_inv
      sendAvailableMessagesToQueue_steady LastSent_del_pending
      intro!: chan_inv_upd_sub dest: chan_invD(3))

lemma good_upd_queue [intro]:
  assumes "\<And>x. q_lastSent (f x) = q_lastSent x" "\<And>x. q_subs (f x) = q_subs x"
  shows "good msize xs c (upd_queue q f c)"
  using assms chan_invD(4) [of msize xs c] unfolding good_def
  by (auto simp: steady_upd_queue reg_ok_def intro!: chan_inv_upd_queue)

lemma good_sendAvailableMessages:
  "qstate (sub_at c r) = None \<Longrightarrow> good msize xs c (sendAvailableMessages e r c)"
  by (simp add: good_def sendAvailableMessages_steady sendAvailableMessages_inv)

lemma good_processMsg: "chan_inv msize xs c \<Longrightarrow> good msize xs c (processMsg e c)"
proof -
  assume inv: "chan_inv msize xs c"
  have plain: "good msize xs c (fold (sendAvailableMessages e) rs c)"
    if "\<forall>r \<in> set rs. qstate (sub_at c r) = None" for rs c
    using that
  proof (induction rs arbitrary: c)
    case (Cons r rs)
    let ?c = "sendAvailableMessages e r c"
    have "\<forall>r \<in> set rs. qstate (sub_at ?c r) = None"
      using Cons.prems steadyD(4) [OF sendAvailableMessages_steady] by simp
    from good_trans [OF good_sendAvailableMessages Cons.IH [OF this]] Cons.prems show ?case by simp
  qed simp
  have queue: "good msize xs c (fold (sendAvailableMessagesToQueue e) qs c)" for qs c
    by (induction qs arbitrary: c) (auto intro: good_trans)
  have "\<forall>r \<in> set (psubs c). qstate (sub_at c r) = None" using chan_invD(4) [OF inv] by (simp add: reg_ok_def)
  from good_trans [OF plain [OF this] queue] show ?thesis by (simp add: processMsg_def)
qed

lemma good_ack_other_members: "good msize xs c (ack_other_members e q r sequence qs c)"
proof (induction qs arbitrary: c)
  case (Cons x qs)
  let ?c1 = "if e_clustered e then collectSentOrAck x False sequence c else c"
  have c1: "good msize xs c ?c1" by simp
  let ?c2 = "upd_sub x (del_pending sequence) ?c1"
  have c2: "good msize xs c ?c2" by (rule good_trans [OF c1]) simp
  have "good msize xs c (if b then log_rec y ?c2 else ?c2)" for b y
    using c2 good_trans [OF c2 good_steps(1)] by simp
  from good_trans [OF this good_upd_queue] Cons show ?case by (simp add: Let_def)
qed simp

lemma good_ack_unstall: "good msize xs c (ack_unstall e r c)"
proof -
  let ?c1 = "upd_sub r (\<lambda>s. s\<lparr>stalled := False\<rparr>) c"
  have c1: "good msize xs c ?c1" by simp
  show ?thesis
  proof (cases "qstate (sub_at c r)")
    case None
    then have "good msize xs ?c1 (sendAvailableMessages e r ?c1)" by (intro good_sendAvailableMessages) simp
    from good_trans [OF c1 this] None show ?thesis by (simp add: ack_unstall_def Let_def)
  next
    case (Some q)
    have "good msize xs c (if b then upd_queue q (\<lambda>qs. qs\<lparr>q_stalledSubCount := q_stalledSubCount qs - 1\<rparr>) ?c1 else ?c1)" for b
      using c1 by (auto intro: good_trans [OF c1 good_upd_queue])
    from good_trans [OF this good_steps(7)] Some show ?thesis by (simp add: ack_unstall_def Let_def)
  qed
qed

lemma good_processAck: "good msize xs c (processAck e r sequence fromUser c)"
proof (cases "sequence \<in> keys (acksPending (sub_at c r))")
  case True
  let ?c1 = "if e_clustered e then collectSentOrAck r False sequence c else c"
  have c1: "good msize xs c ?c1" by simp
  let ?c3 = "upd_sub r (del_pending sequence) (log_rec (RecAck (ID (sub_at c r)) sequence) ?c1)"
  have c3: "good msize xs c ?c3" by (rule good_trans [OF good_trans [OF c1 good_steps(1)] good_steps(3)])
  have c4: "good msize xs c (if fromUser then
       (case qstate (sub_at c r) of
          Some q \<Rightarrow> upd_queue q (\<lambda>qs. qs\<lparr>q_rdlvCount := mdel sequence (q_rdlvCount qs)\<rparr>) ?c3
        | None \<Rightarrow> upd_sub r (\<lambda>s. s\<lparr>rdlvCount := mdel sequence (rdlvCount s)\<rparr>) ?c3) else ?c3)"
    using c3 good_trans [OF c3 good_upd_queue] good_trans [OF c3 good_steps(6)] by (auto split: option.split)
  with True c1 good_trans [OF c4 good_ack_unstall] show ?thesis by (simp add: processAck_def Let_def)
next
  case False
  with good_ack_unstall [of msize xs c] good_trans [OF good_ack_other_members good_ack_unstall, of msize xs c]
  show ?thesis by (auto simp: processAck_def Let_def split: option.split)
qed

lemma good_getMsgForRedelivery:
  "getMsgForRedelivery e r seq c = (mo, c') \<Longrightarrow> good msize xs c c'"
  "getMsgForRedelivery e r seq c = (Some m, c') \<Longrightarrow> c' = c \<and> Lookup (c_msgs c) seq = Some m"
  by (auto simp: getMsgForRedelivery_def good_processAck split: if_splits option.splits)

lemma good_resend:
  assumes "chan_inv msize xs c" "m \<in> set xs" "isMsgStillPending (sub_at c r) m"
  shows "good msize xs c (snd (sendMsgToSub e r (m\<lparr>Redelivered := b\<rparr>) True c))"
proof -
  obtain sent mr c' where send: "sendMsgToSub e r (m\<lparr>Redelivered := b\<rparr>) True c = ((sent, mr), c')" by (metis surj_pair)
  have "chan_inv msize xs c'"
    by (rule send_inv [OF send assms(1)])
      (use assms ms_log_not_max [OF chan_invD(2) [OF assms(1)]] in \<open>auto simp: isMsgStillPending_def\<close>)
  then show ?thesis using steady_send [OF send] by (simp add: send good_def)
qed

lemma good_durable_loop: "chan_inv msize xs c \<Longrightarrow> good msize xs c (durable_loop e r seqs c)"
proof (induction seqs arbitrary: c)
  case (Cons seq seqs)
  obtain mo c1 where get: "getMsgForRedelivery e r seq c = (mo, c1)" by (metis surj_pair)
  note c1 = good_getMsgForRedelivery(1) [OF get, of msize xs]
  show ?case
  proof (cases mo)
    case None
    with Cons c1 get show ?thesis by (auto simp: good_def intro: steady_trans)
  next
    case (Some m)
    with get good_getMsgForRedelivery(2) have "c1 = c" "Lookup (c_msgs c) seq = Some m" by blast+
    then have "m \<in> set xs" using ms_log_lookup [OF chan_invD(2) [OF Cons.prems]] by simp
    let ?m = "m\<lparr>Redelivered := True\<rparr>"
    define c2 where "c2 = (if isMsgStillPending (sub_at c r) ?m then snd (sendMsgToSub e r ?m True c) else c)"
    have "good msize xs c c2"
      using good_resend [OF Cons.prems \<open>m \<in> set xs\<close>, of r e True] by (auto simp: c2_def isMsgStillPending_def)
    with Cons get Some \<open>c1 = c\<close> show ?thesis
      by (auto simp: c2_def [symmetric] good_def intro: steady_trans)
  qed
qed simp

text \<open>\<open>performDurableRedelivery\<close> may release the hold on new messages, and keeps the invariant.\<close>

lemma performDurableRedelivery_inv:
  assumes "chan_inv msize xs c"
  shows "chan_inv msize xs (performDurableRedelivery e b r c)"
proof -
  have c1: "chan_inv msize xs (if b then durable_loop e r (makeSortedSequences (sub_at c r)) c else c)" (is "chan_inv _ _ ?c")
    using good_durable_loop [OF assms] assms by (simp add: good_def)
  have "chan_inv msize xs (upd_sub r (\<lambda>s. s\<lparr>newOnHold := False\<rparr>) ?c)"
    using chan_invD [OF c1] by (auto simp: chan_inv_def chan_wf_def reg_ok_def lastSent_ok_def)
  with c1 show ?thesis by (simp add: performDurableRedelivery_def Let_def)
qed

lemma LastSent_set_pending: "LastSent (set_pending q t s) = LastSent s"
  by (simp add: set_pending_def)

lemma good_sendMsgToQueueGroup:
  assumes "sendMsgToQueueGroup e q m force c = ((p, sent), c')" "Sequence m \<noteq> - 1"
  shows "good msize xs c c'"
  using sendMsgToQueueGroup_inv(1) [OF assms(1) _ assms(2)] sendMsgToQueueGroup_steady [OF assms(1)]
  by (simp add: good_def)

lemma good_expiration_loop:
  "chan_inv msize xs c \<Longrightarrow> expiration_loop e r st limit ex pms z c = (c', z', nx) \<Longrightarrow> good msize xs c c'"
proof (induction pms arbitrary: c z)
  case (Cons pm pms)
  obtain seq expire where pm: "pm = (seq, expire)" by (cases pm)
  obtain mo c1 where get: "getMsgForRedelivery e r seq c = (mo, c1)" by (metis surj_pair)
  note c1 = good_getMsgForRedelivery(1) [OF get, of msize xs]
  have IH: "good msize xs c c'" if "good msize xs c c2" "expiration_loop e r st limit ex pms z2 c2 = (c', z', nx)" for c2 z2
    using Cons.IH [OF _ that(2)] that(1) Cons.prems(1) by (auto simp: good_def intro: steady_trans)
  show ?case
  proof (cases mo)
    case None
    with IH [OF c1] Cons.prems(2) get pm show ?thesis by simp
  next
    case (Some m)
    with get good_getMsgForRedelivery(2) have eq: "c1 = c" "Lookup (c_msgs c) seq = Some m" by blast+
    then have m: "m \<in> set xs" using ms_log_lookup [OF chan_invD(2) [OF Cons.prems(1)]] by simp
    let ?m = "m\<lparr>Redelivered := True\<rparr>" and ?p = "isMsgStillPending (sub_at c r) (m\<lparr>Redelivered := True\<rparr>)"
    have max: "Sequence ?m \<noteq> - 1" using ms_log_not_max [OF chan_invD(2) [OF Cons.prems(1)] m] by simp
    have setp: "good msize xs c (if expire = 0 \<and> seq \<in> keys (acksPending (sub_at c r))
        then upd_sub r (set_pending seq t) c else c)" for t
      using chan_invD(3) [OF Cons.prems(1), of r]
      by (auto simp: good_def steady_upd_sub LastSent_set_pending intro!: chan_inv_upd_sub sub_wf_set)
    have res: "good msize xs c (if ?p then snd (sendMsgToSub e r ?m True c) else c)"
      using good_resend [OF Cons.prems(1) m, of r e True] by (auto simp: isMsgStillPending_def)
    consider (zero) "z \<or> expire = 0" | (later) "\<not> (z \<or> expire = 0)" "expire > limit"
      | (group) q where "\<not> (z \<or> expire = 0)" "\<not> expire > limit" "qstate (sub_at c r) = Some q" "\<not> st"
      | (self) "\<not> (z \<or> expire = 0)" "\<not> expire > limit" "qstate (sub_at c r) = None \<or> st"
      by (cases "qstate (sub_at c r)") auto
    then show ?thesis
    proof cases
      case zero
      with IH [OF setp] Cons.prems(2) get pm Some eq show ?thesis by (simp add: Let_def)
    next
      case later
      with Cons.prems(2) get pm Some eq show ?thesis by simp
    next
      case self
      then have "expiration_loop e r st limit ex pms z (if ?p then snd (sendMsgToSub e r ?m True c) else c) = (c', z', nx)"
        using Cons.prems(2) get pm Some eq by (auto simp: Let_def split: option.splits bool.splits)
      with IH [OF res] show ?thesis .
    next
      case group
      obtain p sent c2 where grp: "sendMsgToQueueGroup e q ?m True c = ((p, sent), c2)" by (metis surj_pair)
      have c2: "good msize xs c c2" by (rule good_sendMsgToQueueGroup [OF grp max])
      have "good msize xs c (if b then processAck e r (Sequence ?m) False c2 else c2)" for b
        using c2 good_trans [OF c2 good_processAck] by simp
      note c3 = IH [OF this]
      show ?thesis
      proof (cases ?p)
        case True
        with group grp c2 c3 Cons.prems(2) get pm Some eq show ?thesis
          by (simp add: Let_def split: option.splits)
      next
        case False
        with group IH [OF good_refl] Cons.prems(2) get pm Some eq show ?thesis by (simp add: Let_def)
      qed
    qed
  qed
qed simp

lemma performAckExpirationRedelivery_inv:
  "chan_inv msize xs c \<Longrightarrow> good msize xs c (performAckExpirationRedelivery n e r st c)"
proof (induction n arbitrary: c)
  case (Suc n)
  obtain c1 z nx where loop: "expiration_loop e r st (redeliveryLimit e) (ackWait (sub_at c r))
      (makeSortedPendingMsgs (sub_at c r)) False c = (c1, z, nx)" by (metis surj_pair)
  have c1: "good msize xs c c1" by (rule good_expiration_loop [OF Suc.prems loop])
  have adj: "good msize xs c (upd_sub r (adjustAckTimer now t) c)" "good msize xs c (upd_sub r clearAckTimer c)" for now t c
    by (auto simp: good_def steady_upd_sub adjustAckTimer_def clearAckTimer_def intro!: chan_inv_upd_sub dest: chan_invD(3))
  have "good msize xs c1 (performAckExpirationRedelivery n e r st c1)"
    using Suc c1 by (simp add: good_def)
  with good_trans [OF c1 this] good_trans [OF c1 adj(1)] loop adj(2)
  show ?case by (simp add: Let_def)
qed simp

end
