(* ===== verification/Delivery_Log.thy ===== *)
theory Delivery_Log
  imports Delivery_Inv
begin

text \<open>
  The subscription store follows the memory of the server: the records written since a state,
  replayed over the pending messages of that state, give the pending messages of the new one.
\<close>

section \<open>Replaying records\<close>

text \<open>What a store that recovers a subscription does with its message and ack records.\<close>

fun replay :: "u64 \<Rightarrow> sub_rec list \<Rightarrow> u64 set \<Rightarrow> u64 set" where
  "replay i [] K = K"
| "replay i (RecMsg j q # l) K = replay i l (if i = j then insert q K else K)"
| "replay i (RecAck j q # l) K = replay i l (if i = j then K - {q} else K)"
| "replay i (x # l) K = replay i l K"

text \<open>Events of subscriptions, by reference: \<open>True\<close> for sent, \<open>False\<close> for acknowledged.\<close>

type_synonym pend_event = "sref \<times> bool \<times> u64"

fun apply_event :: "sref \<Rightarrow> pend_event \<Rightarrow> u64 set \<Rightarrow> u64 set" where
  "apply_event r (x, sent, q) K = (if x = r then if sent then insert q K else K - {q} else K)"

definition apply_events :: "sref \<Rightarrow> pend_event list \<Rightarrow> u64 set \<Rightarrow> u64 set" where
  "apply_events r = fold (apply_event r)"

fun rec_of :: "chan \<Rightarrow> pend_event \<Rightarrow> sub_rec" where
  "rec_of c (x, sent, q) = (if sent then RecMsg (ID (sub_at c x)) q else RecAck (ID (sub_at c x)) q)"

lemma apply_event_mono: "K \<subseteq> K' \<Longrightarrow> apply_event r x K \<subseteq> apply_event r x K'"
  by (cases x) auto

lemma apply_events_mono: "K \<subseteq> K' \<Longrightarrow> apply_events r l K \<subseteq> apply_events r l K'"
  by (induction l arbitrary: K K') (simp_all add: apply_events_def apply_event_mono)

lemma apply_events_append: "apply_events r (l @ l') K = apply_events r l' (apply_events r l K)"
  by (simp add: apply_events_def)

lemma apply_events_simps [simp]:
  "apply_events r [] K = K" "apply_events r (x # l) K = apply_events r l (apply_event r x K)"
  by (simp_all add: apply_events_def)

lemma replay_events:
  assumes "inj_on (\<lambda>x. ID (sub_at c x)) R" "fst ` set l \<subseteq> R" "r \<in> R"
  shows "replay (ID (sub_at c r)) (map (rec_of c) l) K = apply_events r l K"
  using assms(2)
proof (induction l arbitrary: K)
  case (Cons x l)
  obtain y b q where x: "x = (y, b, q)" by (cases x)
  have "ID (sub_at c r) = ID (sub_at c y) \<longleftrightarrow> r = y"
    using assms(1,3) Cons.prems x by (auto dest: inj_onD)
  with Cons x show ?case by auto
qed simp

section \<open>Steps that are logged\<close>

text \<open>
  \<open>R\<close> are the subscriptions of the channel. Replaying never forgets a pending message; when no
  acknowledgement fails to be stored (\<open>ex\<close>), it never brings one back either.
\<close>

definition live_ok :: "sref set \<Rightarrow> chan \<Rightarrow> bool" where
  "live_ok R c \<longleftrightarrow> set (psubs c) \<subseteq> R \<and> (\<forall>q. set (q_subs (queue_at c q)) \<subseteq> R) \<and> snd ` set (acks c) \<subseteq> R"

definition logged_by :: "sref set \<Rightarrow> bool \<Rightarrow> pend_event list \<Rightarrow> chan \<Rightarrow> chan \<Rightarrow> bool" where
  "logged_by R ex l c c' \<longleftrightarrow> (\<forall>x. ID (sub_at c' x) = ID (sub_at c x)) \<and> (live_ok R c \<longrightarrow> live_ok R c') \<and>
     c_slog c' = c_slog c @ map (rec_of c) l \<and> fst ` set l \<subseteq> R \<and>
     (\<forall>r. keys (acksPending (sub_at c' r)) \<subseteq> apply_events r l (keys (acksPending (sub_at c r)))) \<and>
     (ex \<longrightarrow> (\<forall>r. apply_events r l (keys (acksPending (sub_at c r))) \<subseteq> keys (acksPending (sub_at c' r))))"

definition logged :: "sref set \<Rightarrow> bool \<Rightarrow> chan \<Rightarrow> chan \<Rightarrow> bool" where
  "logged R ex c c' \<longleftrightarrow> (\<exists>l. logged_by R ex l c c')"

lemma logged_live: "logged R ex c c' \<Longrightarrow> live_ok R c \<Longrightarrow> live_ok R c'"
  by (auto simp: logged_def logged_by_def)

lemma live_ok_steady:
  assumes "live_ok R c" "steady c c'"
  shows "live_ok R c'"
  using assms(1) unfolding live_ok_def steadyD(1) [OF assms(2)] steadyD(6) [OF assms(2)]
  using assms(2) by (simp add: steady_def same_reg_def)

lemma steady_ID: "steady c c' \<Longrightarrow> ID (sub_at c' x) = ID (sub_at c x)"
  by (simp add: steady_def static_eq_def)

lemma rec_of_ID: "(\<And>x. ID (sub_at c' x) = ID (sub_at c x)) \<Longrightarrow> rec_of c' = rec_of c"
  by (rule ext, rename_tac x, case_tac x) simp

lemma logged_byI:
  assumes "steady c c'" "c_slog c' = c_slog c @ map (rec_of c) l" "fst ` set l \<subseteq> R"
    and "\<And>r. keys (acksPending (sub_at c' r)) \<subseteq> apply_events r l (keys (acksPending (sub_at c r)))"
    and "\<And>r. ex \<Longrightarrow> apply_events r l (keys (acksPending (sub_at c r))) \<subseteq> keys (acksPending (sub_at c' r))"
  shows "logged R ex c c'"
  unfolding logged_def logged_by_def
  using assms steady_ID [OF assms(1)] live_ok_steady [OF _ assms(1), of R] by (intro exI [of _ l]) simp

lemma logged_quiet:
  assumes "steady c c'" "c_slog c' = c_slog c" "\<And>r. keys (acksPending (sub_at c' r)) = keys (acksPending (sub_at c r))"
  shows "logged R ex c c'"
  using assms by (intro logged_byI [of _ _ "[]"]) simp_all

lemma logged_refl [simp]: "logged R ex c c"
  by (rule logged_quiet) simp_all

lemma logged_by_trans:
  assumes "logged_by R ex l a b" "logged_by R ex l' b c"
  shows "logged_by R ex (l @ l') a c"
proof -
  have "keys (acksPending (sub_at c r)) \<subseteq> apply_events r (l @ l') (keys (acksPending (sub_at a r)))" for r
    using assms unfolding apply_events_append logged_by_def by (meson apply_events_mono order_trans)
  moreover have "apply_events r (l @ l') (keys (acksPending (sub_at a r))) \<subseteq> keys (acksPending (sub_at c r))" if ex for r
    using assms that unfolding apply_events_append logged_by_def by (meson apply_events_mono order_trans)
  moreover have "rec_of b = rec_of a" using assms(1) by (intro rec_of_ID) (simp add: logged_by_def)
  ultimately show ?thesis using assms by (simp add: logged_by_def image_Un)
qed

lemma logged_trans: "logged R ex a b \<Longrightarrow> logged R ex b c \<Longrightarrow> logged R ex a c"
  unfolding logged_def by (meson logged_by_trans)

lemma logged_send:
  assumes "sendMsgToSub e r m force c = ((sent, mr), c')" "r \<in> R"
  shows "logged R ex c c'"
proof -
  let ?l = "if sent \<and> Sequence m \<notin> keys (acksPending (sub_at c r)) then [(r, True, Sequence m)] else []"
  have st: "steady c c'" by (rule steady_send [OF assms(1)])
  have oth: "sub_at c' x = sub_at c x" if "x \<noteq> r" for x
    using only_subD(3) [OF only_sub_send [OF assms(1)] that] .
  have keys: "keys (acksPending (sub_at c' x)) = apply_events x ?l (keys (acksPending (sub_at c x)))" for x
    using send_sent_pending [OF assms(1)] send_unsent_pending [OF assms(1)] oth
    by (cases "x = r"; cases sent) (auto simp: insert_absorb)
  have "c_slog c' = c_slog c @ map (rec_of c) ?l" using send_slog [OF assms(1)] by simp
  moreover have "fst ` set ?l \<subseteq> R" using assms(2) by auto
  ultimately show ?thesis using st keys by (intro logged_byI [of _ _ ?l]) simp_all
qed

lemma logged_avail_loop: "r \<in> R \<Longrightarrow> logged R ex c (avail_loop n e r nextSeq c)"
proof (induction n arbitrary: c nextSeq)
  case (Suc n)
  obtain mo nx ls where get: "getNextMsg e (c_msgs c) False nextSeq (LastSent (sub_at c r)) = (mo, nx, ls)"
    by (metis surj_pair)
  let ?c1 = "upd_sub r (\<lambda>s. s\<lparr>LastSent := ls\<rparr>) c"
  have c1: "logged R ex c ?c1" by (rule logged_quiet) (simp_all add: steady_upd_sub)
  show ?case
  proof (cases mo)
    case None
    with c1 get show ?thesis by simp
  next
    case (Some m)
    obtain sent more c2 where send: "sendMsgToSub e r m False ?c1 = ((sent, more), c2)" by (metis surj_pair)
    have c2: "logged R ex c c2" by (rule logged_trans [OF c1 logged_send [OF send Suc.prems]])
    with logged_trans [OF c2 Suc.IH [OF Suc.prems]] get Some send show ?thesis by simp
  qed
qed simp

lemma logged_upd_queue:
  "(\<And>x. q_subs (f x) = q_subs x) \<Longrightarrow> logged R ex c (upd_queue q f c)"
  by (rule logged_quiet) (auto intro: steady_upd_queue)

lemma logged_sendMsgToQueueGroup:
  assumes "sendMsgToQueueGroup e q m force c = ((p, sent), c')" "live_ok R c"
  shows "logged R ex c c'"
proof -
  obtain rsub sl where best: "findBestQueueSub c (q_subs (queue_at c q)) = (rsub, sl)" by (metis surj_pair)
  let ?c1 = "upd_queue q (\<lambda>qs. qs\<lparr>q_subs := sl\<rparr>) c"
  have c1: "logged R ex c ?c1"
    using findBestQueueSub_mem(1) [OF best] by (intro logged_quiet steady_upd_queue) auto
  show ?thesis
  proof (cases rsub)
    case None
    with assms best c1 show ?thesis by (simp add: sendMsgToQueueGroup_def)
  next
    case (Some r)
    have r: "r \<in> R" using findBestQueueSub_mem(2) [OF best Some] assms(2) by (auto simp: live_ok_def)
    obtain did mr c2 where send: "sendMsgToSub e r m force ?c1 = ((did, mr), c2)" by (metis surj_pair)
    have c2: "logged R ex c c2" by (rule logged_trans [OF c1 logged_send [OF send r]])
    have "steady c2 c'" "c_slog c' = c_slog c2" "c_heap c' = c_heap c2"
      using assms(1) best Some send by (auto simp: sendMsgToQueueGroup_def Let_def steady_def same_reg_def)
    then have "logged R ex c2 c'" by (intro logged_quiet) auto
    with c2 show ?thesis by (rule logged_trans)
  qed
qed

lemma logged_avail_queue_loop: "live_ok R c \<Longrightarrow> logged R ex c (avail_queue_loop n e q nextSeq c)"
proof (induction n arbitrary: c nextSeq)
  case (Suc n)
  obtain mo nx ls where get: "getNextMsg e (c_msgs c) False nextSeq (q_lastSent (queue_at c q)) = (mo, nx, ls)"
    by (metis surj_pair)
  let ?c1 = "upd_queue q (\<lambda>qs. qs\<lparr>q_lastSent := ls\<rparr>) c"
  have c1: "logged R ex c ?c1" by (rule logged_upd_queue) simp
  have live: "live_ok R ?c1" by (rule logged_live [OF c1 Suc.prems])
  show ?case
  proof (cases mo)
    case None
    with c1 get show ?thesis by simp
  next
    case (Some m)
    obtain p sent c2 where send: "sendMsgToQueueGroup e q m False ?c1 = ((p, sent), c2)" by (metis surj_pair)
    have c2: "logged R ex c c2" by (rule logged_trans [OF c1 logged_sendMsgToQueueGroup [OF send live]])
    have "live_ok R c2" by (rule logged_live [OF c2 Suc.prems])
    with c2 logged_trans [OF c2 Suc.IH] get Some send show ?thesis by simp
  qed
qed simp

lemma logged_sendAvailableMessages: "r \<in> R \<Longrightarrow> logged R ex c (sendAvailableMessages e r c)"
  by (simp add: sendAvailableMessages_def logged_avail_loop)

lemma logged_sendAvailableMessagesToQueue:
  "live_ok R c \<Longrightarrow> logged R ex c (sendAvailableMessagesToQueue e q c)"
  by (simp add: sendAvailableMessagesToQueue_def logged_avail_queue_loop)

lemma logged_fold:
  assumes "live_ok R c" "\<And>x c. x \<in> set l \<Longrightarrow> live_ok R c \<Longrightarrow> logged R ex c (f x c)"
  shows "logged R ex c (fold f l c)"
  using assms
proof (induction l arbitrary: c)
  case (Cons x l)
  have step: "logged R ex c (f x c)" using Cons.prems by simp
  have "live_ok R (f x c)" by (rule logged_live [OF step Cons.prems(1)])
  from logged_trans [OF step Cons.IH [OF this]] Cons.prems(2) show ?case by simp
qed simp

lemma logged_processMsg:
  assumes "live_ok R c"
  shows "logged R ex c (processMsg e c)"
proof -
  have 1: "logged R ex c (fold (sendAvailableMessages e) (psubs c) c)"
    by (rule logged_fold [OF assms]) (use assms in \<open>auto simp: live_ok_def intro: logged_sendAvailableMessages\<close>)
  have "live_ok R (fold (sendAvailableMessages e) (psubs c) c)" by (rule logged_live [OF 1 assms])
  from logged_trans [OF 1 logged_fold [OF this logged_sendAvailableMessagesToQueue]]
  show ?thesis by (simp add: processMsg_def)
qed

text \<open>An acknowledgement: the message is no longer pending, and this is recorded unless the store fails.\<close>

lemma logged_ack:
  assumes "r \<in> R" "ex \<Longrightarrow> stored"
  shows "logged R ex c (let c1 = (if b then collectSentOrAck r False q c else c); c2 = upd_sub r (del_pending q) c1
     in if stored then log_rec (RecAck (ID (sub_at c r)) q) c2 else c2)"
proof -
  define c1 where "c1 = upd_sub r (del_pending q) (if b then collectSentOrAck r False q c else c)"
  define c2 where "c2 = (if stored then log_rec (RecAck (ID (sub_at c r)) q) c1 else c1)"
  let ?l = "if stored then [(r, False, q)] else []"
  have st: "steady c c1" unfolding c1_def
    by (rule steady_trans [OF _ steady_upd_sub]) (simp_all add: steady_collect)
  then have "steady c c2" using steady_trans [OF st steady_log] by (simp add: c2_def)
  moreover have "c_slog c2 = c_slog c @ map (rec_of c) ?l" by (simp add: c1_def c2_def)
  moreover have "fst ` set ?l \<subseteq> R" using assms(1) by auto
  moreover have "keys (acksPending (sub_at c2 x)) =
      (if x = r then keys (acksPending (sub_at c x)) - {q} else keys (acksPending (sub_at c x)))" for x
    by (simp add: c1_def c2_def del_pending_def)
  ultimately have "logged R ex c c2" using assms(2) by (intro logged_byI [of _ _ ?l]) auto
  then show ?thesis unfolding c2_def c1_def Let_def .
qed

lemma logged_ack_other_members:
  assumes "set qs \<subseteq> R" "ex \<Longrightarrow> \<forall>i q. e_ackPending e i q"
  shows "logged R ex c (ack_other_members e q r sequence qs c)"
  using assms(1)
proof (induction qs arbitrary: c)
  case (Cons x qs)
  let ?c3 = "let c1 = (if e_clustered e then collectSentOrAck x False sequence c else c); c2 = upd_sub x (del_pending sequence) c1
     in if e_ackPending e (ID (sub_at c x)) sequence then log_rec (RecAck (ID (sub_at c x)) sequence) c2 else c2"
  have c3: "logged R ex c ?c3" by (rule logged_ack) (use Cons.prems assms(2) in auto)
  have "logged R ex c (upd_queue q (\<lambda>qs. qs\<lparr>q_rdlvCount := mdel sequence (q_rdlvCount qs)\<rparr>) ?c3)"
    by (rule logged_trans [OF c3 logged_upd_queue]) simp
  with Cons show ?case by (simp add: Let_def)
qed simp

lemma logged_ack_unstall:
  assumes "live_ok R c" "r \<in> R"
  shows "logged R ex c (ack_unstall e r c)"
proof -
  let ?c1 = "upd_sub r (\<lambda>s. s\<lparr>stalled := False\<rparr>) c"
  have c1: "logged R ex c ?c1" by (rule logged_quiet) (simp_all add: steady_upd_sub)
  have l1: "live_ok R ?c1" by (rule logged_live [OF c1 assms(1)])
  show ?thesis
  proof (cases "qstate (sub_at c r)")
    case None
    with c1 logged_trans [OF c1 logged_sendAvailableMessages [OF assms(2)]] show ?thesis
      by (simp add: ack_unstall_def Let_def)
  next
    case (Some q)
    let ?c2 = "if q_stalledSubCount (queue_at ?c1 q) > 0
      then upd_queue q (\<lambda>qs. qs\<lparr>q_stalledSubCount := q_stalledSubCount qs - 1\<rparr>) ?c1 else ?c1"
    have c2: "logged R ex c ?c2" using c1 logged_trans [OF c1 logged_upd_queue] by simp
    have "live_ok R ?c2" by (rule logged_live [OF c2 assms(1)])
    from logged_trans [OF c2 logged_sendAvailableMessagesToQueue [OF this]] Some show ?thesis
      by (simp add: ack_unstall_def Let_def)
  qed
qed

lemma upd_sub_log_rec: "upd_sub r f (log_rec x c) = log_rec x (upd_sub r f c)"
  by (simp add: upd_sub_def log_rec_def)

lemma logged_processAck:
  assumes "live_ok R c" "r \<in> R" "ex \<Longrightarrow> \<forall>i q. e_ackPending e i q"
  shows "logged R ex c (processAck e r sequence fromUser c)"
proof (cases "sequence \<in> keys (acksPending (sub_at c r))")
  case True
  let ?c1 = "if e_clustered e then collectSentOrAck r False sequence c else c"
  have c1: "logged R ex c ?c1" by (rule logged_quiet) (simp_all add: steady_collect)
  define c3 where "c3 = upd_sub r (del_pending sequence) (log_rec (RecAck (ID (sub_at c r)) sequence) ?c1)"
  have c3: "logged R ex c c3"
    using logged_ack [OF assms(2), of ex True c "e_clustered e" sequence] by (simp add: c3_def Let_def upd_sub_log_rec)
  define c4 where "c4 = (if fromUser then
       (case qstate (sub_at c r) of
          Some q \<Rightarrow> upd_queue q (\<lambda>qs. qs\<lparr>q_rdlvCount := mdel sequence (q_rdlvCount qs)\<rparr>) c3
        | None \<Rightarrow> upd_sub r (\<lambda>s. s\<lparr>rdlvCount := mdel sequence (rdlvCount s)\<rparr>) c3) else c3)"
  have "logged R ex c3 (upd_sub r (\<lambda>s. s\<lparr>rdlvCount := mdel sequence (rdlvCount s)\<rparr>) c3)"
    by (rule logged_quiet) (simp_all add: steady_upd_sub)
  with c3 logged_trans [OF c3 this] logged_trans [OF c3 logged_upd_queue] have c4: "logged R ex c c4"
    by (simp add: c4_def split: option.split)
  have "live_ok R c4" by (rule logged_live [OF c4 assms(1)])
  note acked = logged_trans [OF c4 logged_ack_unstall [OF this assms(2)]]
  have "processAck e r sequence fromUser c =
      (if e_ackPending e (ID (sub_at c r)) sequence then ack_unstall e r c4 else ?c1)"
    using True by (simp add: processAck_def Let_def c4_def c3_def split: option.split)
  with acked c1 show ?thesis by (simp del: if_split)
next
  case False
  have un: "logged R ex c (ack_unstall e r c)" by (rule logged_ack_unstall [OF assms(1,2)])
  have "logged R ex c (ack_unstall e r (ack_other_members e q r sequence (q_subs (queue_at c q)) c))" for q
  proof -
    have o: "logged R ex c (ack_other_members e q r sequence (q_subs (queue_at c q)) c)"
      by (rule logged_ack_other_members) (use assms(1,3) in \<open>auto simp: live_ok_def\<close>)
    have "live_ok R (ack_other_members e q r sequence (q_subs (queue_at c q)) c)"
      by (rule logged_live [OF o assms(1)])
    from logged_trans [OF o logged_ack_unstall [OF this assms(2)]] show ?thesis .
  qed
  with False un show ?thesis by (simp add: processAck_def Let_def split: option.split)
qed

lemma logged_getMsgForRedelivery:
  assumes "getMsgForRedelivery e r seq c = (mo, c')" "live_ok R c" "r \<in> R" "ex \<Longrightarrow> \<forall>i q. e_ackPending e i q"
  shows "logged R ex c c'"
  using assms(1) logged_processAck [OF assms(2-4)]
  by (auto simp: getMsgForRedelivery_def split: if_splits option.splits)

lemma logged_resend:
  "r \<in> R \<Longrightarrow> logged R ex c (if b then snd (sendMsgToSub e r m force c) else c)"
  using logged_send [of e r m force c "fst (fst (sendMsgToSub e r m force c))" "snd (fst (sendMsgToSub e r m force c))"
      "snd (sendMsgToSub e r m force c)"] by simp

lemma logged_durable_loop:
  assumes "r \<in> R" "ex \<Longrightarrow> \<forall>i q. e_ackPending e i q"
  shows "live_ok R c \<Longrightarrow> logged R ex c (durable_loop e r seqs c)"
proof (induction seqs arbitrary: c)
  case (Cons seq seqs)
  obtain mo c1 where get: "getMsgForRedelivery e r seq c = (mo, c1)" by (metis surj_pair)
  define c2 where "c2 = (case mo of None \<Rightarrow> c1 | Some m \<Rightarrow>
    if isMsgStillPending (sub_at c1 r) (m\<lparr>Redelivered := True\<rparr>) then snd (sendMsgToSub e r (m\<lparr>Redelivered := True\<rparr>) True c1) else c1)"
  have c1: "logged R ex c c1" by (rule logged_getMsgForRedelivery [OF get Cons.prems assms])
  have c2: "logged R ex c c2"
    unfolding c2_def using c1 logged_trans [OF c1 logged_resend [OF assms(1)]] by (simp split: option.split)
  have "live_ok R c2" by (rule logged_live [OF c2 Cons.prems])
  from logged_trans [OF c2 Cons.IH [OF this]] get show ?case
    by (cases mo) (simp_all add: c2_def Let_def)
qed simp

lemma logged_expiration_loop:
  assumes "r \<in> R" "ex \<Longrightarrow> \<forall>i q. e_ackPending e i q"
  shows "live_ok R c \<Longrightarrow> expiration_loop e r st limit exp pms z c = (c', z', nx) \<Longrightarrow> logged R ex c c'"
proof (induction pms arbitrary: c z)
  case (Cons pm pms)
  obtain seq expire where pm: "pm = (seq, expire)" by (cases pm)
  obtain mo c1 where get: "getMsgForRedelivery e r seq c = (mo, c1)" by (metis surj_pair)
  have c1: "logged R ex c c1" by (rule logged_getMsgForRedelivery [OF get Cons.prems(1) assms])
  have l1: "live_ok R c1" by (rule logged_live [OF c1 Cons.prems(1)])
  have IH: "logged R ex c c'" if "logged R ex c1 c2" "expiration_loop e r st limit exp pms z2 c2 = (c', z', nx)" for c2 z2
    using Cons.IH [OF logged_live [OF that(1) l1] that(2)]
    by (rule logged_trans [OF logged_trans [OF c1 that(1)]])
  show ?case
  proof (cases mo)
    case None
    with IH [OF logged_refl] Cons.prems(2) get pm show ?thesis by simp
  next
    case (Some m)
    with get good_getMsgForRedelivery(2) have eq: "c1 = c" by blast
    let ?m = "m\<lparr>Redelivered := True\<rparr>"
    have setp: "logged R ex c1 (if expire = 0 \<and> seq \<in> keys (acksPending (sub_at c1 r))
        then upd_sub r (set_pending seq t) c1 else c1)" for t
      by (rule logged_quiet) (auto simp: steady_upd_sub set_pending_def insert_absorb)
    consider (zero) "z \<or> expire = 0" | (later) "\<not> (z \<or> expire = 0)" "expire > limit"
      | (group) q where "\<not> (z \<or> expire = 0)" "\<not> expire > limit" "qstate (sub_at c r) = Some q" "\<not> st"
      | (self) "\<not> (z \<or> expire = 0)" "\<not> expire > limit" "qstate (sub_at c r) = None \<or> st"
      by (cases "qstate (sub_at c r)") auto
    then show ?thesis
    proof cases
      case zero
      with IH [OF setp] Cons.prems(2) get pm Some show ?thesis by (simp add: Let_def)
    next
      case later
      with Cons.prems(2) get pm Some c1 show ?thesis by simp
    next
      case self
      then have "expiration_loop e r st limit exp pms z
          (if isMsgStillPending (sub_at c1 r) ?m then snd (sendMsgToSub e r ?m True c1) else c1) = (c', z', nx)"
        using Cons.prems(2) get pm Some by (auto simp: Let_def split: option.splits bool.splits)
      from IH [OF logged_resend [OF assms(1)] this] show ?thesis .
    next
      case group
      obtain p sent c2 where grp: "sendMsgToQueueGroup e q ?m True c1 = ((p, sent), c2)" by (metis surj_pair)
      have c2: "logged R ex c1 c2" by (rule logged_sendMsgToQueueGroup [OF grp l1])
      have l2: "live_ok R c2" by (rule logged_live [OF c2 l1])
      have "logged R ex c1 (if b then processAck e r (Sequence ?m) False c2 else c2)" for b
        using c2 logged_trans [OF c2 logged_processAck [OF l2 assms]] by simp
      note c3 = IH [OF this]
      show ?thesis
      proof (cases "isMsgStillPending (sub_at c1 r) ?m")
        case True
        with group grp logged_trans [OF c1 c2] c3 Cons.prems(2) get pm Some show ?thesis
          by (simp add: Let_def split: option.splits)
      next
        case False
        with group IH [OF logged_refl] Cons.prems(2) get pm Some show ?thesis by (simp add: Let_def)
      qed
    qed
  qed
qed simp

lemma logged_performAckExpirationRedelivery:
  assumes "r \<in> R" "ex \<Longrightarrow> \<forall>i q. e_ackPending e i q"
  shows "live_ok R c \<Longrightarrow> logged R ex c (performAckExpirationRedelivery n e r st c)"
proof (induction n arbitrary: c)
  case (Suc n)
  obtain c1 z nx where loop: "expiration_loop e r st (redeliveryLimit e) (ackWait (sub_at c r))
      (makeSortedPendingMsgs (sub_at c r)) False c = (c1, z, nx)" by (metis surj_pair)
  have c1: "logged R ex c c1" by (rule logged_expiration_loop [OF assms Suc.prems loop])
  have quiet: "logged R ex c (upd_sub r (adjustAckTimer now t) c)" "logged R ex c (upd_sub r clearAckTimer c)"
    "logged R ex c (upd_sub r (\<lambda>s. s\<lparr>ackTimer := f s\<rparr>) c)" for now t c f
    by (auto simp: steady_upd_sub adjustAckTimer_def clearAckTimer_def intro!: logged_quiet split: if_splits)
  have "live_ok R c1" by (rule logged_live [OF c1 Suc.prems])
  from logged_trans [OF c1 Suc.IH [OF this]] logged_trans [OF c1 quiet(1)] loop quiet(2,3)
  show ?case by (simp add: Let_def)
qed simp

end
