(* ===== verification/Delivery_Props.thy ===== *)
theory Delivery_Props
  imports Delivery_Log
begin

text \<open>
  The properties of delivery: what a channel keeps under any sequence of its events, what is
  sent to a subscription that is ready, and what an acknowledgement does.
\<close>

section \<open>Runs of a channel\<close>

text \<open>
  The events of a channel, each with the environment it meets: an operation of the message
  store, the delivery that follows a stored message, an acknowledgement on an inbox, the ack
  timer of a subscription and the redelivery to a durable that comes back.
\<close>

datatype chan_event =
    EvStore msg_op
  | EvDeliver
  | EvAck string u64
  | EvTimer nat sref bool
  | EvDurable bool sref

fun chan_step :: "(MsgProto option \<Rightarrow> nat) \<Rightarrow> env \<times> chan_event \<Rightarrow> chan \<Rightarrow> chan" where
  "chan_step msize (e, EvStore x) c = c\<lparr>c_msgs := msg_step msize x (c_msgs c)\<rparr>"
| "chan_step msize (e, EvDeliver) c = processMsg e c"
| "chan_step msize (e, EvAck inbox sequence) c = processAckMsg e inbox sequence c"
| "chan_step msize (e, EvTimer n r isStartup) c = performAckExpirationRedelivery n e r isStartup c"
| "chan_step msize (e, EvDurable clientKnown r) c = performDurableRedelivery e clientKnown r c"

fun event_ok :: "chan \<Rightarrow> chan_event \<Rightarrow> bool" where
  "event_ok c (EvStore x) = msg_op_ok (c_msgs c) x"
| "event_ok c _ = True"

fun chan_run :: "(MsgProto option \<Rightarrow> nat) \<Rightarrow> (env \<times> chan_event) list \<Rightarrow> chan \<Rightarrow> chan option" where
  "chan_run msize [] c = Some c"
| "chan_run msize (x # xs) c = (if event_ok c (snd x) then chan_run msize xs (chan_step msize x c) else None)"

lemma chan_step_inv:
  assumes "chan_inv msize xs c" "event_ok c (snd x)"
  shows "\<exists>ys. chan_inv msize ys (chan_step msize x c)"
proof -
  obtain e ev where x: "x = (e, ev)" by (cases x)
  show ?thesis
  proof (cases ev)
    case (EvStore op)
    with assms x msg_step_log [OF chan_invD(2) [OF assms(1)], of op]
    show ?thesis by (auto simp: chan_inv_def chan_wf_def reg_ok_def lastSent_ok_def)
  next
    case EvDeliver
    with assms(1) x good_processMsg [OF assms(1), of e] show ?thesis by (auto simp: good_def)
  next
    case (EvAck inbox q)
    have "good msize xs c (processAckMsg e inbox q c)"
      by (simp add: processAckMsg_def good_processAck split: option.split)
    with EvAck assms(1) x show ?thesis by (auto simp: good_def)
  next
    case (EvTimer n r b)
    with assms(1) x performAckExpirationRedelivery_inv [OF assms(1), of n e r b] show ?thesis by (auto simp: good_def)
  next
    case (EvDurable b r)
    with x performDurableRedelivery_inv [OF assms(1), of e b r] show ?thesis by auto
  qed
qed

lemma chan_run_inv:
  "chan_run msize evs c = Some c' \<Longrightarrow> chan_inv msize xs c \<Longrightarrow> \<exists>ys. chan_inv msize ys c'"
proof (induction evs arbitrary: c xs)
  case (Cons x evs)
  then show ?case using chan_step_inv [of msize xs c x] by (auto split: if_splits)
qed auto


definition sample_sub :: subState where
  "sample_sub = \<lparr>ID = 1, ClientID = ''me'', QGroup = [], Inbox = ''inbox'', AckInbox = ''ack'', MaxInFlight = 2,
     AckWaitInSecs = 30, DurableName = [], LastSent = 0, IsDurable = False, IsClosed = False, sub_subject = ''foo'',
     qstate = None, ackWait = 30000000000, ackTimer = None, ackSub = True, acksPending = [], savedClientID = [],
     sub_replicate = None, rdlvCount = [], initialized = True, stalled = False, newOnHold = False, hasFailedHB = False\<rparr>"

definition sample_chan :: chan where
  "sample_chan = \<lparr>c_name = ''foo'', c_id = 0, c_firstSeq = 0, c_nextSequence = 1, c_lTimestamp = 0, c_nextSubID = 1,
     c_lSeqChecked = False, c_activity = None, c_msgs = ms_init ''foo'' sample_limits, c_substore = ss_init 0, c_heap = (\<lambda>_. sample_sub),
     c_qheap = (\<lambda>_. \<lparr>q_lastSent = 0, q_subs = [], q_rdlvCount = [], q_shadow = None, q_stalledSubCount = 0,
       q_newOnHold = False\<rparr>),
     c_next = 1, c_qnext = 0, psubs = [0], qsubs = [], durables = [], acks = [(''ack'', 0)], inboxes = [(''inbox'', 0)], waiting = [],
     ready = [], c_slog = [], c_out = []\<rparr>"

definition sample_env :: "int \<Rightarrow> env" where
  "sample_env now = \<lparr>e_now = now, e_clustered = False, e_leader = False, e_publish = (\<lambda>_ _. True),
     e_addPending = (\<lambda>_ _. True), e_ackPending = (\<lambda>_ _. True), e_lookup = (\<lambda>_. True),
     e_createSub = True, e_updateSub = (\<lambda>_. True), e_deleteSub = (\<lambda>_. True), e_flush = True, e_startAckSub = True\<rparr>"

definition sample_events :: "(env \<times> chan_event) list" where
  "sample_events =
     [(sample_env 0, EvStore (StoreOp 0 (sample_msg 1 0))), (sample_env 1, EvStore (StoreOp 1 (sample_msg 2 1))),
      (sample_env 2, EvDeliver), (sample_env 3, EvAck ''ack'' 1)]"

lemma sample_chan_inv: "chan_inv msize [] sample_chan"
  by (simp add: chan_inv_def chan_wf_def reg_ok_def lastSent_ok_def sub_wf_def ms_log_init sample_chan_def sample_sub_def)


text \<open>C15: to a subscription that is ready \<open>sendAvailableMessages\<close> sends, in the order of the log
  and each once, exactly the stored messages after its \<open>LastSent\<close>, as many as fit under
  \<open>MaxInFlight\<close>: each is published on its inbox, recorded in the subscription store and pending,
  nothing else changes, and it is stalled when there was no room left for another message.\<close>

theorem sendAvailableMessages_spec:
  assumes "env_ok e" "list_all (\<lambda>m. \<not> Redelivered m) xs" "ms_log msize (c_msgs c) xs" "sub_ready (sub_at c r)"
  shows "let s = sub_at c r; ys = newer (LastSent s) xs;
         k = (if stalled s then 0 else min (length ys) (room s));
         c' = sendAvailableMessages e r c
     in delivered r (take k ys) c c' \<and> newer (LastSent (sub_at c' r)) xs = drop k ys \<and>
        sub_ready (sub_at c' r) \<and> LastSent s \<le> LastSent (sub_at c' r) \<and>
        stalled (sub_at c' r) = (stalled s \<or> ys \<noteq> [] \<and> room s \<le> length ys)"
  by (rule sendAvailableMessages_ready [OF assms])

theorem sendAvailableMessages_spec_witness:
  "let c = sample_chan\<lparr>c_msgs := snd (Store (\<lambda>_. 5) 0 (sample_msg 1 0) (ms_init ''foo'' sample_limits))\<rparr>
   in delivered 0 [sample_msg 1 0] c (sendAvailableMessages (sample_env 0) 0 c)"
proof -
  let ?ms = "ms_init ''foo'' sample_limits" and ?m = "sample_msg 1 0"
  let ?c = "sample_chan\<lparr>c_msgs := snd (Store (\<lambda>_. 5) 0 ?m ?ms)\<rparr>"
  have "next_msg ?ms ?m" by code_simp
  then have "ms_log (\<lambda>_. 5) (c_msgs ?c) (trim (\<lambda>_. 5) (ms_limits ?ms) ([] @ [?m]))"
    using Store_log(2) [OF ms_log_init] by simp
  moreover have "trim (\<lambda>_. 5) (ms_limits ?ms) ([] @ [?m]) = [?m]"
    by (simp add: over_def ms_init_def sample_limits_def)
  ultimately have log: "ms_log (\<lambda>_. 5) (c_msgs ?c) [?m]" by simp
  have ready: "sub_ready (sub_at ?c 0)" by (simp add: sub_ready_def sample_chan_def sample_sub_def)
  have "env_ok (sample_env 0)" by (simp add: env_ok_def sample_env_def)
  from sendAvailableMessages_spec [OF this _ log ready] show ?thesis
    by (simp add: newer_def room_def sample_chan_def sample_sub_def sample_msg_def Let_def)
qed

section \<open>The subscription store follows\<close>

fun event_on :: "sref set \<Rightarrow> chan_event \<Rightarrow> bool" where
  "event_on R (EvTimer n r isStartup) = (r \<in> R)"
| "event_on R (EvDurable clientKnown r) = (r \<in> R)"
| "event_on R _ = True"

lemma logged_chan_step:
  assumes "live_ok R c" "event_on R (snd x)" "ex \<Longrightarrow> \<forall>i q. e_ackPending (fst x) i q"
  shows "logged R ex c (chan_step msize x c)"
proof -
  obtain e ev where x: "x = (e, ev)" by (cases x)
  have quiet: "logged R ex c c'" if "\<And>x. ID (sub_at c' x) = ID (sub_at c x)" "live_ok R c \<Longrightarrow> live_ok R c'"
    "c_slog c' = c_slog c" "\<And>x. acksPending (sub_at c' x) = acksPending (sub_at c x)" for c c'
    unfolding logged_def logged_by_def using that by (intro exI [of _ "[]"]) simp
  show ?thesis
  proof (cases ev)
    case (EvStore op)
    with x show ?thesis by (auto intro!: quiet simp: live_ok_def)
  next
    case EvDeliver
    with x assms(1) show ?thesis by (simp add: logged_processMsg)
  next
    case (EvAck inbox q)
    have "r \<in> R" if "mget (acks c) inbox = Some r" for r
      using map_of_SomeD [OF that] assms(1) by (force simp: live_ok_def)
    with EvAck x assms logged_processAck [OF assms(1), of _ ex e] show ?thesis
      by (simp add: processAckMsg_def split: option.split)
  next
    case (EvTimer n r b)
    with x assms show ?thesis by (simp add: logged_performAckExpirationRedelivery)
  next
    case (EvDurable b r)
    let ?c = "if b then durable_loop e r (makeSortedSequences (sub_at c r)) c else c"
    have c: "logged R ex c ?c" using EvDurable x assms by (simp add: logged_durable_loop)
    have "logged R ex ?c (upd_sub r (\<lambda>s. s\<lparr>newOnHold := False\<rparr>) ?c)"
      by (rule quiet) (auto simp: live_ok_def)
    from logged_trans [OF c this] c show ?thesis
      using EvDurable x by (simp add: performDurableRedelivery_def Let_def del: if_split)
  qed
qed

lemma logged_chan_run:
  "chan_run msize evs c = Some c' \<Longrightarrow> live_ok R c \<Longrightarrow> list_all (\<lambda>x. event_on R (snd x)) evs \<Longrightarrow>
   (ex \<Longrightarrow> list_all (\<lambda>x. \<forall>i q. e_ackPending (fst x) i q) evs) \<Longrightarrow> logged R ex c c'"
proof (induction evs arbitrary: c)
  case (Cons x evs)
  have step: "logged R ex c (chan_step msize x c)"
    by (rule logged_chan_step) (use Cons.prems in auto)
  have "logged R ex (chan_step msize x c) c'"
    by (rule Cons.IH) (use Cons.prems logged_live [OF step] in \<open>auto split: if_splits\<close>)
  with step show ?case by (rule logged_trans)
qed simp

text \<open>C2: after any run of a channel whose subscriptions have different IDs, replaying the message
  and ack records written during the run over the messages that were pending before it gives
  every message that is pending now, so a restart forgets no unacknowledged message; when no
  acknowledgement failed to be stored it gives exactly the pending messages.\<close>

theorem pending_follows_subscription_log:
  assumes "chan_run msize evs c = Some c'" "live_ok R c" "list_all (\<lambda>x. event_on R (snd x)) evs"
    and "inj_on (\<lambda>x. ID (sub_at c x)) R" "r \<in> R"
  shows "\<exists>l. c_slog c' = c_slog c @ l \<and>
     keys (acksPending (sub_at c' r)) \<subseteq> replay (ID (sub_at c r)) l (keys (acksPending (sub_at c r))) \<and>
     (list_all (\<lambda>x. \<forall>i q. e_ackPending (fst x) i q) evs \<longrightarrow>
        keys (acksPending (sub_at c' r)) = replay (ID (sub_at c r)) l (keys (acksPending (sub_at c r))))"
proof -
  let ?ex = "list_all (\<lambda>x. \<forall>i q. e_ackPending (fst x) i q) evs"
  obtain l where "logged_by R ?ex l c c'"
    using logged_chan_run [OF assms(1-3), of ?ex] by (auto simp: logged_def)
  with replay_events [OF assms(4) _ assms(5), of l] show ?thesis
    by (intro exI [of _ "map (rec_of c) l"]) (auto simp: logged_by_def)
qed

theorem pending_follows_subscription_log_witness:
  "\<exists>c'. chan_run (\<lambda>_. 5) sample_events sample_chan = Some c' \<and>
     (\<exists>l. c_slog c' = c_slog sample_chan @ l \<and> keys (acksPending (sub_at c' 0)) = replay 1 l {})"
proof -
  have "\<not> Option.is_none (chan_run (\<lambda>_. 5) sample_events sample_chan)" by code_simp
  then obtain c' where c': "chan_run (\<lambda>_. 5) sample_events sample_chan = Some c'" by (auto simp: Option.is_none_def)
  have "live_ok {0} sample_chan" "list_all (\<lambda>x. event_on {0} (snd x)) sample_events"
    "list_all (\<lambda>x. \<forall>i q. e_ackPending (fst x) i q) sample_events"
    by (simp_all add: live_ok_def sample_chan_def sample_events_def sample_env_def)
  with pending_follows_subscription_log [OF c', of "{0}" 0] c' show ?thesis
    by (auto simp: sample_chan_def sample_sub_def)
qed

section \<open>Acknowledgements\<close>

text \<open>C16: an acknowledgement of a pending message of a ready plain subscription is recorded and
  removes exactly that message from the pending ones. If the subscription was stalled, then
  the next messages of the log are sent, as many as now fit under \<open>MaxInFlight\<close>, and otherwise
  nothing is sent.\<close>

theorem processAck_spec:
  assumes "env_ok e" "list_all (\<lambda>m. \<not> Redelivered m) xs" "ms_log msize (c_msgs c) xs" "sub_ready (sub_at c r)"
    and "qstate (sub_at c r) = None" "sequence \<in> keys (acksPending (sub_at c r))"
  shows "let s = sub_at c r; ys = newer (LastSent s) xs; k = (if stalled s then min (length ys) (Suc (room s)) else 0);
        c' = processAck e r sequence True c
     in keys (acksPending (sub_at c' r)) = (keys (acksPending s) - {sequence}) \<union> Sequence ` set (take k ys) \<and>
        c_out c' = c_out c @ map (Pair (Inbox s)) (take k ys) \<and>
        c_slog c' = c_slog c @ RecAck (ID s) sequence # map (\<lambda>m. RecMsg (ID s) (Sequence m)) (take k ys) \<and>
        (\<forall>x. x \<noteq> r \<longrightarrow> sub_at c' x = sub_at c x)"
proof -
  let ?s = "sub_at c r" and ?c1 = "if e_clustered e then collectSentOrAck r False sequence c else c"
  define c4 where "c4 = upd_sub r (\<lambda>s. s\<lparr>rdlvCount := mdel sequence (rdlvCount s)\<rparr>)
     (upd_sub r (del_pending sequence) (log_rec (RecAck (ID ?s) sequence) ?c1))"
  have ack: "processAck e r sequence True c = ack_unstall e r c4"
    using assms(1,5,6) by (simp add: processAck_def Let_def c4_def env_ok_def)
  have o: "only_sub r c c4" unfolding c4_def
    by (intro only_sub_trans [OF _ only_sub_upd_sub] only_sub_trans [OF _ only_sub_log(1)]) (simp_all add: only_sub_collect)
  have st: "static_eq ?s (sub_at c4 r)" using o by (simp add: only_sub_def)
  have c4: "acksPending (sub_at c4 r) = mdel sequence (acksPending ?s)" "LastSent (sub_at c4 r) = LastSent ?s"
    "stalled (sub_at c4 r) = stalled ?s" "c_out c4 = c_out c" "c_slog c4 = c_slog c @ [RecAck (ID ?s) sequence]"
    "c_msgs c4 = c_msgs c"
    using o by (simp_all add: c4_def del_pending_def only_sub_def same_reg_def)
  have len: "Suc (length (mdel sequence (acksPending ?s))) = length (acksPending ?s)"
    using assms(4,6) by (simp add: sub_ready_def length_mdel) (metis Suc_pred keys_Nil length_greater_0_conv empty_iff)
  have i32: "i32 (int (length (acksPending (sub_at c4 r)))) < MaxInFlight (sub_at c4 r)"
    using assms(4) len static_eqD(6) [OF st] by (simp add: c4(1) sub_ready_def)
  have ready: "sub_ready (sub_at (upd_sub r (\<lambda>s. s\<lparr>stalled := False\<rparr>) c4) r)" (is "sub_ready (sub_at ?c5 r)")
    using assms(4) static_eqD [OF st] c4(1,2) len by (simp add: sub_ready_def)
  show ?thesis
  proof (cases "stalled ?s")
    case False
    then have "ack_unstall e r c4 = c4" by (simp add: ack_unstall_def c4(3) Let_def)
    with False ack c4 only_subD(3) [OF o] show ?thesis by (simp add: Let_def)
  next
    case True
    have un: "ack_unstall e r c4 = sendAvailableMessages e r ?c5"
      using True i32 assms(5) static_eqD(12) [OF st] by (simp add: ack_unstall_def c4(3) Let_def)
    have log: "ms_log msize (c_msgs ?c5) xs" using assms(3) c4(6) by simp
    have room: "room (sub_at ?c5 r) = Suc (room ?s)"
    proof -
      have "int (length (acksPending ?s)) \<le> MaxInFlight ?s" using assms(4) by (simp add: sub_ready_def)
      then show ?thesis using len static_eqD(6) [OF st] by (simp add: room_def c4(1))
    qed
    note sent = sendAvailableMessages_ready [OF assms(1,2) log ready]
    from sent room have d: "delivered r (take (min (length (newer (LastSent ?s) xs)) (Suc (room ?s))) (newer (LastSent ?s) xs)) ?c5
        (sendAvailableMessages e r ?c5)"
      by (simp add: Let_def c4(2))
    then have oth: "sub_at (sendAvailableMessages e r ?c5) x = sub_at c x" if "x \<noteq> r" for x
      using that only_subD(3) [OF o that] by (simp add: delivered_def only_sub_def)
    from d True ack un oth c4 static_eqD(1,4) [OF st] show ?thesis
      by (simp add: delivered_def Let_def)
  qed
qed

definition acked_chan :: chan where
  "acked_chan = sample_chan\<lparr>c_heap := (\<lambda>_. sample_sub\<lparr>LastSent := 1, acksPending := [(1, 5)], stalled := True, MaxInFlight := 1\<rparr>),
     c_msgs := snd (Store (\<lambda>_. 5) 0 (sample_msg 2 0) (snd (Store (\<lambda>_. 5) 0 (sample_msg 1 0) (ms_init ''foo'' sample_limits))))\<rparr>"

theorem processAck_spec_witness:
  "keys (acksPending (sub_at (processAck (sample_env 0) 0 1 True acked_chan) 0)) = {2} \<and>
   c_out (processAck (sample_env 0) 0 1 True acked_chan) = [(''inbox'', sample_msg 2 0)]"
proof -
  let ?ms = "ms_init ''foo'' sample_limits" and ?xs = "[sample_msg 1 0, sample_msg 2 0]"
  have log1: "ms_log (\<lambda>_. 5) (snd (Store (\<lambda>_. 5) 0 (sample_msg 1 0) ?ms)) [sample_msg 1 0]"
    using Store_log(2) [OF ms_log_init [of "\<lambda>_. 5" "''foo''" sample_limits], of "sample_msg 1 0" 0]
    by (simp add: next_msg_def over_def ms_init_def sample_limits_def sample_msg_def)
  have "next_msg (snd (Store (\<lambda>_. 5) 0 (sample_msg 1 0) ?ms)) (sample_msg 2 0)" by code_simp
  note log2 = Store_log(2) [OF log1 this, of 0]
  have "ms_limits (snd (Store (\<lambda>_. 5) 0 (sample_msg 1 0) ?ms)) = sample_limits" by code_simp
  with log2 have log: "ms_log (\<lambda>_. 5) (c_msgs acked_chan) ?xs"
    by (simp add: acked_chan_def over_def sample_limits_def)
  have "sub_ready (sub_at acked_chan 0)" "env_ok (sample_env 0)" "list_all (\<lambda>m. \<not> Redelivered m) ?xs"
    "qstate (sub_at acked_chan 0) = None" "1 \<in> keys (acksPending (sub_at acked_chan 0))"
    by (simp_all add: sub_ready_def env_ok_def acked_chan_def sample_chan_def sample_sub_def sample_env_def
        sample_msg_def wf_map_def keys_def)
  from processAck_spec [OF this(2,3) log this(1,4,5)] show ?thesis
    by (simp add: Let_def acked_chan_def sample_chan_def sample_sub_def newer_def room_def sample_msg_def keys_def)
qed

end
