(* ===== verification/Channel_Props.thy ===== *)
theory Channel_Props
  imports Recovery Delivery_Props
begin

text \<open>
  The names of the channels: the map of channels, the map of lower-case names and the store agree
  under every handler of the server. Most handlers change the content of channels only
  (\<open>same_channels\<close>); channels are created and deleted in a few functions.
\<close>

section \<open>Invariant\<close>

definition names_ok :: "server \<Rightarrow> bool" where
  "names_ok s \<longleftrightarrow>
     wf_map (sv_channels s) \<and> wf_map (sv_channelsLC s) \<and> wf_map (gs_channels (sv_store s)) \<and>
     (\<forall>n \<in> keys (sv_channels s). mget (sv_channelsLC s) (ToLower n) = Some n) \<and>
     (\<forall>k n. mget (sv_channelsLC s) k = Some n \<longrightarrow> ToLower n = k \<and> n \<in> keys (sv_channels s)) \<and>
     keys (gs_channels (sv_store s)) \<subseteq> keys (sv_channels s)"

definition same_channels :: "server \<Rightarrow> server \<Rightarrow> bool" where
  "same_channels s s' \<longleftrightarrow>
     map fst (sv_channels s') = map fst (sv_channels s) \<and> sv_channelsLC s' = sv_channelsLC s \<and>
     map fst (gs_channels (sv_store s')) = map fst (gs_channels (sv_store s))"

lemma keys_fst: "map fst m = map fst m' \<Longrightarrow> keys m = keys m'"
  unfolding keys_def by (metis set_map)

lemma names_ok_same:
  assumes "names_ok s" "same_channels s s'"
  shows "names_ok s'"
proof -
  have "keys (sv_channels s') = keys (sv_channels s)" "keys (gs_channels (sv_store s')) = keys (gs_channels (sv_store s))"
    using assms(2) by (auto simp: same_channels_def intro!: keys_fst)
  with assms show ?thesis by (simp add: names_ok_def same_channels_def wf_map_def)
qed

lemma names_okD:
  "names_ok s \<Longrightarrow> n \<in> keys (sv_channels s) \<Longrightarrow> mget (sv_channelsLC s) (ToLower n) = Some n"
  "names_ok s \<Longrightarrow> mget (sv_channelsLC s) k = Some n \<Longrightarrow> ToLower n = k \<and> n \<in> keys (sv_channels s)"
  "names_ok s \<Longrightarrow> keys (gs_channels (sv_store s)) \<subseteq> keys (sv_channels s)"
  unfolding names_ok_def by blast+

lemma same_channels_refl [simp]: "same_channels s s"
  by (simp add: same_channels_def)

lemma same_channels_trans [trans]: "same_channels s s' \<Longrightarrow> same_channels s' s'' \<Longrightarrow> same_channels s s''"
  by (simp add: same_channels_def)

lemma same_channels_fold: "(\<And>x s. same_channels s (f x s)) \<Longrightarrow> same_channels s (fold f xs s)"
  by (induction xs arbitrary: s) (auto intro: same_channels_trans)

lemma names_ok_fold [simp]: "(\<And>x s. names_ok s \<Longrightarrow> names_ok (f x s)) \<Longrightarrow> names_ok s \<Longrightarrow> names_ok (fold f xs s)"
  by (induction xs arbitrary: s) auto

lemma map_fst_mput_mem: "k \<in> keys m \<Longrightarrow> map fst (mput k v m) = map fst m"
  by (induction m) (auto simp: keys_def)

lemma mget_in_keys: "mget m k = Some v \<Longrightarrow> k \<in> keys m"
  using mget_None_iff [of m k] by auto

lemma same_upd_chan [simp]: "same_channels s (upd_chan name f t) = same_channels s t"
  by (auto simp: upd_chan_def same_channels_def map_fst_mput_mem mget_in_keys split: option.split)

lemma same_send_reply [simp]: "same_channels s (send_reply i r t) = same_channels s t"
  by (simp add: send_reply_def same_channels_def)

lemma same_upds [simp]:
  "same_channels s (t\<lparr>sv_clients := cs\<rparr>) = same_channels s t"
  "same_channels s (t\<lparr>sv_dupCIDs := d\<rparr>) = same_channels s t"
  "same_channels s (t\<lparr>sv_lastIndex := i\<rparr>) = same_channels s t"
  "same_channels s (t\<lparr>sv_channelIDs := ci\<rparr>) = same_channels s t"
  "same_channels s (t\<lparr>sv_partitions := p\<rparr>) = same_channels s t"
  "same_channels s (t\<lparr>sv_ioChannel := io\<rparr>) = same_channels s t"
  "same_channels s (t\<lparr>sv_subStart := ss\<rparr>) = same_channels s t"
  by (simp_all add: same_channels_def)

lemma names_ok_upds [simp]:
  "names_ok (t\<lparr>sv_clients := cs\<rparr>) = names_ok t"
  "names_ok (t\<lparr>sv_dupCIDs := d\<rparr>) = names_ok t"
  "names_ok (t\<lparr>sv_lastIndex := i\<rparr>) = names_ok t"
  "names_ok (t\<lparr>sv_channelIDs := ci\<rparr>) = names_ok t"
  "names_ok (t\<lparr>sv_partitions := p\<rparr>) = names_ok t"
  "names_ok (t\<lparr>sv_ioChannel := io\<rparr>) = names_ok t"
  "names_ok (t\<lparr>sv_subStart := ss\<rparr>) = names_ok t"
  by (simp_all add: names_ok_def)

lemma names_ok_upd_chan [simp]: "names_ok s \<Longrightarrow> names_ok (upd_chan name f s)"
  by (erule names_ok_same) simp

lemma names_ok_send_reply [simp]: "names_ok s \<Longrightarrow> names_ok (send_reply i r s)"
  by (erule names_ok_same) simp

section \<open>Creation and deletion\<close>

lemma ToLower_ToLower_None:
  "names_ok s \<Longrightarrow> mget (sv_channelsLC s) (ToLower name) = None \<Longrightarrow> name \<notin> keys (sv_channels s)"
  using names_okD(1) [of s name] by auto

lemma GetChannelLimits_frame [simp]:
  "gs_channels (snd (GetChannelLimits ev n gs)) = gs_channels gs"
  by (simp add: GetChannelLimits_def getChannelLimits_def Let_def case_prod_beta split: option.split)

lemma names_ok_cs_create:
  assumes "wf_map (sv_channels s)" "wf_map (sv_channelsLC s)" "wf_map (gs_channels (sv_store s))"
    "\<forall>n \<in> keys (sv_channels s). mget (sv_channelsLC s) (ToLower n) = Some n"
    "\<forall>k n. mget (sv_channelsLC s) k = Some n \<longrightarrow> ToLower n = k \<and> n \<in> keys (sv_channels s)"
    "keys (gs_channels (sv_store s)) \<subseteq> insert name (keys (sv_channels s))"
    "\<forall>n \<in> keys (sv_channels s). ToLower n = ToLower name \<longrightarrow> n = name"
  shows "names_ok (cs_create e name sc s)"
proof -
  define s1 where "s1 = s\<lparr>sv_channels := mput name (new_chan name sc) (sv_channels s),
                 sv_channelsLC := mput (ToLower name) name (sv_channelsLC s),
                 sv_store := snd (GetChannelLimits (e_evict e) name (sv_store s))\<rparr>"
  have "names_ok s1" unfolding names_ok_def
  proof (intro conjI ballI allI impI)
    fix n assume "n \<in> keys (sv_channels s1)"
    then show "mget (sv_channelsLC s1) (ToLower n) = Some n"
      using assms(4,7) by (cases "n = name") (simp_all add: s1_def, blast)
  next
    fix k n assume "mget (sv_channelsLC s1) k = Some n"
    then have "k = ToLower name \<and> n = name \<or> mget (sv_channelsLC s) k = Some n" by (auto simp: s1_def split: if_splits)
    with assms(5) have "ToLower n = k \<and> (n = name \<or> n \<in> keys (sv_channels s))" by blast
    then show "ToLower n = k" "n \<in> keys (sv_channels s1)" by (simp_all add: s1_def)
  qed (use assms(1-3,6) in \<open>simp_all add: s1_def\<close>)
  moreover have "same_channels s1 (cs_create e name sc s)"
    by (auto simp: cs_create_def s1_def Let_def case_prod_beta split: option.split)
  ultimately show ?thesis by (rule names_ok_same)
qed


lemma names_ok_inj:
  "names_ok s \<Longrightarrow> n \<in> keys (sv_channels s) \<Longrightarrow> m \<in> keys (sv_channels s) \<Longrightarrow> ToLower n = ToLower m \<Longrightarrow> n = m"
  by (metis names_okD(1) option.inject)

lemma names_ok_createChannelLocked [simp]:
  assumes "names_ok s"
  shows "names_ok (snd (createChannelLocked e name i s))"
proof (cases "mget (sv_channels s) name = None \<and> checkCase name s = None")
  case False
  then show ?thesis using assms by (auto simp: createChannelLocked_def split: option.split)
next
  case True
  define i' where "i' = (if e_clustered e \<and> e_leader e \<and> i = 0 then sv_lastIndex s else i)"
  define s1 where "s1 = (if e_clustered e then s\<lparr>sv_channelIDs := mput name i' (sv_channelIDs s)\<rparr> else s)"
  have s1: "names_ok s1" and eqs: "sv_channels s1 = sv_channels s" "sv_channelsLC s1 = sv_channelsLC s" "sv_store s1 = sv_store s"
    using assms by (auto simp: s1_def)
  have c: "names_ok (cs_create e name sc (s1\<lparr>sv_store := st\<rparr>))"
    if "mem_CreateChannel (\<lambda>_. ()) (e_evict e) name (sv_store s1) = (Inr sc, st)" for sc st
  proof (rule names_ok_cs_create)
    have st: "gs_channels st = mput name () (gs_channels (sv_store s1))"
      using that by (auto simp: mem_CreateChannel_def getChannelLimits_def Let_def case_prod_beta split: option.splits)
    show "wf_map (gs_channels (sv_store (s1\<lparr>sv_store := st\<rparr>)))"
      using s1 st by (simp add: names_ok_def)
    show "keys (gs_channels (sv_store (s1\<lparr>sv_store := st\<rparr>))) \<subseteq> insert name (keys (sv_channels (s1\<lparr>sv_store := st\<rparr>)))"
      using names_okD(3) [OF s1] st by auto
    have "mget (sv_channelsLC s1) (ToLower name) = None"
      using True by (simp add: checkCase_def eqs split: if_splits)
    then show "\<forall>n\<in>keys (sv_channels (s1\<lparr>sv_store := st\<rparr>)). ToLower n = ToLower name \<longrightarrow> n = name"
      using names_okD(1) [OF s1] by fastforce
  qed (use s1 in \<open>simp_all add: names_ok_def\<close>)
  have "snd (createChannelLocked e name i s) \<in> {s, s1} \<or>
      (\<exists>sc st. mem_CreateChannel (\<lambda>_. ()) (e_evict e) name (sv_store s1) = (Inr sc, st) \<and>
        same_channels (cs_create e name sc (s1\<lparr>sv_store := st\<rparr>)) (snd (createChannelLocked e name i s)))"
    using True unfolding createChannelLocked_def Let_def i'_def [symmetric] s1_def [symmetric]
    by (auto split: prod.split sum.split)
  with assms s1 c show ?thesis by (auto intro: names_ok_same)
qed

lemma names_ok_lookupOrCreateChannel [simp]:
  "names_ok s \<Longrightarrow> names_ok (snd (lookupOrCreateChannel e name s))"
  by (auto simp: lookupOrCreateChannel_def split: option.split)

lemma names_ok_lookupOrCreateChannelPreventDelete [simp]:
  "names_ok s \<Longrightarrow> names_ok (snd (lookupOrCreateChannelPreventDelete e name s))"
  by (auto simp: lookupOrCreateChannelPreventDelete_def Let_def case_prod_beta split: option.split)

lemma delete_stored_spec:
  "delete_stored e b name s = (ok, s') \<Longrightarrow>
   sv_channels s' = sv_channels s \<and> sv_channelsLC s' = sv_channelsLC s \<and>
   (gs_channels (sv_store s') = mdel name (gs_channels (sv_store s)) \<or>
    \<not> ok \<and> keys (gs_channels (sv_store s')) = keys (gs_channels (sv_store s)) \<and>
      wf_map (gs_channels (sv_store s')) = wf_map (gs_channels (sv_store s)))"
  by (auto simp: delete_stored_def deleteChannel_def Let_def case_prod_beta mget_in_keys insert_absorb wf_map_def
      map_fst_mput_mem split: if_splits option.splits)

lemma names_ok_delete_stored [simp]:
  assumes "names_ok s"
  shows "names_ok (snd (delete_stored e b name s))"
  using assms delete_stored_spec [of e b name s "fst (delete_stored e b name s)" "snd (delete_stored e b name s)"]
  unfolding names_ok_def by auto

lemma names_ok_drop_channel:
  assumes "names_ok s" "name \<in> keys (sv_channels s)" "name \<notin> keys (gs_channels (sv_store s))"
  shows "names_ok (drop_channel name s)"
  unfolding names_ok_def
proof (intro conjI ballI allI impI)
  fix n assume "n \<in> keys (sv_channels (drop_channel name s))"
  then have n: "n \<in> keys (sv_channels s)" "n \<noteq> name" by (auto simp: drop_channel_def)
  then have "ToLower n \<noteq> ToLower name" using names_ok_inj assms(1,2) by blast
  with n names_okD(1) [OF assms(1)] show "mget (sv_channelsLC (drop_channel name s)) (ToLower n) = Some n"
    by (simp add: drop_channel_def)
next
  fix k n assume k: "mget (sv_channelsLC (drop_channel name s)) k = Some n"
  then have "k \<noteq> ToLower name \<and> mget (sv_channelsLC s) k = Some n" by (auto simp: drop_channel_def split: if_splits)
  with names_okD(2) [OF assms(1), of k n] show "ToLower n = k" "n \<in> keys (sv_channels (drop_channel name s))"
    by (auto simp: drop_channel_def)
qed (use assms names_okD(3) [OF assms(1)] in \<open>auto simp: names_ok_def drop_channel_def\<close>)

lemma names_ok_delete_drop:
  assumes "names_ok s" "name \<in> keys (sv_channels s)" "delete_stored e b name s = (True, s')"
  shows "names_ok (drop_channel name s')"
proof (rule names_ok_drop_channel)
  show "names_ok s'" using names_ok_delete_stored [OF assms(1), of e b name] assms(3) by simp
  show "name \<in> keys (sv_channels s')" "name \<notin> keys (gs_channels (sv_store s'))"
    using delete_stored_spec [OF assms(3)] assms(2) by auto
qed

lemma names_ok_restart_delete [simp]: "names_ok s \<Longrightarrow> names_ok (restart_delete e b name s)"
  by (simp add: restart_delete_def)

lemma names_ok_processDeleteChannel [simp]:
  assumes "names_ok s"
  shows "names_ok (processDeleteChannel e name s)"
proof (cases "delete_stored e (e_clustered e) name s")
  case (Pair ok s1)
  have "names_ok s1" using names_ok_delete_stored [OF assms, of e "e_clustered e" name] Pair by simp
  moreover have "names_ok (drop_channel name s1)" if "ok" "mget (sv_channels s) name = Some c" for c
    using names_ok_delete_drop [OF assms _ Pair [unfolded eqTrueI [OF that(1)]]] mget_in_keys [OF that(2)] by blast
  ultimately show ?thesis using assms Pair by (auto simp: processDeleteChannel_def split: option.split)
qed


section \<open>The state machine\<close>

lemma names_ok_fsm_lookupOrCreateChannel [simp]:
  assumes "names_ok s"
  shows "names_ok (snd (fsm_lookupOrCreateChannel e name i s))"
proof (cases "mget (sv_channels s) name")
  case None
  have "names_ok (snd (createChannelLocked e name i s))" using assms by simp
  with None show ?thesis by (auto simp: fsm_lookupOrCreateChannel_def split: prod.split option.split)
next
  case (Some c)
  obtain ok s1 where d: "delete_stored e True name s = (ok, s1)" by fastforce
  have s1: "names_ok s1" using names_ok_delete_stored [OF assms, of e True name] d by simp
  have "names_ok (drop_channel name s1)" if ok
    using names_ok_delete_drop [OF assms mget_in_keys [OF Some]] d that by simp
  then have "names_ok (snd (createChannelLocked e name i (drop_channel name s1)))" if ok using that by simp
  with assms Some d s1 show ?thesis
    by (auto simp: fsm_lookupOrCreateChannel_def split: prod.split option.split)
qed

lemma same_remove_sub: "same_channels s (remove_sub e p s)"
  by (simp add: remove_sub_def case_prod_beta)

lemma same_maybeStart [simp]: "same_channels s (maybeStartChannelDeleteTimer now n t) = same_channels s t"
  by (simp add: maybeStartChannelDeleteTimer_def)

lemma same_closeClient: "same_channels s (snd (closeClient e clientID s))"
proof -
  have "same_channels (s\<lparr>sv_clients := cs\<rparr>) (removeAllNonDurableSubscribers e cl (s\<lparr>sv_clients := cs\<rparr>))" for cs cl
    unfolding removeAllNonDurableSubscribers_def Let_def
    by (rule same_channels_trans [OF same_channels_fold same_channels_fold]) (simp_all add: same_remove_sub)
  then have "same_channels s (removeAllNonDurableSubscribers e cl (s\<lparr>sv_clients := cs\<rparr>))" for cs cl
    by (rule same_channels_trans [rotated]) simp
  then show ?thesis by (simp add: closeClient_def Let_def case_prod_beta split: option.split)
qed

lemma same_processConnect: "same_channels s (snd (processConnect e req b s))"
  by (auto simp: processConnect_def Let_def same_closeClient split: prod.split sum.split)

lemma same_srv_processSub: "same_channels s (snd (srv_processSub e name sr ai i s))"
  by (auto simp: srv_processSub_def split: option.split prod.split)

lemma same_srv_unsubscribeSub: "same_channels s (snd (srv_unsubscribeSub e name ci r b f s))"
  by (auto simp: srv_unsubscribeSub_def split: option.split prod.split)

lemma same_apply_unsub: "same_channels s (snd (apply_unsub e req b s))"
  by (auto simp: apply_unsub_def Let_def case_prod_beta same_srv_unsubscribeSub split: option.split)

lemmas same_handlers = same_closeClient same_processConnect same_srv_processSub same_srv_unsubscribeSub same_apply_unsub

lemma names_ok_handlers [simp]:
  assumes "names_ok s"
  shows "names_ok (snd (closeClient e clientID s))" "names_ok (snd (processConnect e req b s))"
    "names_ok (snd (srv_processSub e name sr ai i s))" "names_ok (snd (srv_unsubscribeSub e name ci r b f s))"
    "names_ok (snd (apply_unsub e ureq b s))"
  by (simp_all add: names_ok_same [OF assms] same_handlers)

lemma names_ok_apply_publish [simp]:
  assumes "names_ok s"
  shows "names_ok (snd (apply_publish e i msgs s))"
proof (cases msgs)
  case (Cons m ms)
  have "names_ok (snd (fsm_lookupOrCreateChannel e (Subject m) i s))" using assms by simp
  with Cons show ?thesis
    by (auto simp: apply_publish_def Let_def case_prod_beta split: prod.split sum.split option.split bool.split)
qed (simp add: assms apply_publish_def)

lemma names_ok_apply_subscribe [simp]:
  assumes "names_ok s"
  shows "names_ok (snd (apply_subscribe e i sr ai subID s))"
proof -
  have "names_ok (snd (fsm_lookupOrCreateChannel e (sr_Subject sr) i s))" using assms by simp
  then show ?thesis
    by (auto simp: apply_subscribe_def Let_def case_prod_beta split: prod.split sum.split bool.split)
qed

lemma names_ok_fsm_Apply [simp]:
  assumes "names_ok s"
  shows "names_ok (snd (fsm_Apply e op s))"
  using assms names_ok_lookupOrCreateChannel [OF assms, of e]
  by (cases op) (auto simp: fsm_Apply_def Let_def case_prod_beta split: prod.split option.split)

lemma names_ok_raft_Apply [simp]: "names_ok s \<Longrightarrow> names_ok (snd (raft_Apply e op s))"
  by (simp add: raft_Apply_def Let_def case_prod_beta)

section \<open>Connections\<close>

lemma names_ok_replicateConnect [simp]: "names_ok s \<Longrightarrow> names_ok (snd (replicateConnect e req b s))"
  by (simp add: replicateConnect_def Let_def case_prod_beta)

lemma names_ok_connect_replies [simp]:
  assumes "names_ok s"
  shows "names_ok (sendConnectErr reply err s)" "names_ok (finishConnectRequest e req reply s)"
  using assms by (simp_all add: sendConnectErr_def finishConnectRequest_def Let_def)

lemma names_ok_handleConnect [simp]: "names_ok s \<Longrightarrow> names_ok (handleConnect e req reply b s)"
  using names_ok_replicateConnect [of s e req b] names_ok_handlers(2) [of s e req b]
  by (auto simp: handleConnect_def Let_def case_prod_beta split: option.split)

lemma names_ok_connectCB: "names_ok s \<Longrightarrow> names_ok (snd (connectCB e data reply s))"
  by (auto simp: connectCB_def split: option.split)

lemma names_ok_connect_duplicate: "names_ok s \<Longrightarrow> names_ok (connect_duplicate e req reply i s)"
  by (simp add: connect_duplicate_def Let_def)

lemma names_ok_end_replication [simp]: "names_ok s \<Longrightarrow> names_ok (end_replication e b p s)"
  by (auto simp: end_replication_def case_prod_beta split: option.split prod.split)

lemma names_ok_replicateConnClose [simp]: "names_ok s \<Longrightarrow> names_ok (snd (replicateConnClose e ci b s))"
  by (auto simp: replicateConnClose_def Let_def case_prod_beta)

lemma names_ok_processCloseRequest: "names_ok s \<Longrightarrow> names_ok (processCloseRequest e data reply s)"
  by (auto simp: processCloseRequest_def Let_def case_prod_beta split: option.split)

lemma names_ok_set_failedHB [simp]: "names_ok s \<Longrightarrow> names_ok (set_failedHB b p s)"
  by (simp add: set_failedHB_def case_prod_beta)

lemma names_ok_checkClientHealth: "names_ok s \<Longrightarrow> names_ok (checkClientHealth e ci s)"
  by (auto simp: checkClientHealth_def Let_def split: option.split)

lemma names_ok_processClientPings: "names_ok s \<Longrightarrow> names_ok (processClientPings data reply s)"
  by (auto simp: processClientPings_def split: option.split)


section \<open>Subscriptions\<close>

lemma names_ok_client_valid [simp]: "names_ok s \<Longrightarrow> names_ok (snd (client_valid e ci conn s))"
  by (auto simp: client_valid_def Let_def case_prod_beta split: prod.split option.split)

lemma names_ok_in_partition [simp]: "names_ok s \<Longrightarrow> names_ok (snd (in_partition e subj s))"
  by (auto simp: in_partition_def Let_def case_prod_beta split: option.split)

lemma names_ok_send_subErr [simp]: "names_ok s \<Longrightarrow> names_ok (send_subErr reply err s)"
  by (simp add: send_subErr_def)

lemma names_ok_replicateSubCloseOrUnsubscribe [simp]:
  "names_ok s \<Longrightarrow> names_ok (snd (replicateSubCloseOrUnsubscribe e req b p s))"
  by (simp add: replicateSubCloseOrUnsubscribe_def Let_def case_prod_beta)

lemma names_ok_timers [simp]:
  assumes "names_ok s"
  shows "names_ok (maybeStartChannelDeleteTimer now n s)" "names_ok (turnOffPreventDelete n s)" "names_ok (cs_stopDeleteTimer n s)"
  using assms by (simp_all add: maybeStartChannelDeleteTimer_def turnOffPreventDelete_def cs_stopDeleteTimer_def)

lemma names_ok_performUnsub [simp]:
  assumes "names_ok s"
  shows "names_ok (performUnsubOrCloseSubscription e req reply b s)"
proof (cases "in_partition e (ur_Subject req) s")
  case (Pair mine s1)
  then have "names_ok s1" using names_ok_in_partition [OF assms, of e "ur_Subject req"] by simp
  with Pair show ?thesis
    by (auto simp: performUnsubOrCloseSubscription_def Let_def case_prod_beta split: option.split)
qed

lemma names_ok_unsub_requests:
  assumes "names_ok s"
  shows "names_ok (processUnsubscribeRequest e data reply s)" "names_ok (processSubCloseRequest e data reply s)"
  using assms by (auto simp: processUnsubscribeRequest_def processSubCloseRequest_def split: option.split)

lemma names_ok_closeDurableIfDuplicate [simp]: "names_ok s \<Longrightarrow> names_ok (snd (closeDurableIfDuplicate e sr s))"
  by (auto simp: closeDurableIfDuplicate_def split: option.split)

lemma names_ok_replicateSub [simp]: "names_ok s \<Longrightarrow> names_ok (snd (replicateSub e sr ai i s))"
  by (simp add: replicateSub_def Let_def case_prod_beta)

lemma names_ok_subscribe_clustered [simp]: "names_ok s \<Longrightarrow> names_ok (snd (subscribe_clustered e sr ai s))"
  by (auto simp: subscribe_clustered_def split: option.split)

lemma names_ok_create_subscription [simp]:
  assumes "names_ok s"
  shows "names_ok (snd (create_subscription e sr s))"
  using names_ok_closeDurableIfDuplicate [OF assms, of e sr] assms
  by (auto simp: create_subscription_def Let_def case_prod_beta split: option.split)

lemma names_ok_subscribed [simp]: "names_ok s \<Longrightarrow> names_ok (subscribed reply b p s)"
  by (auto simp: subscribed_def Let_def case_prod_beta split: option.split)

lemma names_ok_subscribe_on:
  assumes "names_ok s"
  shows "names_ok (case lookupOrCreateChannelPreventDelete e n s of
      (Inl err, s3) \<Rightarrow> send_subErr reply (Some err) (maybeStartChannelDeleteTimer now n s3)
    | (Inr preventDelete, s3) \<Rightarrow>
        (case create_subscription e sr s3 of
           (Inl err, s4) \<Rightarrow>
             send_subErr reply (Some err) (maybeStartChannelDeleteTimer now n (turnOffPreventDelete n s4))
         | (Inr sub, s4) \<Rightarrow> subscribed reply preventDelete sub s4))"
proof (cases "lookupOrCreateChannelPreventDelete e n s")
  case (Pair r s3)
  then have s3: "names_ok s3" using names_ok_lookupOrCreateChannelPreventDelete [OF assms, of e n] by simp
  obtain r' s4 where c: "create_subscription e sr s3 = (r', s4)" by fastforce
  then have "names_ok s4" using names_ok_create_subscription [OF s3, of e sr] by simp
  with Pair s3 c show ?thesis by (auto split: sum.split)
qed

lemma names_ok_processSubscriptionRequest:
  assumes "names_ok s"
  shows "names_ok (processSubscriptionRequest e data reply s)"
proof (cases data)
  case None
  with assms show ?thesis by (simp add: processSubscriptionRequest_def)
next
  case (Some sr)
  obtain mine s1 where p: "in_partition e (sr_Subject sr) s = (mine, s1)" by fastforce
  obtain valid s2 where v: "client_valid e (sr_ClientID sr) [] s1 = (valid, s2)" by fastforce
  have s1: "names_ok s1" using names_ok_in_partition [OF assms, of e "sr_Subject sr"] p by simp
  then have s2: "names_ok s2" using names_ok_client_valid [of s1 e "sr_ClientID sr" "[]"] v by simp
  note names_ok_subscribe_on [OF s2, where e = e and n = "sr_Subject sr" and reply = reply and now = "e_now e" and sr = sr]
  with Some p v s1 s2 assms show ?thesis
    by (simp add: processSubscriptionRequest_def split: option.split)
qed

lemma names_ok_processSubscriptionsStart: "names_ok s \<Longrightarrow> names_ok (processSubscriptionsStart e s)"
  by (auto simp: processSubscriptionsStart_def Let_def case_prod_beta split: list.split)

section \<open>Publishing\<close>

lemma names_ok_processClientPublish:
  assumes "names_ok s"
  shows "names_ok (processClientPublish e data reply s)"
proof (cases data)
  case (PubData pm)
  obtain valid s1 where v: "client_valid e (pm_ClientID pm) (pm_ConnID pm) s = (valid, s1)" by fastforce
  then have "names_ok s1" using names_ok_client_valid [OF assms, of e "pm_ClientID pm" "pm_ConnID pm"] by simp
  with PubData v assms show ?thesis by (simp add: processClientPublish_def)
qed (simp_all add: processClientPublish_def assms)

lemma names_ok_send_publishErr [simp]:
  "names_ok s \<Longrightarrow> names_ok (send_publishErr p err s)" "names_ok s \<Longrightarrow> names_ok (ackPublisher p s)"
  by (simp_all add: send_publishErr_def ackPublisher_def case_prod_beta)

lemma names_ok_store_io [simp]: "names_ok s \<Longrightarrow> names_ok (snd (snd (store_io e iopms s)))"
proof (induction iopms arbitrary: s)
  case (Cons p rest)
  obtain err s1 where l: "lookupOrCreateChannel e (pm_Subject (snd p)) s = (err, s1)" by fastforce
  have s1: "names_ok s1" using names_ok_lookupOrCreateChannel [OF Cons.prems, of e "pm_Subject (snd p)"] l by simp
  show ?case
    using s1 Cons.IH by (auto simp: l Let_def case_prod_beta split: option.split)
qed simp

lemma names_ok_replicate_collect [simp]: "names_ok s \<Longrightarrow> names_ok (snd (replicate_collect e iopms b s))"
proof (induction iopms arbitrary: b s)
  case (Cons p rest)
  obtain err s1 where l: "lookupOrCreateChannel e (pm_Subject (snd p)) s = (err, s1)" by fastforce
  have s1: "names_ok s1" using names_ok_lookupOrCreateChannel [OF Cons.prems, of e "pm_Subject (snd p)"] l by simp
  show ?case
    using s1 Cons.IH by (auto simp: l Let_def case_prod_beta split: option.split)
qed simp

lemma names_ok_replicate_apply [simp]: "names_ok s \<Longrightarrow> names_ok (snd (replicate_apply e bs s))"
  by (induction bs arbitrary: s) (auto simp: Let_def case_prod_beta)

lemma names_ok_storeIOPendingMsgs [simp]:
  assumes "names_ok s"
  shows "names_ok (snd (snd (storeIOPendingMsgs e iopms s)))"
proof -
  have "names_ok (snd (replicate_msgs e iopms s))"
    using names_ok_replicate_collect [OF assms, of e iopms "[]"]
    by (auto simp: replicate_msgs_def Let_def case_prod_beta split: prod.split sum.split)
  with assms show ?thesis
    by (auto simp: storeIOPendingMsgs_def Let_def reset_nextSequence_def split: prod.split sum.split)
qed

lemma names_ok_handleChannelDelete [simp]: "names_ok s \<Longrightarrow> names_ok (handleChannelDelete e n s)"
  by (auto simp: handleChannelDelete_def replicateDeleteChannel_def Let_def case_prod_beta split: option.split)

lemma names_ok_io_batch [simp]: "names_ok s \<Longrightarrow> names_ok (io_batch e b s)"
  using names_ok_storeIOPendingMsgs [of s e b]
  by (simp add: io_batch_def Let_def case_prod_beta deliver_stored_def)

lemma names_ok_ioLoop_step: "names_ok s \<Longrightarrow> names_ok (ioLoop_step e s)"
  by (auto simp: ioLoop_step_def Let_def case_prod_beta split: list.split ioPendingMsg.split option.split)


section \<open>Leadership and snapshots\<close>

lemma names_ok_map_channels [simp]:
  "names_ok (s\<lparr>sv_channels := map (\<lambda>(n, c). (n, f c)) (sv_channels s)\<rparr>) = names_ok s"
proof -
  have "map fst (map (\<lambda>(n, c). (n, f c)) m) = map fst m" for m :: "(string, chan) gomap"
    by (induction m) auto
  then have "same_channels s (s\<lparr>sv_channels := map (\<lambda>(n, c). (n, f c)) (sv_channels s)\<rparr>)"
    "same_channels (s\<lparr>sv_channels := map (\<lambda>(n, c). (n, f c)) (sv_channels s)\<rparr>) s"
    by (simp_all add: same_channels_def)
  then show ?thesis using names_ok_same by blast
qed

lemma names_ok_acquire_subs [simp]: "names_ok s \<Longrightarrow> names_ok (snd (acquire_subs e ps s))"
  by (induction e ps s rule: acquire_subs.induct) (auto split: option.split prod.split)

lemma names_ok_acquire_clients [simp]: "names_ok s \<Longrightarrow> names_ok (snd (acquire_clients e cls s))"
proof (induction cls arbitrary: s)
  case (Cons cl cls)
  obtain err s1 where a: "acquire_subs (env.truncate e) (cl_subs cl) s = (err, s1)" by fastforce
  then have "names_ok s1" using names_ok_acquire_subs [OF Cons.prems, of "env.truncate e" "cl_subs cl"] by simp
  with a Cons.IH show ?case by (auto split: option.split)
qed simp

lemma names_ok_startup_subs [simp]: "names_ok s \<Longrightarrow> names_ok (snd (startup_subs e ps s))"
proof (induction ps arbitrary: s)
  case (Cons p ps)
  then show ?case by (cases p) (auto simp: Let_def case_prod_beta split: option.split)
qed simp

lemma names_ok_performRedeliveryOnStartup [simp]: "names_ok s \<Longrightarrow> names_ok (performRedeliveryOnStartup e ps s)"
  by (simp add: performRedeliveryOnStartup_def startup_queue_def Let_def case_prod_beta)

lemma names_ok_leadershipAcquired:
  assumes "names_ok s"
  shows "names_ok (snd (leadershipAcquired e s))"
proof -
  define s1 where "s1 = s\<lparr>sv_channels := map (\<lambda>(n, c). (n, update_nextSequence (env.truncate e) c)) (sv_channels s)\<rparr>"
  have s1: "names_ok s1" using assms by (simp add: s1_def)
  obtain err s2 where a: "acquire_clients e (map snd (getClients (sv_clients s1))) s1 = (err, s2)" by fastforce
  then have "names_ok s2" using names_ok_acquire_clients [OF s1, of e "map snd (getClients (sv_clients s1))"] by simp
  with a assms show ?thesis
    by (simp add: leadershipAcquired_def Let_def s1_def [symmetric] split: option.split)
qed

lemma names_ok_leadershipLost: "names_ok s \<Longrightarrow> names_ok (leadershipLost s)"
  by (simp add: leadershipLost_def lose_client_def lose_sub_def Let_def case_prod_beta)

lemma names_ok_Persist: "names_ok s \<Longrightarrow> Persist e s = Some (snap, s') \<Longrightarrow> names_ok s'"
  using names_ok_map_channels [where s = s and f = clear_closed]
  by (auto simp: Persist_def snapshotChannels_def simp del: names_ok_map_channels split: if_splits)

lemma names_ok_restoreClients [simp]: "names_ok s \<Longrightarrow> names_ok (snd (restoreClientsFromSnapshot e infos s))"
  by (induction infos arbitrary: s) (auto split: prod.split sum.split)

lemma names_ok_restore_channel [simp]:
  assumes "names_ok s"
  shows "names_ok (snd (restore_channel e b sc s))"
proof -
  obtain r s1 where l: "(if b then (Inr (\<not> Option.is_none (fsm_lookupChannel (sn_Channel sc) (sn_ChannelID sc) s)), s)
            else fsm_lookupOrCreateChannel e (sn_Channel sc) (sn_ChannelID sc) s) = (r, s1)" by fastforce
  then have s1: "names_ok s1"
    using assms names_ok_fsm_lookupOrCreateChannel [OF assms, of e "sn_Channel sc" "sn_ChannelID sc"]
    by (cases b) auto
  then show ?thesis unfolding restore_channel_def l
    by (auto simp: Let_def case_prod_beta split: sum.split option.split bool.split)
qed

lemma names_ok_restore_channels [simp]: "names_ok s \<Longrightarrow> names_ok (snd (restore_channels e b scs sh olds s))"
proof (induction scs arbitrary: sh olds s)
  case (Cons sc scs)
  obtain r s1 where a: "restore_channel e b sc s = (r, s1)" by fastforce
  then have "names_ok s1" using names_ok_restore_channel [OF Cons.prems, of e b sc] by simp
  with a Cons.IH show ?case by (auto split: sum.split option.split)
qed simp

lemma names_ok_restoreChannels [simp]:
  assumes "names_ok s"
  shows "names_ok (snd (restoreChannelsFromSnapshot e snap b s))"
proof -
  let ?olds = "if b then [] else map fst (sv_channels s)"
  obtain r s1 where a: "restore_channels e b (sn_Channels snap) False ?olds s = (r, s1)" by fastforce
  then have "names_ok s1" using names_ok_restore_channels [OF assms, of e b "sn_Channels snap" False ?olds] by simp
  with a show ?thesis by (auto simp: restoreChannelsFromSnapshot_def split: sum.split)
qed

lemma names_ok_drop_subs [simp]: "names_ok s \<Longrightarrow> names_ok (snd (drop_subs e ps s))"
proof (induction ps arbitrary: s)
  case (Cons p ps)
  obtain n r where p: "p = (n, r)" by fastforce
  let ?ci = "case cs_get n s of Some c \<Rightarrow> ClientID (sub_at c r) | None \<Rightarrow> []"
  obtain err s1 where u: "srv_unsubscribeSub e n ?ci r False False s = (err, s1)" by fastforce
  then have "names_ok s1" using names_ok_handlers(4) [OF Cons.prems, of e n ?ci r False False] by simp
  with u Cons.IH show ?case by (auto simp: p Let_def split: option.split)
qed simp

lemma names_ok_drop_clients [simp]: "names_ok s \<Longrightarrow> names_ok (snd (drop_clients e ids s))"
  by (induction ids arbitrary: s) (auto split: prod.split)

lemma names_ok_Restore:
  assumes "names_ok s"
  shows "names_ok (snd (Restore e b data s))"
proof -
  let ?subs = "concat (map (\<lambda>(n, c). map (\<lambda>r. (n, r)) (getAllSubs c)) (sv_channels s))"
  obtain e1 s1 where a: "drop_subs e ?subs s = (e1, s1)" by fastforce
  have s1: "names_ok s1" using names_ok_drop_subs [OF assms, of e ?subs] a by simp
  let ?ids = "map fst (getClients (sv_clients s1))"
  obtain e2 s2 where b: "drop_clients e ?ids s1 = (e2, s2)" by fastforce
  have s2: "names_ok s2" using names_ok_drop_clients [OF s1, of e ?ids] b by simp
  have "names_ok s3" if "restoreClientsFromSnapshot e infos s2 = (e3, s3)" for infos e3 s3
    using names_ok_restoreClients [OF s2, of e infos] that by simp
  with a b s1 s2 show ?thesis
    by (auto simp: Restore_def Let_def split: option.split prod.split)
qed


section \<open>Runs of the server\<close>

text \<open>
  A step is one handler, run to its end, with any outcome of what it gets from outside.
\<close>

inductive srv_step :: "server \<Rightarrow> server \<Rightarrow> bool" where
  connect: "srv_step s (snd (connectCB e data reply s))"
| connectDuplicate: "srv_step s (connect_duplicate e req reply hbInbox s)"
| closeConn: "srv_step s (processCloseRequest e clientID reply s)"
| heartbeat: "srv_step s (checkClientHealth e clientID s)"
| ping: "srv_step s (processClientPings connID reply s)"
| subscribe: "srv_step s (processSubscriptionRequest e sreq reply s)"
| subscriptionStart: "srv_step s (processSubscriptionsStart e s)"
| unsubscribe: "srv_step s (processUnsubscribeRequest e ureq reply s)"
| subClose: "srv_step s (processSubCloseRequest e ureq reply s)"
| publish: "srv_step s (processClientPublish e pdata reply s)"
| ioLoop: "srv_step s (ioLoop_step e s)"
| deleteTimer: "srv_step s (sendDeleteChannelRequest name s)"
| ack: "srv_step s (upd_chan name (processAckMsg ce inbox sequence) s)"
| ackTimer: "srv_step s (upd_chan name (performAckExpirationRedelivery n ce r isStartup) s)"
| fsmApply: "srv_step s (snd (fsm_Apply e op s))"
| becomeLeader: "srv_step s (snd (leadershipAcquired e s))"
| loseLeadership: "srv_step s (leadershipLost s)"
| snapshot: "Persist ce s = Some (snap, s') \<Longrightarrow> srv_step s s'"
| restore: "srv_step s (snd (Restore e restoreFromInit snapdata s))"

inductive srv_reach :: "server \<Rightarrow> server \<Rightarrow> bool" where
  init: "srv_reach s s"
| step: "srv_reach s s' \<Longrightarrow> srv_step s' s'' \<Longrightarrow> srv_reach s s''"

lemma names_ok_step: "srv_step s s' \<Longrightarrow> names_ok s \<Longrightarrow> names_ok s'"
  by (induction rule: srv_step.induct)
    (simp_all add: names_ok_connectCB names_ok_connect_duplicate names_ok_processCloseRequest
      names_ok_checkClientHealth names_ok_processClientPings names_ok_processSubscriptionRequest
      names_ok_processSubscriptionsStart names_ok_unsub_requests names_ok_processClientPublish
      names_ok_ioLoop_step sendDeleteChannelRequest_def names_ok_leadershipAcquired names_ok_leadershipLost
      names_ok_Persist names_ok_Restore)

lemma names_ok_reach: "srv_reach s s' \<Longrightarrow> names_ok s \<Longrightarrow> names_ok s'"
  by (induction rule: srv_reach.induct) (auto intro: names_ok_step)

lemma names_ok_new: "gs_channels st = [] \<Longrightarrow> names_ok (newChannelStore st)"
  by (simp add: names_ok_def newChannelStore_def wf_map_def)



definition sample_senv :: "int \<Rightarrow> srv_env" where
  "sample_senv now = env.extend (sample_env now)
     (srv_env.fields
       \<lparr>o_ClientHBInterval = 30, o_ClientHBFailCount = 10, o_ReplaceDurable = False, o_IOBatchSize = 4,
        o_ProceedOnRestoreFailure = False\<rparr>
       (\<lambda>_. 5) (\<lambda>c. fst (hd c)) (\<lambda>c. fst (hd c)) True (\<lambda>_. True) (\<lambda>_. True) (\<lambda>_. True) (\<lambda>_. True)
       (\<lambda>_. True) True True (\<lambda>_. False) ''_INBOX.1'' True (\<lambda>_ _. []))"

definition sample_store :: "unit genericStore" where
  "sample_store = \<lparr>gs_limits = DefaultStoreLimits, gs_sublist = NewSublist, gs_channels = [], gs_closed = False\<rparr>"

definition sample_connect :: connectRequest where
  "sample_connect = \<lparr>cq_ClientID = ''me'', cq_HeartbeatInbox = ''hb'', cq_ConnID = ''c1'', cq_Protocol = 1,
     cq_PingInterval = 5, cq_PingMaxOut = 3\<rparr>"

definition sample_pub :: "string \<Rightarrow> string \<Rightarrow> pub_data" where
  "sample_pub subject guid =
     PubData \<lparr>pm_ClientID = ''me'', pm_Guid = guid, pm_Subject = subject, pm_Reply = [], pm_Data = ''x'', pm_ConnID = ''c1''\<rparr>"

definition sample_connected :: server where
  "sample_connected = snd (connectCB (sample_senv 1) (Some sample_connect) ''r0'' (newChannelStore sample_store))"

definition sample_queued :: server where
  "sample_queued =
     processClientPublish (sample_senv 3) (sample_pub ''FOO'' ''g2'') ''r2''
       (processClientPublish (sample_senv 2) (sample_pub ''foo'' ''g1'') ''r1'' sample_connected)"

definition sample_published :: server where
  "sample_published = ioLoop_step (sample_senv 4) sample_queued"

lemma sample_published_reach: "srv_reach (newChannelStore sample_store) sample_published"
  unfolding sample_published_def sample_queued_def sample_connected_def
  by (rule srv_reach.step [OF srv_reach.step [OF srv_reach.step [OF srv_reach.step [OF srv_reach.init
    srv_step.connect] srv_step.publish] srv_step.publish] srv_step.ioLoop])


end
