(* ===== verification/Delivery_Frame.thy ===== *)
theory Delivery_Frame
  imports Delivery
begin

text \<open>
  What delivery leaves alone: it changes the subscriptions and queue groups of a channel, the
  events collected for replication and the two logs of the model, nothing else.
\<close>

definition chan_frame :: "chan \<Rightarrow> chan" where
  "chan_frame c =
     c\<lparr>c_heap := undefined, c_qheap := undefined, waiting := [], ready := [], c_slog := [], c_out := []\<rparr>"

named_theorems frame_simps "operations that keep the frame of a channel"

lemma frame_upds [frame_simps]:
  "chan_frame (upd_sub r f c) = chan_frame c"
  "chan_frame (upd_queue q g c) = chan_frame c"
  "chan_frame (log_rec x c) = chan_frame c"
  "chan_frame (c\<lparr>waiting := w\<rparr>) = chan_frame c"
  "chan_frame (c\<lparr>ready := w\<rparr>) = chan_frame c"
  "chan_frame (c\<lparr>c_out := out\<rparr>) = chan_frame c"
  by (simp_all add: chan_frame_def upd_sub_def upd_queue_def log_rec_def)

lemma frame_collectSentOrAck [frame_simps]: "chan_frame (collectSentOrAck r b q c) = chan_frame c"
  by (simp add: collectSentOrAck_def Let_def frame_simps split: option.split)

lemma frame_updateRedeliveryCount [frame_simps]: "chan_frame (snd (updateRedeliveryCount r m c)) = chan_frame c"
  by (simp add: updateRedeliveryCount_def Let_def frame_simps split: option.split)

lemma frame_publish [frame_simps]: "chan_frame (publish r m c) = chan_frame c"
  by (simp add: publish_def Let_def frame_simps)

lemma frame_add_pending [frame_simps]: "chan_frame (snd (add_pending e r q b i c)) = chan_frame c"
  by (simp add: add_pending_def Let_def frame_simps split: option.split)

lemma frame_sendMsgToSub [frame_simps]: "chan_frame (snd (sendMsgToSub e r m b c)) = chan_frame c"
  by (simp add: sendMsgToSub_def Let_def case_prod_beta frame_simps)

lemma frame_avail_loop [frame_simps]: "chan_frame (avail_loop n e r q c) = chan_frame c"
  by (induction n arbitrary: q c) (simp_all add: Let_def case_prod_beta frame_simps split: option.split)

lemma frame_sendAvailableMessages [frame_simps]: "chan_frame (sendAvailableMessages e r c) = chan_frame c"
  by (simp add: sendAvailableMessages_def frame_simps)

lemma frame_sendMsgToQueueGroup [frame_simps]: "chan_frame (snd (sendMsgToQueueGroup e q m b c)) = chan_frame c"
  by (simp add: sendMsgToQueueGroup_def Let_def case_prod_beta frame_simps split: option.split)

lemma frame_avail_queue_loop [frame_simps]: "chan_frame (avail_queue_loop n e q i c) = chan_frame c"
  by (induction n arbitrary: i c) (simp_all add: Let_def case_prod_beta frame_simps split: option.split)

lemma frame_sendAvailableMessagesToQueue [frame_simps]: "chan_frame (sendAvailableMessagesToQueue e q c) = chan_frame c"
  by (simp add: sendAvailableMessagesToQueue_def Let_def frame_simps)

lemma frame_fold: "(\<And>x c. chan_frame (f x c) = chan_frame c) \<Longrightarrow> chan_frame (fold f xs c) = chan_frame c"
  by (induction xs arbitrary: c) auto

lemma frame_processMsg [frame_simps]: "chan_frame (processMsg e c) = chan_frame c"
  by (simp add: processMsg_def Let_def frame_simps frame_fold)

lemma frame_ack_other_members [frame_simps]: "chan_frame (ack_other_members e q r i xs c) = chan_frame c"
  by (induction xs arbitrary: c) (simp_all add: Let_def frame_simps)

lemma frame_ack_unstall [frame_simps]: "chan_frame (ack_unstall e r c) = chan_frame c"
  by (simp add: ack_unstall_def Let_def frame_simps split: option.split)

lemma frame_processAck [frame_simps]: "chan_frame (processAck e r i b c) = chan_frame c"
  by (simp add: processAck_def Let_def frame_simps split: option.split)

lemma frame_processAckMsg [frame_simps]: "chan_frame (processAckMsg e i q c) = chan_frame c"
  by (simp add: processAckMsg_def frame_simps split: option.split)

lemma frame_getMsgForRedelivery [frame_simps]: "chan_frame (snd (getMsgForRedelivery e r q c)) = chan_frame c"
  by (simp add: getMsgForRedelivery_def frame_simps split: option.split)

lemma frame_durable_loop [frame_simps]: "chan_frame (durable_loop e r qs c) = chan_frame c"
proof (induction qs arbitrary: c)
  case (Cons q qs)
  obtain mo c1 where g: "getMsgForRedelivery e r q c = (mo, c1)" by fastforce
  then have "chan_frame c1 = chan_frame c" using frame_getMsgForRedelivery [of e r q c] by simp
  with g show ?case by (simp add: Let_def Cons.IH frame_simps split: option.split)
qed simp

lemma frame_performDurableRedelivery [frame_simps]: "chan_frame (performDurableRedelivery e b r c) = chan_frame c"
  by (simp add: performDurableRedelivery_def Let_def frame_simps)

lemma frame_expiration_loop [frame_simps]: "chan_frame (fst (expiration_loop e r b lim t pms z c)) = chan_frame c"
proof (induction pms arbitrary: b z c)
  case (Cons p pms)
  obtain q x where p: "p = (q, x)" by fastforce
  obtain mo c1 where g: "getMsgForRedelivery e r q c = (mo, c1)" by fastforce
  then have c1: "chan_frame c1 = chan_frame c" using frame_getMsgForRedelivery [of e r q c] by simp
  show ?case
    using g c1 by (simp add: p Let_def case_prod_beta Cons.IH frame_simps split: option.split bool.split)
qed simp

lemma frame_performAckExpirationRedelivery [frame_simps]:
  "chan_frame (performAckExpirationRedelivery n e r b c) = chan_frame c"
proof (induction n arbitrary: c)
  case (Suc n)
  let ?l = "expiration_loop e r b (redeliveryLimit e) (ackWait (sub_at c r)) (makeSortedPendingMsgs (sub_at c r)) False c"
  obtain c1 z t where l: "?l = (c1, z, t)" by (cases ?l) auto
  then have "chan_frame c1 = chan_frame c"
    using frame_expiration_loop [of e r b "redeliveryLimit e" "ackWait (sub_at c r)" "makeSortedPendingMsgs (sub_at c r)" False c]
    by simp
  with l show ?case by (simp add: Let_def Suc.IH frame_simps)
qed simp

lemma frame_fields:
  assumes "chan_frame c' = chan_frame c"
  shows "c_name c' = c_name c" "c_id c' = c_id c" "c_firstSeq c' = c_firstSeq c" "c_nextSequence c' = c_nextSequence c"
    "c_lTimestamp c' = c_lTimestamp c" "c_nextSubID c' = c_nextSubID c" "c_lSeqChecked c' = c_lSeqChecked c"
    "c_activity c' = c_activity c" "c_msgs c' = c_msgs c" "c_substore c' = c_substore c" "c_next c' = c_next c"
    "c_qnext c' = c_qnext c" "psubs c' = psubs c" "qsubs c' = qsubs c" "durables c' = durables c" "acks c' = acks c"
    "inboxes c' = inboxes c"
  by (insert assms; cases c; cases c'; simp add: chan_frame_def)+

end
