(* ===== verification/Publish_Props.thy ===== *)
theory Publish_Props
  imports Channel_Props Delivery_Frame "HOL-Library.Sublist"
begin

text \<open>
  Publishing: what the loop of the I/O channel does with a batch of published messages, its
  replies and the messages it stores.
\<close>

section \<open>Replies\<close>

lemma replies_upd_chan [simp]: "sv_replies (upd_chan n f s) = sv_replies s"
  by (simp add: upd_chan_def split: option.split)

lemma replies_cs_create [simp]: "sv_replies (cs_create e n sc s) = sv_replies s"
  by (simp add: cs_create_def Let_def case_prod_beta split: option.split)

lemma replies_createChannelLocked [simp]: "sv_replies (snd (createChannelLocked e n i s)) = sv_replies s"
  by (simp add: createChannelLocked_def Let_def split: option.split prod.split sum.split)

lemma replies_lookupOrCreateChannel [simp]: "sv_replies (snd (lookupOrCreateChannel e n s)) = sv_replies s"
  by (simp add: lookupOrCreateChannel_def split: option.split)

lemma replies_delete_stored [simp]: "sv_replies (snd (delete_stored e b n s)) = sv_replies s"
  by (simp add: delete_stored_def Let_def case_prod_beta)

lemma replies_drop_channel [simp]: "sv_replies (drop_channel n s) = sv_replies s"
  by (simp add: drop_channel_def)

lemma replies_fsm_lookupOrCreateChannel [simp]: "sv_replies (snd (fsm_lookupOrCreateChannel e n i s)) = sv_replies s"
  using replies_delete_stored [of e True n s] replies_createChannelLocked [of e n i]
  by (auto simp: fsm_lookupOrCreateChannel_def restart_delete_def split: option.split prod.split
      dest!: arg_cong [where f = "\<lambda>x. sv_replies (snd x)"])

lemma replies_apply_publish [simp]: "sv_replies (snd (apply_publish e i ms s)) = sv_replies s"
proof (cases ms)
  case (Cons m ms')
  obtain r s1 where "fsm_lookupOrCreateChannel e (Subject m) i s = (r, s1)" by fastforce
  moreover from this have "sv_replies s1 = sv_replies s"
    using replies_fsm_lookupOrCreateChannel [of e "Subject m" i s] by simp
  ultimately show ?thesis
    using Cons by (auto simp: apply_publish_def Let_def case_prod_beta split: sum.split option.split bool.split)
qed (simp add: apply_publish_def)

lemma replies_raft_publish [simp]: "sv_replies (snd (raft_Apply e (OpPublish i ms) s)) = sv_replies s"
  by (simp add: raft_Apply_def fsm_Apply_def Let_def case_prod_beta)

lemma replies_replicate_collect [simp]: "sv_replies (snd (replicate_collect e iopms b s)) = sv_replies s"
proof (induction iopms arbitrary: b s)
  case (Cons p rest)
  obtain err s1 where l: "lookupOrCreateChannel e (pm_Subject (snd p)) s = (err, s1)" by fastforce
  then have "sv_replies s1 = sv_replies s"
    using replies_lookupOrCreateChannel [of e "pm_Subject (snd p)" s] by simp
  with l show ?case by (simp add: Let_def case_prod_beta Cons.IH split: option.split)
qed simp

lemma replies_replicate_apply [simp]: "sv_replies (snd (replicate_apply e bs s)) = sv_replies s"
proof (induction bs arbitrary: s)
  case (Cons b bs)
  then show ?case by (cases b) (simp add: Let_def case_prod_beta)
qed simp

lemma replies_replicate_msgs: "sv_replies (snd (replicate_msgs e iopms s)) = sv_replies s"
proof -
  obtain r s1 where c: "replicate_collect e iopms [] s = (r, s1)" by fastforce
  then have "sv_replies s1 = sv_replies s" using replies_replicate_collect [of e iopms "[]" s] by simp
  with c show ?thesis by (simp add: replicate_msgs_def Let_def case_prod_beta split: sum.split)
qed

text \<open>The outcome of a published message: an error, or it was stored.\<close>

type_synonym outcome = "iopm \<times> srv_err option"

definition pub_reply :: "outcome \<Rightarrow> string \<times> reply" where
  "pub_reply = (\<lambda>((reply, pm), err). (reply, PubAck (pm_Guid pm) err))"

definition refused :: "outcome list \<Rightarrow> outcome list" where
  "refused os = filter (\<lambda>x. snd x \<noteq> None) os"

definition stored :: "outcome list \<Rightarrow> outcome list" where
  "stored os = filter (\<lambda>x. snd x = None) os"

lemma outcome_simps [simp]:
  "refused [] = []" "stored [] = []" "refused ((p, None) # os) = refused os" "refused ((p, Some x) # os) = (p, Some x) # refused os"
  "stored ((p, None) # os) = (p, None) # stored os" "stored ((p, Some x) # os) = stored os"
  by (simp_all add: refused_def stored_def)

lemma send_publishErr_reply [simp]:
  "sv_replies (send_publishErr p err s) = sv_replies s @ [pub_reply (p, Some err)]"
  by (simp add: send_publishErr_def send_reply_def pub_reply_def case_prod_beta)

lemma fold_ackPublisher: "sv_replies (fold ackPublisher ps s) = sv_replies s @ map (\<lambda>p. pub_reply (p, None)) ps"
  by (induction ps arbitrary: s) (simp_all add: ackPublisher_def send_reply_def pub_reply_def case_prod_beta)

lemma stored_replies: "map (\<lambda>p. pub_reply (p, None)) (map fst (stored os)) = map pub_reply (stored os)"
  unfolding map_map comp_def by (rule map_cong) (auto simp: stored_def)

lemma fold_send_publishErr:
  "sv_replies (fold (\<lambda>p. send_publishErr p err) ps s) = sv_replies s @ map (\<lambda>p. pub_reply (p, Some err)) ps"
  by (induction ps arbitrary: s) simp_all

text \<open>The two ways in which \<open>store_io\<close> handles a message.\<close>

definition store_one :: "srv_env \<Rightarrow> MsgProto \<Rightarrow> chan \<Rightarrow> chan" where
  "store_one e m c =
     c\<lparr>c_msgs := snd (Store (e_msize e) (e_now e) m (c_msgs c)), c_nextSequence := c_nextSequence c + 1\<rparr>"

lemma store_io_cases:
  obtains (refused) x f s1 where "s1 = snd (lookupOrCreateChannel e (pm_Subject (snd p)) s)"
      "f = id \<or> f = (\<lambda>c. snd (pubMsgToMsgProto (e_now e) (snd p) (c_nextSequence c) c))"
      "store_io e (p # rest) s = store_io e rest (send_publishErr p x (upd_chan (pm_Subject (snd p)) f s1))"
  | (stored) c m c1 s1 t fl where "lookupOrCreateChannel e (pm_Subject (snd p)) s = (None, s1)"
      "cs_get (pm_Subject (snd p)) s1 = Some c"
      "pubMsgToMsgProto (e_now e) (snd p) (c_nextSequence c) c = (m, c1)"
      "t = upd_chan (pm_Subject (snd p)) (\<lambda>_. store_one e m c1) s1"
      "store_io e (p # rest) s = (p # fst (store_io e rest t), fl, snd (snd (store_io e rest t)))"
proof -
  let ?n = "pm_Subject (snd p)"
  obtain err s1 where l: "lookupOrCreateChannel e ?n s = (err, s1)" by fastforce
  have id: "upd_chan ?n id s1 = s1" for s1
    by (cases "mget (sv_channels s1) ?n") (simp_all add: upd_chan_def update_triv)
  show thesis
  proof (cases "err = None \<and> \<not> Option.is_none (cs_get ?n s1)")
    case False
    then obtain x where "store_io e (p # rest) s = store_io e rest (send_publishErr p x s1)"
      using l by (cases err; cases "cs_get ?n s1") (auto simp: Let_def)
    with l id [of s1] show ?thesis by (intro refused [of s1 id x]) simp_all
  next
    case True
    then obtain c where c: "cs_get ?n s1 = Some c" by (auto simp: Option.is_none_def)
    obtain m c1 where m: "pubMsgToMsgProto (e_now e) (snd p) (c_nextSequence c) c = (m, c1)" by fastforce
    show ?thesis
    proof (cases "e_storeMsg e m")
      case True
      with \<open>err = None \<and> _\<close> l c m show ?thesis
        by (intro stored [OF _ c m refl]) (auto simp: Let_def case_prod_beta store_one_def)
    next
      case False
      let ?f = "\<lambda>c. snd (pubMsgToMsgProto (e_now e) (snd p) (c_nextSequence c) c)"
      have "upd_chan ?n ?f s1 = upd_chan ?n (\<lambda>_. c1) s1" using c m by (simp add: upd_chan_def cs_get_def)
      with False \<open>err = None \<and> _\<close> l c m show ?thesis
        by (intro refused [of s1 ?f StorageFailure]) (simp_all add: Let_def)
    qed
  qed
qed

lemma store_io_replies:
  "\<exists>os. map fst os = iopms \<and> sv_replies (snd (snd (store_io e iopms s))) = sv_replies s @ map pub_reply (refused os) \<and>
     fst (store_io e iopms s) = map fst (stored os)"
proof (induction iopms arbitrary: s)
  case (Cons p rest)
  show ?case
  proof (cases rule: store_io_cases [of e p s rest])
    case (refused x f s1)
    let ?t = "send_publishErr p x (upd_chan (pm_Subject (snd p)) f s1)"
    from Cons.IH [of ?t] obtain os where "map fst os = rest"
      "sv_replies (snd (snd (store_io e rest ?t))) = sv_replies ?t @ map pub_reply (Publish_Props.refused os)"
      "fst (store_io e rest ?t) = map fst (Publish_Props.stored os)" by blast
    with refused show ?thesis by (intro exI [of _ "(p, Some x) # os"]) simp
  next
    case (stored c m c1 s1 t fl)
    have "sv_replies t = sv_replies s"
      using stored(1,4) replies_lookupOrCreateChannel [of e "pm_Subject (snd p)" s] by simp
    moreover from Cons.IH [of t] obtain os where "map fst os = rest"
      "sv_replies (snd (snd (store_io e rest t))) = sv_replies t @ map pub_reply (Publish_Props.refused os)"
      "fst (store_io e rest t) = map fst (Publish_Props.stored os)" by blast
    ultimately show ?thesis using stored(5) by (intro exI [of _ "(p, None) # os"]) simp
  qed
qed (auto intro: exI [of _ "[]"])


lemma storeIOPendingMsgs_replies:
  "\<exists>os. map fst os = iopms \<and>
     sv_replies (snd (snd (storeIOPendingMsgs e iopms s))) = sv_replies s @ map pub_reply (refused os) \<and>
     fst (storeIOPendingMsgs e iopms s) = map fst (stored os)"
proof (cases "e_clustered e")
  case False
  with store_io_replies [of iopms e s] show ?thesis by (simp add: storeIOPendingMsgs_def)
next
  case True
  obtain r s1 where r: "replicate_msgs e iopms s = (r, s1)" by fastforce
  then have s1: "sv_replies s1 = sv_replies s" using replies_replicate_msgs [of e iopms s] by simp
  show ?thesis
  proof (cases r)
    case (Inl err)
    have "refused (map (\<lambda>p. (p, Some err)) ps) = map (\<lambda>p. (p, Some err)) ps \<and> stored (map (\<lambda>p. (p, Some err)) ps) = []" for ps
      by (induction ps) auto
    with True r s1 Inl show ?thesis
      by (intro exI [of _ "map (\<lambda>p. (p, Some err)) iopms"]) (simp add: storeIOPendingMsgs_def fold_send_publishErr comp_def)
  next
    case (Inr futures)
    define failed where "failed = (\<lambda>p :: iopm. mget futures (pm_Subject (snd p)) \<noteq> Some True)"
    define out where "out = (\<lambda>p. (p, if failed p then Some RaftFailure else None))"
    have o: "refused (map out ps) = map (\<lambda>p. (p, Some RaftFailure)) (filter failed ps) \<and>
        stored (map out ps) = map (\<lambda>p. (p, None)) (filter (\<lambda>p. \<not> failed p) ps)" for ps
      by (induction ps) (auto simp: out_def)
    have "sv_replies (fold reset_nextSequence ns t) = sv_replies t" for ns t
      by (induction ns arbitrary: t) (simp_all add: reset_nextSequence_def)
    moreover have "map fst (map out iopms) = iopms" by (induction iopms) (simp_all add: out_def)
    ultimately show ?thesis using True r s1 Inr o [of iopms]
      by (intro exI [of _ "map out iopms"])
        (simp add: storeIOPendingMsgs_def Let_def failed_def [symmetric] fold_send_publishErr comp_def)
  qed
qed

section \<open>Stored messages\<close>

text \<open>
  The log of a channel in the server: the messages in its store, with time stamps in order, and
  the next sequence. A channel that does not exist has an empty log.
\<close>

definition chan_log :: "(MsgProto option \<Rightarrow> nat) \<Rightarrow> chan \<Rightarrow> MsgProto list \<Rightarrow> bool" where
  "chan_log msize c xs \<longleftrightarrow> ms_log msize (c_msgs c) xs \<and> c_nextSequence c = ms_last (c_msgs c) + 1 \<and>
     sorted (map Timestamp xs) \<and> (\<forall>m \<in> set xs. Timestamp m \<le> c_lTimestamp c)"

definition server_log :: "(MsgProto option \<Rightarrow> nat) \<Rightarrow> server \<Rightarrow> string \<Rightarrow> u64 \<Rightarrow> MsgProto list \<Rightarrow> bool" where
  "server_log msize s n q xs \<longleftrightarrow>
     (case cs_get n s of None \<Rightarrow> q = 1 \<and> xs = [] | Some c \<Rightarrow> q = c_nextSequence c \<and> chan_log msize c xs)"

lemma cs_get_upd_chan: "cs_get n (upd_chan m f s) = (if n = m then map_option f (cs_get m s) else cs_get n s)"
  by (simp add: upd_chan_def cs_get_def split: option.split)

lemma cs_get_cs_create:
  "cs_get n (cs_create e m sc s) = (if n = m then
     Some ((new_chan m sc)\<lparr>c_activity := c_activity (the (cs_get m (cs_create e m sc s)))\<rparr>) else cs_get n s)"
proof -
  define s1 where "s1 = s\<lparr>sv_channels := mput m (new_chan m sc) (sv_channels s),
                 sv_channelsLC := mput (ToLower m) m (sv_channelsLC s),
                 sv_store := snd (GetChannelLimits (e_evict e) m (sv_store s))\<rparr>"
  have "cs_get n s1 = (if n = m then Some (new_chan m sc) else cs_get n s)" for n by (simp add: s1_def cs_get_def)
  moreover have "cs_create e m sc s = s1 \<or> (\<exists>a. cs_create e m sc s = upd_chan m (\<lambda>c. c\<lparr>c_activity := a\<rparr>) s1)"
    by (auto simp: cs_create_def Let_def case_prod_beta s1_def split: option.split)
  ultimately show ?thesis by (auto simp: cs_get_upd_chan)
qed

definition fresh_chan :: "chan \<Rightarrow> bool" where
  "fresh_chan c \<longleftrightarrow> (\<exists>name lim. c_msgs c = ms_init name lim) \<and> c_nextSequence c = 1 \<and> c_lTimestamp c = 0"

lemma mem_CreateChannel_msgs:
  "mem_CreateChannel entry ev n gs = (Inr sc, gs') \<Longrightarrow> \<exists>lim. snd sc = ms_init n lim"
  by (auto simp: mem_CreateChannel_def Let_def case_prod_beta split: option.splits)

definition keeps_log :: "(chan \<Rightarrow> chan) \<Rightarrow> bool" where
  "keeps_log f \<longleftrightarrow>
     (\<forall>c. c_msgs (f c) = c_msgs c \<and> c_nextSequence (f c) = c_nextSequence c \<and> c_lTimestamp (f c) = c_lTimestamp c)"

lemma createChannelLocked_cases [consumes 2, case_names failed created]:
  assumes "createChannelLocked e m i s = (err, s')" "mget (sv_channels s) m = None"
    and "err \<noteq> None \<Longrightarrow> sv_channels s' = sv_channels s \<Longrightarrow> thesis"
    and "\<And>sc st s1 f. err = None \<Longrightarrow> sv_channels s1 = sv_channels s \<Longrightarrow> keeps_log f \<Longrightarrow>
      mem_CreateChannel (\<lambda>_. ()) (e_evict e) m (sv_store s) = (Inr sc, st) \<Longrightarrow>
      s' = upd_chan m f (cs_create e m sc s1) \<Longrightarrow> thesis"
  shows thesis
proof -
  define i' where "i' = (if e_clustered e \<and> e_leader e \<and> i = 0 then sv_lastIndex s else i)"
  define s1 where "s1 = (if e_clustered e then s\<lparr>sv_channelIDs := mput m i' (sv_channelIDs s)\<rparr> else s)"
  define f where "f = (if isStandaloneOrLeader (env.truncate e)
    then upd_activity (startDeleteTimer (e_now e)) \<circ> c_id_update (\<lambda>_. i') else c_id_update (\<lambda>_. i'))"
  have s1: "sv_channels s1 = sv_channels s" "sv_store s1 = sv_store s" by (simp_all add: s1_def)
  have comp: "upd_chan m g (upd_chan m h t) = upd_chan m (g \<circ> h) t" for g h t
    by (simp add: upd_chan_def update_triv split: option.split)
  have f: "keeps_log f" by (simp add: f_def keeps_log_def upd_activity_def)
  obtain r st where r: "mem_CreateChannel (\<lambda>_. ()) (e_evict e) m (sv_store s) = (r, st)" by fastforce
  have "err \<noteq> None \<and> (s' = s \<or> s' = s1) \<or>
    err = None \<and> (\<exists>sc. r = Inr sc \<and> s' = upd_chan m f (cs_create e m sc (s1\<lparr>sv_store := st\<rparr>)))"
    using assms(1,2) r s1(2) unfolding createChannelLocked_def Let_def i'_def [symmetric] s1_def [symmetric] f_def comp
    by (auto split: option.splits sum.splits if_splits)
  then consider "err \<noteq> None" "s' = s \<or> s' = s1"
    | sc where "err = None" "r = Inr sc" "s' = upd_chan m f (cs_create e m sc (s1\<lparr>sv_store := st\<rparr>))" by blast
  then show ?thesis
  proof cases
    case 1
    then show ?thesis using assms(3) s1(1) by auto
  next
    case 2
    then show ?thesis using assms(4) [of "s1\<lparr>sv_store := st\<rparr>" f sc st] s1(1) r f by simp
  qed
qed

lemma cs_get_createChannelLocked:
  assumes "createChannelLocked e m i s = (err, s')" "cs_get m s = None"
  shows "n \<noteq> m \<or> err \<noteq> None \<Longrightarrow> cs_get n s' = cs_get n s"
    and "err = None \<Longrightarrow> \<exists>c. cs_get m s' = Some c \<and> fresh_chan c"
proof -
  have "mget (sv_channels s) m = None" using assms(2) by (simp add: cs_get_def)
  with assms(1) have "(n \<noteq> m \<or> err \<noteq> None \<longrightarrow> cs_get n s' = cs_get n s) \<and>
      (err = None \<longrightarrow> (\<exists>c. cs_get m s' = Some c \<and> fresh_chan c))"
  proof (cases rule: createChannelLocked_cases)
    case failed
    then show ?thesis by (auto simp: cs_get_def)
  next
    case (created sc st s1 f)
    from mem_CreateChannel_msgs [OF created(4)] obtain lim where "snd sc = ms_init m lim" by blast
    moreover have "cs_get n s1 = cs_get n s" using created(2) by (simp add: cs_get_def)
    ultimately show ?thesis using created cs_get_cs_create [of n e m sc s1] cs_get_cs_create [of m e m sc s1]
      by (auto simp: cs_get_upd_chan fresh_chan_def keeps_log_def new_chan_def LastSequence_def ms_init_def)
  qed
  then show "n \<noteq> m \<or> err \<noteq> None \<Longrightarrow> cs_get n s' = cs_get n s"
    and "err = None \<Longrightarrow> \<exists>c. cs_get m s' = Some c \<and> fresh_chan c" by blast+
qed

lemma server_log_lookupOrCreateChannel:
  assumes "server_log msize s n q xs" "lookupOrCreateChannel e m s = (err, s')"
  shows "server_log msize s' n q xs"
proof (cases "mget (sv_channels s) m = None \<and> checkCase m s = None")
  case False
  then show ?thesis using assms by (auto simp: lookupOrCreateChannel_def split: option.splits)
next
  case True
  then have c: "createChannelLocked e m 0 s = (err, s')" "cs_get m s = None"
    using assms(2) by (simp_all add: lookupOrCreateChannel_def cs_get_def)
  show ?thesis
  proof (cases "n = m \<and> err = None")
    case False
    with cs_get_createChannelLocked(1) [OF c] assms(1) show ?thesis by (auto simp: server_log_def)
  next
    case True
    with assms(1) c(2) cs_get_createChannelLocked(2) [OF c] show ?thesis
      by (auto simp: server_log_def fresh_chan_def chan_log_def ms_log_init) (simp add: ms_init_def)
  qed
qed


text \<open>The messages that a list of published messages becomes in a channel.\<close>

definition message_of :: "pubMsg \<Rightarrow> MsgProto \<Rightarrow> bool" where
  "message_of pm m \<longleftrightarrow> Subject m = pm_Subject pm \<and> Data m = pm_Data pm \<and> Reply m = pm_Reply pm"

definition appended :: "string \<Rightarrow> u64 \<Rightarrow> iopm list \<Rightarrow> MsgProto list \<Rightarrow> bool" where
  "appended n q ps ms \<longleftrightarrow>
     list_all2 (\<lambda>p m. message_of (snd p) m) (filter (\<lambda>p. pm_Subject (snd p) = n) ps) ms \<and> consec (unat q) ms"

lemma server_log_upd_chan:
  assumes "server_log msize s n q xs" "n \<noteq> m \<or> keeps_log f"
  shows "server_log msize (upd_chan m f s) n q xs"
  using assms by (auto simp: server_log_def cs_get_upd_chan keeps_log_def chan_log_def split: option.splits)

lemma server_log_send_publishErr [simp]: "server_log msize (send_publishErr p x s) n q xs = server_log msize s n q xs"
  by (simp add: server_log_def cs_get_def send_publishErr_def send_reply_def case_prod_beta)

lemma server_log_timestamp:
  assumes "server_log msize s n q xs" "e_now e > 0"
  shows "server_log msize (upd_chan m (\<lambda>c. snd (pubMsgToMsgProto (e_now e) pm (c_nextSequence c) c)) s) n q xs"
  using assms by (fastforce simp: server_log_def cs_get_upd_chan chan_log_def pubMsgToMsgProto_def Let_def split: option.splits)

lemma below_max: "unat (x :: u64) < 2 ^ 64 - 1 \<Longrightarrow> x \<noteq> - 1"
  by (auto simp: unsigned_minus_1_eq_mask mask_eq_exp_minus_1)

lemma store_one_log:
  assumes "chan_log msize c xs" "e_now e > 0" "pubMsgToMsgProto (e_now e) pm (c_nextSequence c) c = (m, c1)"
    and "unat (c_nextSequence c) < 2 ^ 64 - 1" "e_msize e = msize"
  shows "\<exists>xs'. chan_log msize (store_one e m c1) xs' \<and> suffix xs' (xs @ [m]) \<and>
    c_nextSequence (store_one e m c1) = c_nextSequence c + 1 \<and> Sequence m = c_nextSequence c \<and> message_of pm m"
proof -
  have m: "Sequence m = c_nextSequence c" "message_of pm m" "c_msgs c1 = c_msgs c" "c_nextSequence c1 = c_nextSequence c"
    "Timestamp m = c_lTimestamp c1" "c_lTimestamp c \<le> c_lTimestamp c1"
    using assms(2,3) by (auto simp: pubMsgToMsgProto_def Let_def message_of_def)
  have log: "ms_log msize (c_msgs c) xs" and q: "c_nextSequence c = ms_last (c_msgs c) + 1"
    using assms(1) by (simp_all add: chan_log_def)
  have "c_nextSequence c \<noteq> - 1" using below_max [OF assms(4)] .
  moreover have "c_nextSequence c \<noteq> 0" using log q seq_Suc_neq_0 [of "ms_last (c_msgs c)"] by (simp add: ms_log_def)
  ultimately have nm: "next_msg (c_msgs c) m" using m(1) q by (simp add: next_msg_def)
  define ys where "ys = trim msize (ms_limits (c_msgs c)) (xs @ [m])"
  obtain k where k: "ys = drop k (xs @ [m])" using trim_drop unfolding ys_def by blast
  have "sorted (map Timestamp (xs @ [m]))"
    using assms(1) m(5,6) by (fastforce simp: chan_log_def sorted_append)
  then have "sorted (map Timestamp ys)" unfolding k drop_map [symmetric] by (rule sorted_wrt_drop)
  moreover have "\<forall>x \<in> set ys. Timestamp x \<le> c_lTimestamp c1"
    using assms(1) m(5,6) in_set_dropD [of _ k "xs @ [m]"] by (fastforce simp: k chan_log_def)
  ultimately have "chan_log msize (store_one e m c1) ys"
    using Store_log(2,4) [OF log nm, of "e_now e"] m assms(5) by (simp add: chan_log_def store_one_def ys_def)
  moreover have "suffix ys (xs @ [m])" unfolding k by (rule suffix_drop)
  ultimately show ?thesis using m by (intro exI [of _ ys]) (simp add: store_one_def)
qed

lemma store_io_log:
  assumes "e_now e > 0" "e_msize e = msize"
  shows "server_log msize s n q xs \<Longrightarrow> unat q + length ps < 2 ^ 64 - 1 \<Longrightarrow>
    \<exists>ms xs'. appended n q (fst (store_io e ps s)) ms \<and> suffix xs' (xs @ ms) \<and>
      server_log msize (snd (snd (store_io e ps s))) n (q + of_nat (length ms)) xs'"
proof (induction ps arbitrary: s q xs)
  case Nil
  then show ?case by (auto intro!: exI [of _ "[]"] exI [of _ xs] simp: appended_def)
next
  case (Cons p rest)
  show ?case
  proof (cases rule: store_io_cases [of e p s rest])
    case (refused x f s1)
    have "server_log msize s1 n q xs"
      using server_log_lookupOrCreateChannel [OF Cons.prems(1)] refused(1) by (cases "lookupOrCreateChannel e (pm_Subject (snd p)) s") auto
    then have "server_log msize (send_publishErr p x (upd_chan (pm_Subject (snd p)) f s1)) n q xs"
      using refused(2) server_log_timestamp [OF _ assms(1)] by (auto simp: server_log_upd_chan keeps_log_def)
    from Cons.IH [OF this] Cons.prems(2) show ?thesis unfolding refused(3) by simp
  next
    case (stored c m c1 s1 t fl)
    have l1: "server_log msize s1 n q xs" using server_log_lookupOrCreateChannel [OF Cons.prems(1) stored(1)] .
    show ?thesis
    proof (cases "n = pm_Subject (snd p)")
      case False
      then have "server_log msize t n q xs" using l1 stored(4) by (simp add: server_log_upd_chan)
      from Cons.IH [OF this] Cons.prems(2) False show ?thesis unfolding stored(5) by (simp add: appended_def)
    next
      case True
      then have c: "chan_log msize c xs" "q = c_nextSequence c" using l1 stored(2) by (simp_all add: server_log_def)
      from store_one_log [OF c(1) assms(1) stored(3) _ assms(2)] Cons.prems(2) c(2) obtain ys where
        y: "chan_log msize (store_one e m c1) ys" "suffix ys (xs @ [m])"
          "c_nextSequence (store_one e m c1) = q + 1" "Sequence m = q" "message_of (snd p) m" by auto
      have t: "server_log msize t n (q + 1) ys"
        using stored(2,4) y(1,3) True by (simp add: server_log_def cs_get_upd_chan)
      have u: "unat (q + 1) = Suc (unat q)" using Cons.prems(2) below_max [of q] by (intro unat_seq_Suc) simp
      from Cons.IH [OF t] u Cons.prems(2) obtain ms xs' where
        i: "appended n (q + 1) (fst (store_io e rest t)) ms" "suffix xs' (ys @ ms)"
          "server_log msize (snd (snd (store_io e rest t))) n (q + 1 + of_nat (length ms)) xs'" by auto
      have "suffix (ys @ ms) (xs @ m # ms)" using y(2) by (auto simp: suffix_def)
      then have "suffix xs' (xs @ m # ms)" using i(2) suffix_order.trans by blast
      with i y(4,5) True u show ?thesis unfolding stored(5)
        by (intro exI [of _ "m # ms"] exI [of _ xs']) (simp add: appended_def add.assoc)
    qed
  qed
qed


lemma server_log_deliver: "server_log msize s n q xs \<Longrightarrow> server_log msize (fold (deliver_stored e) ns s) n q xs"
proof (induction ns arbitrary: s)
  case (Cons m ns)
  have "keeps_log (\<lambda>c. let c1 = processMsg (env.truncate e) c in upd_activity (\<lambda>a. a\<lparr>a_last := c_lTimestamp c1\<rparr>) c1)"
    unfolding keeps_log_def Let_def
    by (simp add: upd_activity_def frame_fields [OF frame_processMsg])
  then have "server_log msize (deliver_stored e m s) n q xs"
    unfolding deliver_stored_def using server_log_upd_chan [OF Cons.prems] by blast
  with Cons.IH show ?case by simp
qed simp

lemma replies_deliver: "sv_replies (fold (deliver_stored e) ns s) = sv_replies s"
  by (induction ns arbitrary: s) (simp_all add: deliver_stored_def)

lemma server_log_acks: "server_log msize (fold ackPublisher ps s) n q xs = server_log msize s n q xs"
  by (induction ps arbitrary: s)
    (simp_all add: ackPublisher_def send_reply_def server_log_def cs_get_def case_prod_beta)

section \<open>Properties\<close>


text \<open>C4: On a standalone server, exactly the acknowledged messages of a batch are stored: for every
  channel they are appended to its log in the order of the batch with consecutive sequences, from the
  channel's next sequence on, with unchanged content; the store keeps a suffix of that, time stamps stay
  in order, and the next sequence follows the last message.\<close>

theorem publish_stores_acked:
  assumes "\<not> e_clustered e" "e_now e > 0" "server_log (e_msize e) s n q xs" "unat q + length batch < 2 ^ 64 - 1"
  shows "\<exists>os ms xs'. map fst os = batch \<and>
     sv_replies (io_batch e batch s) = sv_replies s @ map pub_reply (refused os) @ map pub_reply (stored os) \<and>
     appended n q (map fst (stored os)) ms \<and> suffix xs' (xs @ ms) \<and>
     server_log (e_msize e) (io_batch e batch s) n (q + of_nat (length ms)) xs'"
proof -
  obtain pending flush s1 where p: "store_io e batch s = (pending, flush, s1)" by (metis prod.collapse)
  from store_io_replies [of batch e s] p obtain os where
    os: "map fst os = batch" "sv_replies s1 = sv_replies s @ map pub_reply (refused os)" "pending = map fst (stored os)"
    by auto
  from store_io_log [OF assms(2) refl assms(3,4)] p obtain ms xs' where
    l: "appended n q pending ms" "suffix xs' (xs @ ms)" "server_log (e_msize e) s1 n (q + of_nat (length ms)) xs'" by auto
  have b: "io_batch e batch s = fold ackPublisher pending (fold (deliver_stored e) flush s1)"
    using assms(1) p by (simp add: io_batch_def storeIOPendingMsgs_def)
  with os l stored_replies [of os] show ?thesis unfolding b
    by (intro exI [of _ os] exI [of _ ms] exI [of _ xs'])
      (simp add: fold_ackPublisher replies_deliver server_log_acks server_log_deliver del: map_map)
qed


definition sample_iopm :: "string \<Rightarrow> string \<Rightarrow> iopm" where
  "sample_iopm subject guid = (''r.'' @ guid,
     \<lparr>pm_ClientID = ''me'', pm_Guid = guid, pm_Subject = subject, pm_Reply = [], pm_Data = ''x'', pm_ConnID = ''c1''\<rparr>)"

theorem publish_stores_acked_witness:
  "\<exists>os ms xs'. map fst os = [sample_iopm ''foo'' ''1'', sample_iopm ''FOO'' ''2''] \<and>
     appended ''foo'' 1 (map fst (stored os)) ms \<and> suffix xs' ms \<and>
     server_log (\<lambda>_. 5) (io_batch (sample_senv 4) [sample_iopm ''foo'' ''1'', sample_iopm ''FOO'' ''2'']
       (newChannelStore sample_store)) ''foo'' (1 + of_nat (length ms)) xs'"
proof -
  let ?e = "sample_senv 4" and ?s = "newChannelStore sample_store"
  have e: "\<not> e_clustered ?e" "e_now ?e > 0" "e_msize ?e = (\<lambda>_. 5)"
    by (simp_all add: sample_senv_def sample_env_def srv_env.defs env.defs)
  have l: "server_log (e_msize ?e) ?s ''foo'' 1 []" by (simp add: server_log_def cs_get_def newChannelStore_def)
  have "unat (1 :: u64) + length [sample_iopm ''foo'' ''1'', sample_iopm ''FOO'' ''2''] < 2 ^ 64 - 1" by simp
  from publish_stores_acked [OF e(1,2) l this] show ?thesis unfolding e(3) append_Nil
    by (elim exE conjE) (intro exI conjI)
qed

definition sample_cenv :: "int \<Rightarrow> srv_env" where
  "sample_cenv now = (sample_senv now)\<lparr>e_clustered := True, e_leader := True\<rparr>"

definition gap_run :: "server" where
  "gap_run =
     io_batch (sample_cenv 3) [sample_iopm ''foo'' ''4'']
       (io_batch (sample_cenv 2) [sample_iopm ''foo'' ''2'', sample_iopm ''bar'' ''3'']
         (io_batch (sample_cenv 1) [sample_iopm ''foo'' ''1'']
           (newChannelStore (sample_store\<lparr>gs_limits := DefaultStoreLimits\<lparr>MaxChannels := 1\<rparr>\<rparr>))))"


end
