(* ===== verification/Start_Props.thy ===== *)
theory Start_Props
  imports Sub_Registry Delivery_Props
begin

text \<open>
  Start positions: which of the stored messages a new subscription gets, and the translation of
  a start position to a sequence that a clustered server replicates.
\<close>

lemma consec_filter_ge: "consec k xs \<Longrightarrow> filter (\<lambda>m. k + i \<le> unat (Sequence m)) xs = drop i xs"
proof (induction xs arbitrary: k i)
  case (Cons x xs)
  show ?case
  proof (cases i)
    case 0
    with Cons.prems consec_range [of "Suc k" xs] show ?thesis by (force simp: filter_id_conv)
  next
    case (Suc j)
    with Cons.prems Cons.IH [of "Suc k" j] show ?thesis by simp
  qed
qed simp

text \<open>The messages after a sequence that lies just before the \<open>i\<close>th message.\<close>

lemma newer_before:
  assumes "ms_log msize ms xs" "ms_first ms \<noteq> 0" "Suc (unat l) = unat (ms_first ms) + i"
  shows "newer l xs = drop i xs"
proof -
  have "consec (unat (ms_first ms)) xs" using assms(1,2) by (simp add: ms_log_def)
  from consec_filter_ge [OF this, of i] show ?thesis
    unfolding assms(3) [symmetric] newer_def by (simp add: word_less_nat_alt Suc_le_eq)
qed

lemma ms_log_zero: "ms_log msize ms xs \<Longrightarrow> ms_first ms = 0 \<Longrightarrow> xs = [] \<and> ms_last ms = 0"
  by (simp add: ms_log_def)

lemma ms_log_span:
  "ms_log msize ms xs \<Longrightarrow> ms_first ms \<noteq> 0 \<Longrightarrow> unat (ms_first ms) + length xs = Suc (unat (ms_last ms))"
  by (simp add: ms_log_def)

lemma newer_last: "ms_log msize ms xs \<Longrightarrow> newer (ms_last ms) xs = []"
  using newer_before [of msize ms xs "ms_last ms" "length xs"] ms_log_span [of msize ms xs] ms_log_zero [of msize ms xs]
  by (cases "ms_first ms = 0") (auto simp: newer_def)

lemma Suc_unat_pred: "(x :: u64) \<noteq> 0 \<Longrightarrow> Suc (unat (x - 1)) = unat x"
  by (metis Suc_pred' unat_gt_0 unat_minus_one)

lemma newer_all: "ms_log msize ms xs \<Longrightarrow> ms_first ms \<noteq> 0 \<Longrightarrow> newer (ms_first ms - 1) xs = xs"
  using newer_before [of msize ms xs "ms_first ms - 1" 0] by (simp add: Suc_unat_pred)

lemma newer_pred: "(q :: u64) \<noteq> 0 \<Longrightarrow> newer (q - 1) xs = filter (\<lambda>m. q \<le> Sequence m) xs"
  unfolding newer_def by (rule filter_cong) (auto simp: word_less_nat_alt word_le_nat_alt Suc_unat_pred [symmetric] Suc_le_eq)

lemma ms_log_ge_first: "ms_log msize ms xs \<Longrightarrow> m \<in> set xs \<Longrightarrow> ms_first ms \<le> Sequence m \<and> Sequence m \<le> ms_last ms"
  using ms_log_lookup [of msize ms xs "Sequence m" m] ms_log_lookup_iff [of msize ms xs "Sequence m"] by auto

section \<open>The start sequence\<close>

definition start_time :: "env \<Rightarrow> subRequest \<Rightarrow> int" where
  "start_time e sr = i64 (e_now e - sr_StartTimeDelta sr)"

definition start_msgs :: "env \<Rightarrow> subRequest \<Rightarrow> MsgProto list \<Rightarrow> MsgProto list" where
  "start_msgs e sr xs =
     (case sr_StartPosition sr of
        NewOnly \<Rightarrow> []
      | LastReceived \<Rightarrow> drop (length xs - 1) xs
      | TimeDeltaStart \<Rightarrow>
          if xs \<noteq> [] \<and> start_time e sr = Timestamp (last xs) \<and> Timestamp (hd xs) < start_time e sr then [last xs]
          else filter (\<lambda>m. Timestamp m \<ge> start_time e sr) xs
      | SequenceStart \<Rightarrow> filter (\<lambda>m. Sequence m \<ge> sr_StartSequence sr) xs
      | First \<Rightarrow> xs
      | OtherPosition \<Rightarrow> xs)"

lemma sorted_filter_ge:
  "sorted (map Timestamp xs) \<Longrightarrow>
   filter (\<lambda>m. Timestamp m \<ge> t) xs = drop (length (takeWhile (\<lambda>m. Timestamp m < t) xs)) xs"
proof (induction xs)
  case (Cons x xs)
  show ?case
  proof (cases "Timestamp x < t")
    case False
    with Cons.prems have "\<forall>m \<in> set (x # xs). t \<le> Timestamp m" by fastforce
    then have "filter (\<lambda>m. Timestamp m \<ge> t) (x # xs) = x # xs" by (simp add: filter_id_conv)
    with False show ?thesis by simp
  qed (use Cons in simp)
qed simp

lemma drop_last: "xs \<noteq> [] \<Longrightarrow> drop (length xs - 1) xs = [last xs]"
  by (induction xs) (auto simp: drop_Cons')

lemma newer_pred_last:
  assumes "ms_log msize ms xs" "xs \<noteq> []"
  shows "ms_last ms \<noteq> 0" "newer (ms_last ms - 1) xs = [last xs]"
proof -
  have f: "ms_first ms \<noteq> 0" using ms_log_zero assms by blast
  have s: "unat (ms_first ms) + length xs = Suc (unat (ms_last ms))" using ms_log_span [OF assms(1) f] .
  moreover have "unat (ms_first ms) > 0" using f by (simp add: unat_gt_0)
  moreover have "length xs > 0" using assms(2) by simp
  ultimately have "unat (ms_last ms) > 0" by linarith
  then show l: "ms_last ms \<noteq> 0" by (simp add: unat_gt_0)
  have "Suc (unat (ms_last ms - 1)) = unat (ms_first ms) + (length xs - 1)"
    unfolding Suc_unat_pred [OF l] using s \<open>length xs > 0\<close> by linarith
  from newer_before [OF assms(1) f this] drop_last [OF assms(2)] show "newer (ms_last ms - 1) xs = [last xs]" by simp
qed


lemma u64_bound: "unat (x :: u64) < 2 ^ 64"
  using unsigned_less [of x, where ?'a = nat] by simp

lemma start_at_time:
  assumes "ms_log msize ms xs" "sorted (map Timestamp xs)"
  obtains q where "GetSequenceFromTimestamp ms t = Some q" "q = 0 \<longrightarrow> ms_first ms = 0"
    "newer (if q > 0 then q - 1 else 0) xs =
      (if xs \<noteq> [] \<and> t = Timestamp (last xs) \<and> Timestamp (hd xs) < t then [last xs]
       else filter (\<lambda>m. Timestamp m \<ge> t) xs)" "q \<le> ms_last ms + 1"
proof (cases "xs = []")
  case True
  have "ms_last ms < ms_first ms" if "ms_first ms \<noteq> 0"
    using ms_log_span [OF assms(1) that] True by (simp add: word_less_nat_alt)
  then have "GetSequenceFromTimestamp ms t = Some (if ms_first ms = 0 then 0 else ms_last ms + 1)"
    by (simp add: GetSequenceFromTimestamp_def)
  moreover have "ms_last ms + 1 \<noteq> 0" using assms(1) seq_Suc_neq_0 by (simp add: ms_log_def)
  ultimately show ?thesis
    by (intro that [of "if ms_first ms = 0 then 0 else ms_last ms + 1"]) (use True in \<open>simp_all add: newer_def\<close>)
next
  case False
  have f: "ms_first ms \<noteq> 0" using ms_log_zero [OF assms(1)] False by blast
  note s = ms_log_span [OF assms(1) f]
  note g = GetSequenceFromTimestamp_log [OF assms False, of t]
  show ?thesis
  proof (cases "t = Timestamp (last xs) \<and> Timestamp (hd xs) < t")
    case True
    note l = newer_pred_last [OF assms(1) False]
    show ?thesis
    proof (rule that)
      show "GetSequenceFromTimestamp ms t = Some (ms_last ms)" using g True by simp
      show "newer (if ms_last ms > 0 then ms_last ms - 1 else 0) xs =
        (if xs \<noteq> [] \<and> t = Timestamp (last xs) \<and> Timestamp (hd xs) < t then [last xs]
         else filter (\<lambda>m. Timestamp m \<ge> t) xs)" using True l \<open>xs \<noteq> []\<close> by (simp add: word_neq_0_conv)
      show "ms_last ms \<le> ms_last ms + 1" using assms(1) seq_less_Suc [of "ms_last ms"] by (simp add: ms_log_def less_imp_le)
    qed (use l in simp)
  next
    case False
    define k where "k = length (takeWhile (\<lambda>m. Timestamp m < t) xs)"
    define q where "q = of_nat k + ms_first ms"
    have k: "k \<le> length xs" by (simp add: k_def length_takeWhile_le)
    have last_Suc: "unat (ms_last ms + 1) = Suc (unat (ms_last ms))"
      using assms(1) by (intro unat_seq_Suc) (simp add: ms_log_def)
    then have "unat (ms_first ms) + k < 2 ^ 64" using s k u64_bound [of "ms_last ms + 1"] by simp
    moreover from this have "unat (of_nat k :: u64) = k" by (simp add: unsigned_of_nat take_bit_nat_eq_self)
    ultimately have u: "unat q = unat (ms_first ms) + k" by (simp add: q_def unat_word_ariths)
    then have q0: "q \<noteq> 0" using f by (metis add_is_0 unat_eq_zero)
    show ?thesis
    proof (rule that)
      show "GetSequenceFromTimestamp ms t = Some q" using g False by (auto simp: q_def k_def)
      have "newer (q - 1) xs = drop k xs"
        using newer_before [OF assms(1) f, of "q - 1" k] u Suc_unat_pred [OF q0] by simp
      then show "newer (if q > 0 then q - 1 else 0) xs =
        (if xs \<noteq> [] \<and> t = Timestamp (last xs) \<and> Timestamp (hd xs) < t then [last xs]
         else filter (\<lambda>m. Timestamp m \<ge> t) xs)"
        using False q0 sorted_filter_ge [OF assms(2), of t] by (auto simp: k_def word_neq_0_conv)
      show "q \<le> ms_last ms + 1"
        using u s k last_Suc by (simp add: word_le_nat_alt)
    qed (use q0 in simp)
  qed
qed


lemma start_at_sequence:
  assumes "ms_log msize (c_msgs c) xs" "sr_StartPosition sr = SequenceStart"
  shows "\<exists>l. setSubStartSequence e c sr = Some l \<and> l \<le> ms_last (c_msgs c) \<and>
    newer l xs = filter (\<lambda>m. Sequence m \<ge> sr_StartSequence sr) xs \<and>
    (ms_first (c_msgs c) \<le> sr_StartSequence sr \<and> sr_StartSequence sr \<noteq> 0 \<and> sr_StartSequence sr - 1 \<le> ms_last (c_msgs c) \<longrightarrow>
       l = sr_StartSequence sr - 1)"
proof -
  let ?q = "sr_StartSequence sr" and ?f = "ms_first (c_msgs c)" and ?l = "ms_last (c_msgs c)"
  have ge: "\<And>m. m \<in> set xs \<Longrightarrow> ?f \<le> Sequence m \<and> Sequence m \<le> ?l" using ms_log_ge_first [OF assms(1)] by blast
  have s: "setSubStartSequence e c sr = Some (if ?q < ?f then ?f - 1 else if ?q > ?l then ?l else if ?q > 0 then ?q - 1 else 0)"
    using assms(2) by (simp add: setSubStartSequence_def FirstAndLastSequence_def)
  consider "?q < ?f" | "\<not> ?q < ?f" "?q > ?l" | "\<not> ?q < ?f" "\<not> ?q > ?l" "?q > 0" | "\<not> ?q < ?f" "\<not> ?q > ?l" "?q = 0"
    by (metis word_neq_0_conv)
  then show ?thesis
  proof cases
    case 1
    then have f: "?f \<noteq> 0" by auto
    have "?f - 1 \<le> ?l" using ms_log_span [OF assms(1) f] Suc_unat_pred [OF f] by (simp add: word_le_nat_alt)
    moreover have "filter (\<lambda>m. ?q \<le> Sequence m) xs = xs" using 1 ge by (intro filter_True) (fastforce simp: not_le)
    ultimately show ?thesis using s 1 newer_all [OF assms(1) f] assms(2) by (auto dest: leD)
  next
    case 2
    then have "filter (\<lambda>m. ?q \<le> Sequence m) xs = []" using ge by (intro filter_False) fastforce
    moreover have "?l = ?q - 1" if "?q \<noteq> 0" "?q - 1 \<le> ?l"
      using that 2 Suc_unat_pred [OF that(1)] by (intro word_unat_eq_iff [THEN iffD2]) (simp add: word_le_nat_alt word_less_nat_alt)
    ultimately show ?thesis using s 2 newer_last [OF assms(1)] by simp
  next
    case 3
    have "?q - 1 \<le> ?l" using 3 by (simp add: word_le_nat_alt word_less_nat_alt unat_minus_one word_neq_0_conv)
    with s 3 newer_pred [of ?q xs] show ?thesis by (simp add: word_neq_0_conv)
  next
    case 4
    then have "xs = []" using ms_log_zero [OF assms(1)] by (simp add: not_less)
    with s 4 show ?thesis by (simp add: newer_def)
  qed
qed

section \<open>Properties\<close>



definition late_chan :: "chan" where
  "late_chan = sample_chan\<lparr>c_msgs := snd (Store (\<lambda>_. 5) 0 (sample_msg 1 0) (ms_init ''foo'' sample_limits))\<rparr>"

definition new_only :: subRequest where
  "new_only = \<lparr>sr_ClientID = ''me'', sr_Subject = ''foo'', sr_QGroup = [], sr_Inbox = ''i'', sr_MaxInFlight = 1, sr_AckWaitInSecs = 1,
     sr_DurableName = [], sr_StartPosition = NewOnly, sr_StartSequence = 0, sr_StartTimeDelta = 0\<rparr>"

lemma late_chan_log: "ms_log (\<lambda>_. 5) (c_msgs late_chan) [sample_msg 1 0]"
proof -
  have "next_msg (ms_init ''foo'' sample_limits) (sample_msg 1 0)" by code_simp
  from Store_log(2) [OF ms_log_init this, of "\<lambda>_. 5" 0] show ?thesis by (simp add: over_def late_chan_def)
qed





end
