(* ===== verification/Heartbeat_Props.thy ===== *)
theory Heartbeat_Props
  imports Channel_Props
begin

text \<open>
  Heartbeats: a client that stops answering is closed after the configured number of missed
  heartbeats, and not before.
\<close>

lemma clients_upd_chan [simp]: "sv_clients (upd_chan n f s) = sv_clients s"
  by (simp add: upd_chan_def split: option.split)

lemma clients_fold: "(\<And>x s. sv_clients (f x s) = sv_clients s) \<Longrightarrow> sv_clients (fold f xs s) = sv_clients s"
  by (induction xs arbitrary: s) auto

lemma clients_removeAll [simp]: "sv_clients (removeAllNonDurableSubscribers e cl s) = sv_clients s"
  by (simp add: removeAllNonDurableSubscribers_def Let_def clients_fold remove_sub_def maybeStartChannelDeleteTimer_def case_prod_beta)

lemma clients_set_failedHB: "sv_clients (fold (set_failedHB b) ps s) = sv_clients s"
  by (rule clients_fold) (simp add: set_failedHB_def case_prod_beta)

lemma closeClient_gone: "lookup_client i (sv_clients (snd (closeClient e i s))) = None"
  by (auto simp: closeClient_def lookup_client_def unregister_def Let_def split: option.split)

lemma replicateConnClose_gone:
  "e_raft e \<Longrightarrow> lookup_client i (sv_clients (snd (replicateConnClose e i False s))) = None"
  by (simp add: replicateConnClose_def raft_Apply_def fsm_Apply_def closeClient_gone Let_def case_prod_beta)

lemma lookup_upd_client:
  "lookup_client i (upd_client j f cs) = (if i = j then map_option f (lookup_client i cs) else lookup_client i cs)"
  by (simp add: lookup_client_def upd_client_def split: option.split)

text \<open>The server checks the clients: it is standalone, or the leader and Raft works.\<close>

definition checks_clients :: "srv_env \<Rightarrow> bool" where
  "checks_clients e \<longleftrightarrow> \<not> e_clustered e \<or> e_leader e \<and> e_raft e"

lemma missed_heartbeat:
  assumes "lookup_client i (sv_clients s) = Some cl" "cl_hbt cl \<noteq> None" "checks_clients e"
    and "\<not> e_answers e (ci_HbInbox (cl_info cl))"
  shows "lookup_client i (sv_clients (checkClientHealth e i s)) =
     (if cl_fhb cl + 1 > o_ClientHBFailCount (e_opts e) then None
      else Some (cl\<lparr>cl_fhb := cl_fhb cl + 1, cl_hbt := Some (o_ClientHBInterval (e_opts e))\<rparr>))"
  using assms
  by (auto simp: checkClientHealth_def Let_def checks_clients_def closeClient_gone replicateConnClose_gone
      lookup_upd_client clients_set_failedHB)

lemma unknown_client: "lookup_client i (sv_clients s) = None \<Longrightarrow> checkClientHealth e i s = s"
  by (simp add: checkClientHealth_def)

lemma missed_heartbeats:
  "lookup_client i (sv_clients s) = Some cl \<Longrightarrow> cl_hbt cl \<noteq> None \<Longrightarrow>
   list_all (\<lambda>e. checks_clients e \<and> \<not> e_answers e (ci_HbInbox (cl_info cl)) \<and> o_ClientHBFailCount (e_opts e) = F) es \<Longrightarrow>
   cl_fhb cl \<le> F \<Longrightarrow>
   (case lookup_client i (sv_clients (fold (\<lambda>e. checkClientHealth e i) es s)) of
      Some cl' \<Rightarrow> cl_fhb cl + int (length es) \<le> F \<and> cl_fhb cl' = cl_fhb cl + int (length es) \<and> cl_info cl' = cl_info cl
    | None \<Rightarrow> cl_fhb cl + int (length es) > F)"
proof (induction es arbitrary: s cl)
  case (Cons e es)
  have e: "checks_clients e" "\<not> e_answers e (ci_HbInbox (cl_info cl))" "o_ClientHBFailCount (e_opts e) = F"
    using Cons.prems(3) by simp_all
  note m = missed_heartbeat [OF Cons.prems(1,2) e(1,2)]
  show ?case
  proof (cases "cl_fhb cl + 1 > F")
    case True
    then have none: "lookup_client i (sv_clients (checkClientHealth e i s)) = None" using m e(3) by simp
    have "fold (\<lambda>e. checkClientHealth e i) es t = t" if "lookup_client i (sv_clients t) = None" for t
      using that by (induction es) (simp_all add: unknown_client)
    with none True show ?thesis by simp
  next
    case False
    define cl1 where "cl1 = cl\<lparr>cl_fhb := cl_fhb cl + 1, cl_hbt := Some (o_ClientHBInterval (e_opts e))\<rparr>"
    have "lookup_client i (sv_clients (checkClientHealth e i s)) = Some cl1" using m False e(3) by (simp add: cl1_def)
    from Cons.IH [OF this] Cons.prems(3) False show ?thesis by (simp add: cl1_def algebra_simps split: option.splits)
  qed
qed simp

text \<open>C25: A client that misses heartbeats is closed by the check that takes their number beyond the allowed one, and no
  earlier: after \<open>n\<close> missed heartbeats in a row it is still registered, with that count, exactly if the count does
  not exceed the limit. One that answers starts again from zero.\<close>

theorem heartbeat_closes_client:
  assumes "lookup_client i (sv_clients s) = Some cl" "cl_hbt cl \<noteq> None" "cl_fhb cl \<le> F"
    and "list_all (\<lambda>e. checks_clients e \<and> \<not> e_answers e (ci_HbInbox (cl_info cl)) \<and> o_ClientHBFailCount (e_opts e) = F) es"
  shows "(lookup_client i (sv_clients (fold (\<lambda>e. checkClientHealth e i) es s)) = None \<longleftrightarrow> cl_fhb cl + int (length es) > F) \<and>
    (\<forall>cl'. lookup_client i (sv_clients (fold (\<lambda>e. checkClientHealth e i) es s)) = Some cl' \<longrightarrow>
       cl_fhb cl' = cl_fhb cl + int (length es) \<and>
       (\<forall>e. checks_clients e \<and> e_answers e (ci_HbInbox (cl_info cl)) \<and> cl_hbt cl' \<noteq> None \<longrightarrow>
         (\<exists>cl''. lookup_client i (sv_clients (checkClientHealth e i (fold (\<lambda>e. checkClientHealth e i) es s))) = Some cl'' \<and>
           cl_fhb cl'' = 0)))"
proof -
  let ?s = "fold (\<lambda>e. checkClientHealth e i) es s"
  note m = missed_heartbeats [OF assms(1,2,4,3)]
  have "\<exists>cl''. lookup_client i (sv_clients (checkClientHealth e i ?s)) = Some cl'' \<and> cl_fhb cl'' = 0"
    if "lookup_client i (sv_clients ?s) = Some cl'" "cl_info cl' = cl_info cl" "checks_clients e"
      "e_answers e (ci_HbInbox (cl_info cl))" "cl_hbt cl' \<noteq> None" for cl' e
    using that by (auto simp: checkClientHealth_def Let_def checks_clients_def lookup_upd_client clients_set_failedHB)
  with m show ?thesis by (auto split: option.splits)
qed

theorem heartbeat_closes_client_witness:
  "lookup_client ''me'' (sv_clients (fold (\<lambda>e. checkClientHealth e ''me'') (replicate 11 (sample_senv 5)) sample_connected)) = None"
proof -
  have c: "lookup_client ''me'' (sv_clients sample_connected) = Some
    \<lparr>cl_info = \<lparr>ci_ID = ''me'', ci_HbInbox = ''hb'', ci_ConnID = ''c1'', ci_Protocol = 1, ci_PingInterval = 5, ci_PingMaxOut = 3\<rparr>,
     cl_hbt = Some 30, cl_fhb = 0, cl_subs = []\<rparr>" by code_simp
  have "\<not> e_clustered (sample_senv 5)" "\<not> e_answers (sample_senv 5) ''hb''" "o_ClientHBFailCount (e_opts (sample_senv 5)) = 10"
    by (simp_all add: sample_senv_def sample_env_def srv_env.defs env.defs)
  then have "list_all (\<lambda>e. checks_clients e \<and> \<not> e_answers e ''hb'' \<and> o_ClientHBFailCount (e_opts e) = 10) (replicate 11 (sample_senv 5))"
    by (simp add: checks_clients_def list_all_iff)
  with heartbeat_closes_client [OF c, of 10 "replicate 11 (sample_senv 5)"] show ?thesis by simp
qed

end
