(* ===== verification/Delivery_Fuel.thy ===== *)
theory Delivery_Fuel
  imports Delivery_Frame Delivery_Props
begin

text \<open>
  The loops that send available messages end: more fuel than one unit per stored message, and one to
  see the end, does not change their result.
\<close>

lemma getNextMsg_forward:
  "getNextMsg e ms later q l = (Some m, nx, l') \<Longrightarrow> q \<le> nx \<and> Lookup ms nx = Some m"
proof (induction e ms later q l rule: getNextMsg.induct)
  case (1 e ms later q l)
  let ?first = "fst (FirstAndLastSequence ms)" and ?last = "snd (FirstAndLastSequence ms)"
  show ?case
  proof (cases "\<not> e_lookup e q \<or> Lookup ms q \<noteq> None \<or> q \<ge> ?last")
    case True
    then show ?thesis using "1.prems" by (subst (asm) getNextMsg.simps) (auto simp: Let_def split: if_splits option.splits)
  next
    case False
    then have ql: "q < ?last" and c: "e_lookup e q" "Lookup ms q = None" "\<not> q \<ge> ?last" by auto
    note step = "1.prems" [unfolded getNextMsg.simps [of e ms later q l]]
    show ?thesis
    proof (cases "q < ?first")
      case True
      have "getNextMsg e ms True ?first (?first - 1) = (Some m, nx, l')" using step c True by (simp add: Let_def)
      from "1.IH"(1) [OF _ c(2) refl refl _ True this] c True show ?thesis by (auto intro: order.strict_implies_order order.strict_trans2)
    next
      case False
      show ?thesis
      proof (cases later)
        case True
        have "getNextMsg e ms True (q + 1) (l + 1) = (Some m, nx, l')" using step c False True by (simp add: Let_def)
        from "1.IH"(2) [OF _ c(2) refl refl _ False True this] c have "q + 1 \<le> nx \<and> Lookup ms nx = Some m" by simp
        moreover have "q < q + 1" using seq_less_not_max [OF ql] by (rule seq_less_Suc)
        ultimately show ?thesis by (auto intro: order.trans)
      next
        case later: False
        have "getNextMsg e ms True q l = (Some m, nx, l')" using step c False later by (simp add: Let_def)
        from "1.IH"(3) [OF _ c(2) refl refl _ False later this] c show ?thesis by simp
      qed
    qed
  qed
qed

text \<open>The number of messages from a sequence on: it decreases with every message that is sent.\<close>

definition ahead :: "u64 \<Rightarrow> MsgProto list \<Rightarrow> nat" where
  "ahead q xs = length (filter (\<lambda>m. q \<le> Sequence m) xs)"

lemma ahead_next:
  assumes "ms_log msize ms xs" "Lookup ms nx = Some m" "q \<le> nx"
  shows "ahead (nx + 1) xs < ahead q xs"
proof -
  have m: "m \<in> set xs" "Sequence m = nx" using ms_log_lookup [OF assms(1)] assms(2) by auto
  have "nx \<le> ms_last ms" using ms_log_lookup_iff [OF assms(1), of nx] assms(2) by simp
  moreover have "ms_last ms \<noteq> - 1" using assms(1) by (simp add: ms_log_def)
  ultimately have nx: "nx \<noteq> - 1" by (metis word_order.extremum_unique)
  have "filter (\<lambda>m. nx + 1 \<le> Sequence m) xs = filter (\<lambda>m. nx + 1 \<le> Sequence m) (filter (\<lambda>m. q \<le> Sequence m) xs)"
    using assms(3) seq_less_Suc [OF nx] by (auto simp: intro!: filter_cong)
  also have "length \<dots> < length (filter (\<lambda>m. q \<le> Sequence m) xs)"
    by (rule length_filter_less [of m]) (use m assms(3) seq_less_Suc [OF nx] in \<open>auto simp: not_le\<close>)
  finally show ?thesis by (simp add: ahead_def)
qed

lemma avail_loop_fuel:
  "ms_log msize (c_msgs c) xs \<Longrightarrow> ahead q xs < k \<Longrightarrow> avail_loop (k + n) e r q c = avail_loop k e r q c"
proof (induction k arbitrary: q c)
  case (Suc k)
  obtain mo nx l where g: "getNextMsg e (c_msgs c) False q (LastSent (sub_at c r)) = (mo, nx, l)" by (metis prod.collapse)
  let ?c1 = "upd_sub r (\<lambda>s. s\<lparr>LastSent := l\<rparr>) c"
  have "avail_loop (k + n) e r (nx + 1) c2 = avail_loop k e r (nx + 1) c2"
    if "mo = Some m" "sendMsgToSub e r m False ?c1 = (b, c2)" for m b c2
  proof (rule Suc.IH)
    note f = getNextMsg_forward [OF g [unfolded that(1)]]
    have "chan_frame c2 = chan_frame c" using that(2) frame_sendMsgToSub [of e r m False ?c1] by (simp add: frame_simps)
    then have "c_msgs c2 = c_msgs c" by (rule frame_fields)
    then show "ms_log msize (c_msgs c2) xs" using Suc.prems(1) by simp
    show "ahead (nx + 1) xs < k"
      using ahead_next [OF Suc.prems(1) conjunct2 [OF f] conjunct1 [OF f]] Suc.prems(2) by linarith
  qed
  with g show ?case by (auto simp: Let_def split: option.split prod.split)
qed simp

lemma avail_queue_loop_fuel:
  "ms_log msize (c_msgs c) xs \<Longrightarrow> ahead i xs < k \<Longrightarrow> avail_queue_loop (k + n) e q i c = avail_queue_loop k e q i c"
proof (induction k arbitrary: i c)
  case (Suc k)
  obtain mo nx l where g: "getNextMsg e (c_msgs c) False i (q_lastSent (queue_at c q)) = (mo, nx, l)" by (metis prod.collapse)
  let ?c1 = "upd_queue q (\<lambda>qs. qs\<lparr>q_lastSent := l\<rparr>) c"
  have "avail_queue_loop (k + n) e q (nx + 1) c2 = avail_queue_loop k e q (nx + 1) c2"
    if "mo = Some m" "sendMsgToQueueGroup e q m False ?c1 = (b, c2)" for m b c2
  proof (rule Suc.IH)
    note f = getNextMsg_forward [OF g [unfolded that(1)]]
    have "chan_frame c2 = chan_frame c" using that(2) frame_sendMsgToQueueGroup [of e q m False ?c1] by (simp add: frame_simps)
    then have "c_msgs c2 = c_msgs c" by (rule frame_fields)
    then show "ms_log msize (c_msgs c2) xs" using Suc.prems(1) by simp
    show "ahead (nx + 1) xs < k"
      using ahead_next [OF Suc.prems(1) conjunct2 [OF f] conjunct1 [OF f]] Suc.prems(2) by linarith
  qed
  with g show ?case by (auto simp: Let_def split: option.split prod.split)
qed simp

lemma ahead_fuel: "ms_log msize (c_msgs c) xs \<Longrightarrow> ahead q xs < avail_fuel c"
  unfolding avail_fuel_def ahead_def by (simp add: ms_log_length le_imp_less_Suc)

text \<open>C24: The loops that send the available messages to a subscription and to a queue group end, whatever the publication
  and the stores do: on a channel with a log, one iteration per stored message and one more are enough, and
  more fuel gives the same result.\<close>

theorem send_loops_terminate:
  assumes "ms_log msize (c_msgs c) xs"
  shows "avail_loop (avail_fuel c + n) e r (LastSent (sub_at c r) + 1) c = sendAvailableMessages e r c \<and>
    avail_queue_loop (avail_fuel c + n) e q i c = avail_queue_loop (avail_fuel c) e q i c"
  using avail_loop_fuel [OF assms ahead_fuel [OF assms]] avail_queue_loop_fuel [OF assms ahead_fuel [OF assms]]
  by (simp add: sendAvailableMessages_def)

theorem send_loops_terminate_witness:
  "avail_loop (avail_fuel sample_chan + 3) (sample_env 0) 0 1 sample_chan = sendAvailableMessages (sample_env 0) 0 sample_chan"
proof -
  have "ms_log (\<lambda>_. 5) (c_msgs sample_chan) []" by (simp add: sample_chan_def ms_log_init)
  from send_loops_terminate [OF this, of 3 "sample_env 0" 0] show ?thesis
    by (simp add: sample_chan_def sample_sub_def)
qed

end
