(* ===== verification/Proto_Wire.thy ===== *)
theory Proto_Wire
  imports Prelude
begin

text \<open>
  The protocol buffer encoding as \<open>spb/protocol.pb.go\<close> writes and reads it: base-128 varints, tagged
  fields, and the loop every \<open>Unmarshal\<close> runs over the fields of its message. The generated functions
  write a buffer from its end; the definitions give the bytes they leave in it. A position \<open>iNdEx\<close> in
  the input is the suffix that starts there.
\<close>

unbundle bit_operations_syntax

datatype proto_err =
    ErrIntOverflow
  | ErrProtoEOF
  | ErrInvalidLength
  | ErrEndOfGroup
  | ErrWireType
  | ErrIllegalTag

section \<open>Varints\<close>

function encodeVarintProtocol :: "u64 \<Rightarrow> bytes" where
  "encodeVarintProtocol v =
     (if v < 2 ^ 7 then [char_of (unat v)]
      else char_of (unat (v AND 0x7f OR 0x80)) # encodeVarintProtocol (drop_bit 7 v))"
  by auto
termination
  by (relation "measure unat") (auto simp: word_less_nat_alt unat_drop_bit_eq drop_bit_nat_def)

declare encodeVarintProtocol.simps [simp del]

text \<open>\<open>bits.Len64\<close>: the number of bits of a number.\<close>

fun bit_len :: "nat \<Rightarrow> nat" where
  "bit_len n = (if n = 0 then 0 else Suc (bit_len (n div 2)))"

declare bit_len.simps [simp del]

definition sovProtocol :: "u64 \<Rightarrow> nat" where
  "sovProtocol x = (bit_len (unat (x OR 1)) + 6) div 7"

text \<open>The loop that every \<open>Unmarshal\<close> repeats to read a varint.\<close>

fun varint_loop :: "nat \<Rightarrow> u64 \<Rightarrow> bytes \<Rightarrow> proto_err + u64 \<times> bytes" where
  "varint_loop shift acc [] = Inl (if shift \<ge> 64 then ErrIntOverflow else ErrProtoEOF)"
| "varint_loop shift acc (b # bs) =
     (if shift \<ge> 64 then Inl ErrIntOverflow
      else
        let acc' = acc OR push_bit shift (of_char b AND 0x7F)
        in if of_char b < (0x80::nat) then Inr (acc', bs) else varint_loop (shift + 7) acc' bs)"

definition read_varint :: "bytes \<Rightarrow> proto_err + u64 \<times> bytes" where
  "read_varint bs = varint_loop 0 0 bs"

lemma varint_loop_shorter: "varint_loop s a bs = Inr (v, bs') \<Longrightarrow> length bs' < length bs"
  by (induction s a bs rule: varint_loop.induct) (auto simp: Let_def less_Suc_eq split: if_splits)

lemma read_varint_shorter: "read_varint bs = Inr (v, bs') \<Longrightarrow> length bs' < length bs"
  unfolding read_varint_def by (rule varint_loop_shorter)

lemma bit_0x7f: "bit (0x7f::u64) n \<longleftrightarrow> n < 7"
proof -
  have "(0x7f::u64) = mask 7" by (simp add: mask_eq_exp_minus_1)
  then show ?thesis by (simp only: bit_mask_iff) auto
qed

lemma bit_0x80: "bit (0x80::u64) n \<longleftrightarrow> n = 7"
proof -
  have "(0x80::u64) = 2 ^ 7" by simp
  then show ?thesis by (simp only: bit_exp_iff) auto
qed

lemmas varint_bits = bit_and_iff bit_or_iff bit_push_bit_iff bit_drop_bit_eq bit_take_bit_iff bit_0x7f bit_0x80

declare bit_numeral_word_iff [simp del]

lemma split_7: "v AND 0x7f OR push_bit 7 (drop_bit 7 v) = (v::u64)"
proof (rule bit_word_eqI)
  fix n :: nat
  assume "n < LENGTH(64)"
  then show "bit (v AND 0x7f OR push_bit 7 (drop_bit 7 v)) n = bit v n"
    by (cases "n < 7") (auto simp: varint_bits)
qed

lemma take_8: "unat (x::u64) < 256 \<Longrightarrow> of_char (char_of (unat x) :: char) = x"
  using of_nat_of_char [of "char_of (unat x) :: char", where ?'a = u64] by (simp add: of_char_of)

lemma continued_less: "unat ((v::u64) AND 0x7f OR 0x80) < 256"
proof -
  have "v AND 0x7f OR 0x80 = take_bit 8 (v AND 0x7f OR 0x80)"
    by (rule bit_word_eqI) (auto simp: varint_bits)
  from arg_cong [OF this, of unat] have "unat (v AND 0x7f OR 0x80) = take_bit 8 (unat (v AND 0x7f OR 0x80))"
    by (simp only: unsigned_take_bit_eq)
  then show ?thesis using take_bit_nat_less_exp [of 8 "unat (v AND 0x7f OR 0x80)"] by simp
qed

lemma continued_byte:
  "(of_char (char_of (unat ((v::u64) AND 0x7f OR 0x80)) :: char) :: u64) AND 0x7F = v AND 0x7f"
  "(of_char (char_of (unat (v AND 0x7f OR 0x80)) :: char) :: nat) \<ge> 0x80"
proof -
  show "(of_char (char_of (unat (v AND 0x7f OR 0x80)) :: char) :: u64) AND 0x7F = v AND 0x7f"
    unfolding take_8 [OF continued_less]
    by (rule bit_word_eqI) (auto simp: varint_bits)
  have "bit (v AND 0x7f OR 0x80) 7" by (simp add: varint_bits)
  then have "bit (unat (v AND 0x7f OR 0x80)) 7" by (simp add: bit_unsigned_iff)
  then show "(of_char (char_of (unat (v AND 0x7f OR 0x80)) :: char) :: nat) \<ge> 0x80"
    using continued_less [of v] by (auto simp: of_char_of bit_iff_odd not_less intro: ccontr)
qed

lemma final_byte:
  assumes "(v::u64) < 2 ^ 7"
  shows "(of_char (char_of (unat v) :: char) :: u64) AND 0x7F = v" "(of_char (char_of (unat v) :: char) :: nat) < 0x80"
proof -
  have v: "unat v < 128" using assms by (simp add: word_less_nat_alt)
  have "v AND 0x7F = take_bit 7 v" by (rule bit_word_eqI) (auto simp: varint_bits)
  also have "\<dots> = v" using v by (simp add: word_unat_eq_iff unsigned_take_bit_eq take_bit_nat_eq_self)
  finally show "(of_char (char_of (unat v) :: char) :: u64) AND 0x7F = v" using v by (simp add: take_8)
  show "(of_char (char_of (unat v) :: char) :: nat) < 0x80" using v by (simp add: of_char_of)
qed

text \<open>The loop accumulates the value above the bits it has read.\<close>

lemma varint_loop_encode:
  assumes "shift < 64" "unat v < 2 ^ (64 - shift)"
  shows "varint_loop shift acc (encodeVarintProtocol v @ rest) = Inr (acc OR push_bit shift v, rest)"
  using assms
proof (induction v arbitrary: shift acc rule: encodeVarintProtocol.induct)
  case (1 v)
  show ?case
  proof (cases "v < 2 ^ 7")
    case True
    then show ?thesis using 1(2) final_byte [OF True] by (subst encodeVarintProtocol.simps) simp
  next
    case False
    have v: "unat v \<ge> 128" using False by (simp add: word_less_nat_alt)
    have "(2::nat) ^ 7 < 2 ^ (64 - shift)" using v 1(3) by simp
    then have s: "shift + 7 < 64" using power_less_imp_less_exp [of "2::nat" 7 "64 - shift"] by simp
    have "unat v < 2 ^ (64 - (shift + 7)) * 2 ^ 7"
      using 1(3) s power_add [of "2::nat" "57 - shift" 7] by simp
    then have "unat (drop_bit 7 v) < 2 ^ (64 - (shift + 7))"
      by (simp add: unat_drop_bit_eq drop_bit_nat_def less_mult_imp_div_less)
    note IH = 1(1) [OF False s this]
    have "push_bit shift (v AND 0x7f) OR push_bit (shift + 7) (drop_bit 7 v) = push_bit shift v"
      by (metis split_7 push_bit_or push_bit_push_bit add.commute)
    then show ?thesis using False 1(2) continued_byte [of v] IH
      by (subst encodeVarintProtocol.simps) (simp add: Let_def or.assoc not_le not_less)
  qed
qed

lemma read_varint_encode [simp]: "read_varint (encodeVarintProtocol v @ rest) = Inr (v, rest)"
  using varint_loop_encode [of 0 v 0 rest] unsigned_less [of v, where ?'a = nat] by (simp add: read_varint_def)

text \<open>\<open>sovProtocol\<close> is the number of bytes \<open>encodeVarintProtocol\<close> writes.\<close>

lemma bit_len_0 [simp]: "bit_len 0 = 0"
  by (simp add: bit_len.simps)

lemma bit_len_pos: "n > 0 \<Longrightarrow> bit_len n = Suc (bit_len (n div 2))"
  by (simp add: bit_len.simps [of n])

lemma bit_len_le: "n < 2 ^ k \<Longrightarrow> bit_len n \<le> k"
proof (induction k arbitrary: n)
  case (Suc k)
  then show ?case using Suc(1) [of "n div 2"] by (cases "n = 0") (auto simp: bit_len_pos)
qed simp

lemma bit_len_shift: "n > 0 \<Longrightarrow> bit_len n = k + bit_len (n div 2 ^ k)" if "n \<ge> 2 ^ k"
  using that
proof (induction k arbitrary: n)
  case (Suc k)
  have "bit_len n = Suc (bit_len (n div 2))" using Suc(2) by (simp add: bit_len_pos)
  moreover have "n div 2 \<ge> 2 ^ k" using Suc(3) by simp
  moreover have "n div 2 > 0" using one_le_power [of "2::nat" k, OF one_le_numeral] Suc(3) by (simp only: power_Suc div_greater_zero_iff) linarith
  ultimately show ?case using Suc(1) [of "n div 2"] by (simp add: div_mult2_eq)
qed simp

lemma bit_len_or_1: "bit_len (unat (x OR 1 :: u64)) = (if x = 0 then 1 else bit_len (unat x))"
proof (cases "x = 0")
  case False
  have "unat (x OR 1) = (unat x OR 1)" by (simp only: unsigned_or_eq unsigned_1)
  then have or: "unat (x OR 1) = unat x + of_bool (even (unat x))" by (simp only: or_one_eq)
  have "unat x > 0" using False by (simp add: unat_gt_0)
  moreover have "(unat x + of_bool (even (unat x))) div 2 = unat x div 2" by auto
  ultimately show ?thesis using False by (simp add: or bit_len_pos)
qed (simp add: bit_len_pos)

lemma length_encodeVarint [simp]: "length (encodeVarintProtocol v) = sovProtocol v"
proof (induction v rule: encodeVarintProtocol.induct)
  case (1 v)
  show ?case
  proof (cases "v < 2 ^ 7")
    case True
    then have "bit_len (unat v) \<le> 7" by (intro bit_len_le) (simp add: word_less_nat_alt)
    moreover have "v \<noteq> 0 \<Longrightarrow> bit_len (unat v) > 0" by (simp add: bit_len_pos unat_gt_0)
    ultimately show ?thesis using True
      by (subst encodeVarintProtocol.simps) (auto simp: sovProtocol_def bit_len_or_1)
  next
    case False
    then have v: "unat v \<ge> 2 ^ 7" by (simp add: word_less_nat_alt)
    then have "drop_bit 7 v \<noteq> 0" by (simp add: word_unat_eq_iff unat_drop_bit_eq drop_bit_nat_def)
    moreover have "bit_len (unat v) = 7 + bit_len (unat (drop_bit 7 v))"
      using v bit_len_shift [of 7 "unat v"] by (simp add: unat_drop_bit_eq drop_bit_nat_def)
    moreover have "v \<noteq> 0" using v by auto
    ultimately show ?thesis using False 1
      by (subst encodeVarintProtocol.simps) (auto simp: sovProtocol_def bit_len_or_1)
  qed
qed

lemma sovProtocol_le: "sovProtocol x \<le> 10"
proof -
  have "bit_len (unat (x OR 1)) \<le> 64" using unsigned_less [of "x OR 1", where ?'a = nat] by (intro bit_len_le) simp
  then show ?thesis by (simp add: sovProtocol_def)
qed

section \<open>Reading a message\<close>

text \<open>
  \<open>skipProtocol\<close> on the input from a position: the number of bytes of the field there. A fixed-width
  field may reach past the end of the input; the caller checks that. The sum of two non-negative
  \<open>int\<close> values is negative exactly when it reaches \<open>2 ^ 63\<close>.
\<close>

definition skip_field :: "bytes \<Rightarrow> nat \<Rightarrow> nat \<Rightarrow> proto_err + nat \<times> nat" where
  "skip_field dAtA iNdEx depth =
     (case read_varint (drop iNdEx dAtA) of
        Inl e \<Rightarrow> Inl e
      | Inr (wire, rest) \<Rightarrow>
          let at = length dAtA - length rest
          in if wire AND 7 = 0 then
               (case read_varint rest of Inl e \<Rightarrow> Inl e
                | Inr (_, rest') \<Rightarrow> Inr (length dAtA - length rest', depth))
             else if wire AND 7 = 1 then Inr (at + 8, depth)
             else if wire AND 7 = 2 then
               (case read_varint rest of Inl e \<Rightarrow> Inl e
                | Inr (n, rest') \<Rightarrow>
                    if sint n < 0 then Inl ErrInvalidLength
                    else Inr (length dAtA - length rest' + unat n, depth))
             else if wire AND 7 = 3 then Inr (at, depth + 1)
             else if wire AND 7 = 4 then
               (if depth = 0 then Inl ErrEndOfGroup else Inr (at, depth - 1))
             else if wire AND 7 = 5 then Inr (at + 4, depth)
             else Inl ErrWireType)"

lemma skip_field_pos: "skip_field dAtA i d = Inr (i', d') \<Longrightarrow> i' > i"
  by (auto simp: skip_field_def Let_def split: if_splits sum.splits dest!: read_varint_shorter; arith)

function skip_loop :: "bytes \<Rightarrow> nat \<Rightarrow> nat \<Rightarrow> proto_err + nat" where
  "skip_loop dAtA iNdEx depth =
     (if iNdEx \<ge> length dAtA then Inl ErrProtoEOF
      else case skip_field dAtA iNdEx depth of
        Inl e \<Rightarrow> Inl e
      | Inr (i, d) \<Rightarrow>
          if i \<ge> 2 ^ 63 then Inl ErrInvalidLength
          else if d = 0 then Inr i
          else skip_loop dAtA i d)"
  by auto
termination
  by (relation "measure (\<lambda>(d, i, _). length d - i)") (auto dest!: skip_field_pos)

declare skip_loop.simps [simp del]

definition skipProtocol :: "bytes \<Rightarrow> proto_err + nat" where
  "skipProtocol dAtA = skip_loop dAtA 0 0"

lemma skip_loop_pos: "skip_loop dAtA i d = Inr n \<Longrightarrow> n > i"
proof (induction dAtA i d rule: skip_loop.induct)
  case (1 dAtA i d)
  obtain a b where f: "\<not> length dAtA \<le> i" "skip_field dAtA i d = Inr (a, b)" "\<not> 2 ^ 63 \<le> a"
    and r: "b = 0 \<and> n = a \<or> b \<noteq> 0 \<and> skip_loop dAtA a b = Inr n"
    using 1(2) by (subst (asm) skip_loop.simps) (auto split: if_splits sum.splits)
  have "i < a" by (rule skip_field_pos [OF f(2)])
  moreover have "b \<noteq> 0 \<Longrightarrow> skip_loop dAtA a b = Inr n \<Longrightarrow> a < n" by (rule 1(1) [OF f(1,2) refl f(3)])
  ultimately show ?case using r by auto
qed

text \<open>
  The fields of a message: what a \<open>case\<close> of the generated \<open>switch fieldNum\<close> does with the varint or with
  the bytes it has read. \<open>l\<close> is the length of the whole input.
\<close>

datatype 'm field =
    Varint_field (set_varint: "u64 \<Rightarrow> 'm \<Rightarrow> 'm")
  | Bytes_field (set_bytes: "bytes \<Rightarrow> 'm \<Rightarrow> 'm")

definition read_field :: "nat \<Rightarrow> (int \<Rightarrow> 'm field option) \<Rightarrow> bytes \<Rightarrow> 'm \<Rightarrow> proto_err + bytes \<times> 'm" where
  "read_field l flds bs m =
     (case read_varint bs of
        Inl e \<Rightarrow> Inl e
      | Inr (wire, bs1) \<Rightarrow>
          let fieldNum = i32 (uint (drop_bit 3 wire)); wireType = wire AND 7
          in if wireType = 4 then Inl ErrWireType
             else if fieldNum \<le> 0 then Inl ErrIllegalTag
             else case flds fieldNum of
               None \<Rightarrow>
                 (case skipProtocol bs of
                    Inl e \<Rightarrow> Inl e
                  | Inr skippy \<Rightarrow>
                      if l - length bs + skippy \<ge> 2 ^ 63 then Inl ErrInvalidLength
                      else if skippy > length bs then Inl ErrProtoEOF
                      else Inr (drop skippy bs, m))
             | Some (Varint_field upd) \<Rightarrow>
                 if wireType \<noteq> 0 then Inl ErrWireType
                 else (case read_varint bs1 of Inl e \<Rightarrow> Inl e | Inr (v, bs2) \<Rightarrow> Inr (bs2, upd v m))
             | Some (Bytes_field upd) \<Rightarrow>
                 if wireType \<noteq> 2 then Inl ErrWireType
                 else case read_varint bs1 of
                   Inl e \<Rightarrow> Inl e
                 | Inr (n, bs2) \<Rightarrow>
                     if sint n < 0 then Inl ErrInvalidLength
                     else if l - length bs2 + unat n \<ge> 2 ^ 63 then Inl ErrInvalidLength
                     else if unat n > length bs2 then Inl ErrProtoEOF
                     else Inr (drop (unat n) bs2, upd (take (unat n) bs2) m))"

lemma read_field_shorter: "read_field l flds bs m = Inr (bs', m') \<Longrightarrow> length bs' < length bs"
  by (auto simp: read_field_def skipProtocol_def Let_def split: if_splits sum.splits option.splits field.splits
      dest!: read_varint_shorter skip_loop_pos; arith)

function unmarshal_loop :: "nat \<Rightarrow> (int \<Rightarrow> 'm field option) \<Rightarrow> bytes \<Rightarrow> 'm \<Rightarrow> proto_err + 'm" where
  "unmarshal_loop l flds bs m =
     (if bs = [] then Inr m
      else case read_field l flds bs m of
        Inl e \<Rightarrow> Inl e
      | Inr (bs', m') \<Rightarrow> unmarshal_loop l flds bs' m')"
  by auto
termination
  by (relation "measure (\<lambda>(_, _, bs, _). length bs)") (auto dest: read_field_shorter)

declare unmarshal_loop.simps [simp del]

section \<open>Writing the fields\<close>

text \<open>A scalar field is written unless it is zero, a string or byte field unless it is empty.\<close>

definition uint_field :: "nat \<Rightarrow> u64 \<Rightarrow> bytes" where
  "uint_field tag v = (if v \<noteq> 0 then char_of tag # encodeVarintProtocol v else [])"

definition bytes_field :: "nat \<Rightarrow> bytes \<Rightarrow> bytes" where
  "bytes_field tag s =
     (if length s > 0 then char_of tag # encodeVarintProtocol (of_nat (length s)) @ s else [])"

definition bool_field :: "nat \<Rightarrow> bool \<Rightarrow> bytes" where
  "bool_field tag b = (if b then [char_of tag, char_of (1::nat)] else [])"

text \<open>Their contributions to \<open>Size\<close>.\<close>

definition uint_size :: "u64 \<Rightarrow> nat" where
  "uint_size v = (if v \<noteq> 0 then 1 + sovProtocol v else 0)"

definition bytes_size :: "bytes \<Rightarrow> nat" where
  "bytes_size s = (if length s > 0 then 1 + length s + sovProtocol (of_nat (length s)) else 0)"

definition bool_size :: "bool \<Rightarrow> nat" where
  "bool_size b = (if b then 2 else 0)"

lemma length_fields [simp]:
  "length (uint_field tag v) = uint_size v"
  "length (bytes_field tag s) = bytes_size s"
  "length (bool_field tag b) = bool_size b"
  by (simp_all add: uint_field_def uint_size_def bytes_field_def bytes_size_def bool_field_def bool_size_def)

lemma encode_small: "v < 2 ^ 7 \<Longrightarrow> encodeVarintProtocol v = [char_of (unat v)]"
  by (simp add: encodeVarintProtocol.simps)

lemma read_tag: "tag < 128 \<Longrightarrow> read_varint (char_of tag # rest) = Inr (of_nat tag, rest)"
  using read_varint_encode [of "of_nat tag" rest] encode_small [of "of_nat tag"]
  by (simp add: word_less_nat_alt unat_of_nat)

text \<open>The tag of a field of the message: its number and its wire type.\<close>

definition tag_of :: "(int \<Rightarrow> 'm field option) \<Rightarrow> nat \<Rightarrow> 'm field \<Rightarrow> bool" where
  "tag_of flds tag f \<longleftrightarrow>
     8 \<le> tag \<and> tag < 128 \<and> flds (int (tag div 8)) = Some f \<and>
     tag mod 8 = (case f of Varint_field _ \<Rightarrow> 0 | Bytes_field _ \<Rightarrow> 2)"

lemma tag_parts:
  assumes "8 \<le> tag" "tag < 128"
  shows "i32 (uint (drop_bit 3 (of_nat tag :: u64))) = int (tag div 8)" "(of_nat tag :: u64) AND 7 = of_nat (tag mod 8)"
proof -
  have tag: "unat (of_nat tag :: u64) = tag" using assms by (simp add: unat_of_nat)
  have "unat (drop_bit 3 (of_nat tag :: u64)) = tag div 8" by (simp add: unat_drop_bit_eq tag drop_bit_nat_def)
  then have "uint (drop_bit 3 (of_nat tag :: u64)) = int (tag div 8)" by (metis int_nat_eq of_nat_unat uint_nat)
  then show "i32 (uint (drop_bit 3 (of_nat tag :: u64))) = int (tag div 8)" using assms by simp
  have "(of_nat tag :: u64) AND mask 3 = of_nat (tag mod 8)"
    using assms by (simp add: word_unat_eq_iff unsigned_take_bit_eq take_bit_nat_def unat_of_nat flip: take_bit_eq_mask)
  then show "(of_nat tag :: u64) AND 7 = of_nat (tag mod 8)" by (simp add: mask_eq_exp_minus_1)
qed

lemma read_uint_field:
  assumes "tag_of flds tag (Varint_field upd)"
  shows "read_field l flds (char_of tag # encodeVarintProtocol v @ rest) m = Inr (rest, upd v m)"
  using assms by (simp add: tag_of_def read_field_def read_tag tag_parts div_greater_zero_iff)

lemma read_bytes_field:
  assumes "tag_of flds tag (Bytes_field upd)" "length s + length rest \<le> l" "l < 2 ^ 63"
  shows "read_field l flds (char_of tag # encodeVarintProtocol (of_nat (length s)) @ s @ rest) m = Inr (rest, upd s m)"
proof -
  have "unat (of_nat (length s) :: u64) = length s" using assms by (simp add: unat_of_nat)
  moreover have "sint (of_nat (length s) :: u64) = int (length s)" using assms by (simp add: signed_of_nat signed_take_bit_int_eq_self)
  ultimately show ?thesis using assms by (simp add: tag_of_def read_field_def read_tag tag_parts div_greater_zero_iff)
qed

text \<open>The loop on an optional field: the field is set, or it keeps the zero value it must have.\<close>

lemma unmarshal_uint:
  assumes "tag_of flds tag (Varint_field upd)" "upd 0 m = m"
  shows "unmarshal_loop l flds (uint_field tag v @ rest) m = unmarshal_loop l flds rest (upd v m)"
  using assms by (auto simp: uint_field_def unmarshal_loop.simps [of l flds "char_of tag # _"] read_uint_field)

lemma unmarshal_bool:
  assumes "tag_of flds tag (Varint_field upd)" "upd 0 m = m"
  shows "unmarshal_loop l flds (bool_field tag b @ rest) m = unmarshal_loop l flds rest (upd (of_bool b) m)"
  using assms unmarshal_uint [OF assms, of l 1 rest]
  by (auto simp: bool_field_def uint_field_def encode_small word_less_nat_alt)

lemma unmarshal_bytes:
  assumes "tag_of flds tag (Bytes_field upd)" "upd [] m = m" "length (bytes_field tag s @ rest) \<le> l" "l < 2 ^ 63"
  shows "unmarshal_loop l flds (bytes_field tag s @ rest) m = unmarshal_loop l flds rest (upd s m)"
proof (cases s)
  case (Cons b bs)
  then have "length s + length rest \<le> l" using assms(3) by (simp add: bytes_size_def)
  from read_bytes_field [OF assms(1) this assms(4)] show ?thesis using Cons
    by (simp add: bytes_field_def unmarshal_loop.simps [of l flds "char_of tag # _"])
qed (simp add: bytes_field_def assms(2))

text \<open>The same as rewrite rules, with the field looked up.\<close>

definition upd_varint :: "(int \<Rightarrow> 'm field option) \<Rightarrow> nat \<Rightarrow> u64 \<Rightarrow> 'm \<Rightarrow> 'm" where
  "upd_varint flds tag = set_varint (the (flds (int (tag div 8))))"

definition upd_bytes :: "(int \<Rightarrow> 'm field option) \<Rightarrow> nat \<Rightarrow> bytes \<Rightarrow> 'm \<Rightarrow> 'm" where
  "upd_bytes flds tag = set_bytes (the (flds (int (tag div 8))))"

lemma unmarshal_step:
  "\<lbrakk>tag_of flds tag (Varint_field (upd_varint flds tag)); upd_varint flds tag 0 m = m\<rbrakk> \<Longrightarrow>
   unmarshal_loop l flds (uint_field tag v @ rest) m = unmarshal_loop l flds rest (upd_varint flds tag v m)"
  "\<lbrakk>tag_of flds tag (Varint_field (upd_varint flds tag)); upd_varint flds tag 0 m = m\<rbrakk> \<Longrightarrow>
   unmarshal_loop l flds (bool_field tag b @ rest) m = unmarshal_loop l flds rest (upd_varint flds tag (of_bool b) m)"
  "\<lbrakk>tag_of flds tag (Bytes_field (upd_bytes flds tag)); upd_bytes flds tag [] m = m;
    bytes_size s + length rest \<le> l; l < 2 ^ 63\<rbrakk> \<Longrightarrow>
   unmarshal_loop l flds (bytes_field tag s @ rest) m = unmarshal_loop l flds rest (upd_bytes flds tag s m)"
  by (simp_all add: unmarshal_uint unmarshal_bool unmarshal_bytes)

lemmas unmarshal_last = unmarshal_step [where rest = "[]", simplified append_Nil2]

lemma unmarshal_end [simp]: "unmarshal_loop l flds [] m = Inr m"
  by (simp add: unmarshal_loop.simps)

end
