(* ===== verification/Proto_Msgs.thy ===== *)
theory Proto_Msgs
  imports Proto_Wire Client_Store Sub_Store
begin

text \<open>
  The messages of \<open>spb/protocol.proto\<close> that the file store writes: \<open>Size\<close>, the bytes that
  \<open>MarshalToSizedBuffer\<close> writes, and \<open>Unmarshal\<close>. The interface \<open>proto_msg\<close> is what the file store relies
  on: \<open>Size\<close> is the length of the encoding, and decoding inverts it. Every message satisfies it.
\<close>

record spbSubStateDelete =
  sd_ID :: u64

record spbSubStateUpdate =
  su_ID :: u64
  su_Seqno :: u64

record spbClientDelete =
  cd_ID :: string

record spbServerInfo =
  si_ClusterID :: string
  si_Discovery :: string
  si_Publish :: string
  si_Subscribe :: string
  si_Unsubscribe :: string
  si_Close :: string
  si_SubClose :: string
  si_AcksSubs :: string
  si_NodeID :: string

text \<open>\<open>MarshalTo\<close>: the message is written at the end of the first \<open>Size\<close> bytes of the buffer; a panic is \<open>None\<close>.\<close>

definition MarshalTo :: "('m \<Rightarrow> nat) \<Rightarrow> ('m \<Rightarrow> bytes) \<Rightarrow> 'm \<Rightarrow> bytes \<Rightarrow> bytes option" where
  "MarshalTo size_of body m buf =
     (if size_of m > length buf \<or> length (body m) > size_of m then None
      else Some (take (size_of m - length (body m)) buf @ body m @ drop (size_of m) buf))"

section \<open>SubState\<close>

definition SubState_Size :: "spbSubState \<Rightarrow> nat" where
  "SubState_Size m =
     uint_size (ID m) + bytes_size (ClientID m) + bytes_size (QGroup m) + bytes_size (Inbox m) +
     bytes_size (AckInbox m) + uint_size (of_int (MaxInFlight m)) + uint_size (of_int (AckWaitInSecs m)) +
     bytes_size (DurableName m) + uint_size (LastSent m) + bool_size (IsDurable m) + bool_size (IsClosed m)"

definition SubState_bytes :: "spbSubState \<Rightarrow> bytes" where
  "SubState_bytes m =
     uint_field 0x8 (ID m) @ bytes_field 0x12 (ClientID m) @ bytes_field 0x1a (QGroup m) @
     bytes_field 0x22 (Inbox m) @ bytes_field 0x2a (AckInbox m) @ uint_field 0x30 (of_int (MaxInFlight m)) @
     uint_field 0x38 (of_int (AckWaitInSecs m)) @ bytes_field 0x42 (DurableName m) @
     uint_field 0x48 (LastSent m) @ bool_field 0x50 (IsDurable m) @ bool_field 0x58 (IsClosed m)"

definition zero_SubState :: spbSubState where
  "zero_SubState =
     \<lparr>ID = 0, ClientID = [], QGroup = [], Inbox = [], AckInbox = [], MaxInFlight = 0, AckWaitInSecs = 0,
      DurableName = [], LastSent = 0, IsDurable = False, IsClosed = False\<rparr>"

definition SubState_fields :: "int \<Rightarrow> spbSubState field option" where
  "SubState_fields n =
     (if n = 1 then Some (Varint_field (\<lambda>v m. m\<lparr>ID := v\<rparr>))
      else if n = 2 then Some (Bytes_field (\<lambda>v m. m\<lparr>ClientID := v\<rparr>))
      else if n = 3 then Some (Bytes_field (\<lambda>v m. m\<lparr>QGroup := v\<rparr>))
      else if n = 4 then Some (Bytes_field (\<lambda>v m. m\<lparr>Inbox := v\<rparr>))
      else if n = 5 then Some (Bytes_field (\<lambda>v m. m\<lparr>AckInbox := v\<rparr>))
      else if n = 6 then Some (Varint_field (\<lambda>v m. m\<lparr>MaxInFlight := i32 (uint v)\<rparr>))
      else if n = 7 then Some (Varint_field (\<lambda>v m. m\<lparr>AckWaitInSecs := i32 (uint v)\<rparr>))
      else if n = 8 then Some (Bytes_field (\<lambda>v m. m\<lparr>DurableName := v\<rparr>))
      else if n = 9 then Some (Varint_field (\<lambda>v m. m\<lparr>LastSent := v\<rparr>))
      else if n = 10 then Some (Varint_field (\<lambda>v m. m\<lparr>IsDurable := (v \<noteq> 0)\<rparr>))
      else if n = 11 then Some (Varint_field (\<lambda>v m. m\<lparr>IsClosed := (v \<noteq> 0)\<rparr>))
      else None)"

definition SubState_Unmarshal :: "bytes \<Rightarrow> proto_err + spbSubState" where
  "SubState_Unmarshal dAtA = unmarshal_loop (length dAtA) SubState_fields dAtA zero_SubState"

section \<open>SubStateDelete and SubStateUpdate\<close>

definition SubStateDelete_Size :: "spbSubStateDelete \<Rightarrow> nat" where
  "SubStateDelete_Size m = uint_size (sd_ID m)"

definition SubStateDelete_bytes :: "spbSubStateDelete \<Rightarrow> bytes" where
  "SubStateDelete_bytes m = uint_field 0x8 (sd_ID m)"

definition SubStateDelete_fields :: "int \<Rightarrow> spbSubStateDelete field option" where
  "SubStateDelete_fields n = (if n = 1 then Some (Varint_field (\<lambda>v m. m\<lparr>sd_ID := v\<rparr>)) else None)"

definition SubStateDelete_Unmarshal :: "bytes \<Rightarrow> proto_err + spbSubStateDelete" where
  "SubStateDelete_Unmarshal dAtA = unmarshal_loop (length dAtA) SubStateDelete_fields dAtA \<lparr>sd_ID = 0\<rparr>"

definition SubStateUpdate_Size :: "spbSubStateUpdate \<Rightarrow> nat" where
  "SubStateUpdate_Size m = uint_size (su_ID m) + uint_size (su_Seqno m)"

definition SubStateUpdate_bytes :: "spbSubStateUpdate \<Rightarrow> bytes" where
  "SubStateUpdate_bytes m = uint_field 0x8 (su_ID m) @ uint_field 0x10 (su_Seqno m)"

definition SubStateUpdate_fields :: "int \<Rightarrow> spbSubStateUpdate field option" where
  "SubStateUpdate_fields n =
     (if n = 1 then Some (Varint_field (\<lambda>v m. m\<lparr>su_ID := v\<rparr>))
      else if n = 2 then Some (Varint_field (\<lambda>v m. m\<lparr>su_Seqno := v\<rparr>))
      else None)"

definition SubStateUpdate_Unmarshal :: "bytes \<Rightarrow> proto_err + spbSubStateUpdate" where
  "SubStateUpdate_Unmarshal dAtA =
     unmarshal_loop (length dAtA) SubStateUpdate_fields dAtA \<lparr>su_ID = 0, su_Seqno = 0\<rparr>"

section \<open>ClientInfo and ClientDelete\<close>

definition ClientInfo_Size :: "clientInfo \<Rightarrow> nat" where
  "ClientInfo_Size m =
     bytes_size (ci_ID m) + bytes_size (ci_HbInbox m) + bytes_size (ci_ConnID m) +
     uint_size (of_int (ci_Protocol m)) + uint_size (of_int (ci_PingInterval m)) +
     uint_size (of_int (ci_PingMaxOut m))"

definition ClientInfo_bytes :: "clientInfo \<Rightarrow> bytes" where
  "ClientInfo_bytes m =
     bytes_field 0xa (ci_ID m) @ bytes_field 0x12 (ci_HbInbox m) @ bytes_field 0x1a (ci_ConnID m) @
     uint_field 0x20 (of_int (ci_Protocol m)) @ uint_field 0x28 (of_int (ci_PingInterval m)) @
     uint_field 0x30 (of_int (ci_PingMaxOut m))"

definition zero_ClientInfo :: clientInfo where
  "zero_ClientInfo =
     \<lparr>ci_ID = [], ci_HbInbox = [], ci_ConnID = [], ci_Protocol = 0, ci_PingInterval = 0, ci_PingMaxOut = 0\<rparr>"

definition ClientInfo_fields :: "int \<Rightarrow> clientInfo field option" where
  "ClientInfo_fields n =
     (if n = 1 then Some (Bytes_field (\<lambda>v m. m\<lparr>ci_ID := v\<rparr>))
      else if n = 2 then Some (Bytes_field (\<lambda>v m. m\<lparr>ci_HbInbox := v\<rparr>))
      else if n = 3 then Some (Bytes_field (\<lambda>v m. m\<lparr>ci_ConnID := v\<rparr>))
      else if n = 4 then Some (Varint_field (\<lambda>v m. m\<lparr>ci_Protocol := i32 (uint v)\<rparr>))
      else if n = 5 then Some (Varint_field (\<lambda>v m. m\<lparr>ci_PingInterval := i32 (uint v)\<rparr>))
      else if n = 6 then Some (Varint_field (\<lambda>v m. m\<lparr>ci_PingMaxOut := i32 (uint v)\<rparr>))
      else None)"

definition ClientInfo_Unmarshal :: "bytes \<Rightarrow> proto_err + clientInfo" where
  "ClientInfo_Unmarshal dAtA = unmarshal_loop (length dAtA) ClientInfo_fields dAtA zero_ClientInfo"

definition ClientDelete_Size :: "spbClientDelete \<Rightarrow> nat" where
  "ClientDelete_Size m = bytes_size (cd_ID m)"

definition ClientDelete_bytes :: "spbClientDelete \<Rightarrow> bytes" where
  "ClientDelete_bytes m = bytes_field 0xa (cd_ID m)"

definition ClientDelete_fields :: "int \<Rightarrow> spbClientDelete field option" where
  "ClientDelete_fields n = (if n = 1 then Some (Bytes_field (\<lambda>v m. m\<lparr>cd_ID := v\<rparr>)) else None)"

definition ClientDelete_Unmarshal :: "bytes \<Rightarrow> proto_err + spbClientDelete" where
  "ClientDelete_Unmarshal dAtA = unmarshal_loop (length dAtA) ClientDelete_fields dAtA \<lparr>cd_ID = []\<rparr>"

section \<open>ServerInfo\<close>

definition ServerInfo_Size :: "spbServerInfo \<Rightarrow> nat" where
  "ServerInfo_Size m =
     bytes_size (si_ClusterID m) + bytes_size (si_Discovery m) + bytes_size (si_Publish m) +
     bytes_size (si_Subscribe m) + bytes_size (si_Unsubscribe m) + bytes_size (si_Close m) +
     bytes_size (si_SubClose m) + bytes_size (si_AcksSubs m) + bytes_size (si_NodeID m)"

definition ServerInfo_bytes :: "spbServerInfo \<Rightarrow> bytes" where
  "ServerInfo_bytes m =
     bytes_field 0xa (si_ClusterID m) @ bytes_field 0x12 (si_Discovery m) @ bytes_field 0x1a (si_Publish m) @
     bytes_field 0x22 (si_Subscribe m) @ bytes_field 0x2a (si_Unsubscribe m) @ bytes_field 0x32 (si_Close m) @
     bytes_field 0x3a (si_SubClose m) @ bytes_field 0x42 (si_AcksSubs m) @ bytes_field 0x4a (si_NodeID m)"

definition zero_ServerInfo :: spbServerInfo where
  "zero_ServerInfo =
     \<lparr>si_ClusterID = [], si_Discovery = [], si_Publish = [], si_Subscribe = [], si_Unsubscribe = [],
      si_Close = [], si_SubClose = [], si_AcksSubs = [], si_NodeID = []\<rparr>"

definition ServerInfo_fields :: "int \<Rightarrow> spbServerInfo field option" where
  "ServerInfo_fields n =
     (if n = 1 then Some (Bytes_field (\<lambda>v m. m\<lparr>si_ClusterID := v\<rparr>))
      else if n = 2 then Some (Bytes_field (\<lambda>v m. m\<lparr>si_Discovery := v\<rparr>))
      else if n = 3 then Some (Bytes_field (\<lambda>v m. m\<lparr>si_Publish := v\<rparr>))
      else if n = 4 then Some (Bytes_field (\<lambda>v m. m\<lparr>si_Subscribe := v\<rparr>))
      else if n = 5 then Some (Bytes_field (\<lambda>v m. m\<lparr>si_Unsubscribe := v\<rparr>))
      else if n = 6 then Some (Bytes_field (\<lambda>v m. m\<lparr>si_Close := v\<rparr>))
      else if n = 7 then Some (Bytes_field (\<lambda>v m. m\<lparr>si_SubClose := v\<rparr>))
      else if n = 8 then Some (Bytes_field (\<lambda>v m. m\<lparr>si_AcksSubs := v\<rparr>))
      else if n = 9 then Some (Bytes_field (\<lambda>v m. m\<lparr>si_NodeID := v\<rparr>))
      else None)"

definition ServerInfo_Unmarshal :: "bytes \<Rightarrow> proto_err + spbServerInfo" where
  "ServerInfo_Unmarshal dAtA = unmarshal_loop (length dAtA) ServerInfo_fields dAtA zero_ServerInfo"

section \<open>The interface of a message\<close>

text \<open>The records of the store fit in a record of the file: their size has 24 bits.\<close>

definition int32 :: "int \<Rightarrow> bool" where
  "int32 x \<longleftrightarrow> - (2 ^ 31) \<le> x \<and> x < 2 ^ 31"

locale proto_msg =
  fixes ok :: "'m \<Rightarrow> bool" and size_of :: "'m \<Rightarrow> nat" and bytes_of :: "'m \<Rightarrow> bytes"
    and unmarshal :: "bytes \<Rightarrow> proto_err + 'm"
  assumes size_bytes: "length (bytes_of m) = size_of m"
    and unmarshal_bytes: "ok m \<Longrightarrow> size_of m < 2 ^ 63 \<Longrightarrow> unmarshal (bytes_of m) = Inr m"
begin

lemma marshal_fills: "length buf = size_of m \<Longrightarrow> MarshalTo size_of bytes_of m buf = Some (bytes_of m)"
  by (simp add: MarshalTo_def size_bytes)

lemma roundtrip:
  "ok m \<Longrightarrow> size_of m < 2 ^ 63 \<Longrightarrow> length buf = size_of m \<Longrightarrow>
   \<exists>dAtA. MarshalTo size_of bytes_of m buf = Some dAtA \<and> unmarshal dAtA = Inr m"
  by (simp add: marshal_fills unmarshal_bytes)

end

definition SubState_ok :: "spbSubState \<Rightarrow> bool" where
  "SubState_ok m \<longleftrightarrow> int32 (MaxInFlight m) \<and> int32 (AckWaitInSecs m)"

definition ClientInfo_ok :: "clientInfo \<Rightarrow> bool" where
  "ClientInfo_ok m \<longleftrightarrow> int32 (ci_Protocol m) \<and> int32 (ci_PingInterval m) \<and> int32 (ci_PingMaxOut m)"

lemma i32_of_int: "int32 x \<Longrightarrow> i32 (uint (of_int x :: u64)) = x"
proof -
  assume x: "int32 x"
  have "(x mod 2 ^ 64) mod 2 ^ 32 = x mod 2 ^ 32" by (rule mod_mod_cancel) (simp add: le_imp_power_dvd)
  then have "i32 (x mod 2 ^ 64) = i32 x" unfolding i32_def by (metis mod_add_left_eq)
  then show ?thesis using x by (simp add: int32_def uint_word_of_int)
qed

lemmas tag_simps = tag_of_def upd_varint_def upd_bytes_def unmarshal_step unmarshal_last SubState_fields_def SubStateDelete_fields_def SubStateUpdate_fields_def
  ClientInfo_fields_def ClientDelete_fields_def ServerInfo_fields_def

interpretation SubState: proto_msg SubState_ok SubState_Size SubState_bytes SubState_Unmarshal
proof
  fix m :: spbSubState
  show len: "length (SubState_bytes m) = SubState_Size m" by (simp add: SubState_bytes_def SubState_Size_def)
  assume m: "SubState_ok m" "SubState_Size m < 2 ^ 63"
  show "SubState_Unmarshal (SubState_bytes m) = Inr m"
    using m unfolding SubState_Unmarshal_def len
    by (simp add: SubState_bytes_def zero_SubState_def SubState_Size_def SubState_ok_def i32_of_int tag_simps)
qed

interpretation SubStateDelete: proto_msg "\<lambda>_. True" SubStateDelete_Size SubStateDelete_bytes SubStateDelete_Unmarshal
proof
  fix m
  show len: "length (SubStateDelete_bytes m) = SubStateDelete_Size m" by (simp add: SubStateDelete_bytes_def SubStateDelete_Size_def)
  assume m: "True" "SubStateDelete_Size m < 2 ^ 63"
  show "SubStateDelete_Unmarshal (SubStateDelete_bytes m) = Inr m"
    using m unfolding SubStateDelete_Unmarshal_def len
    by (simp add: SubStateDelete_bytes_def SubStateDelete_Size_def  tag_simps)
qed

interpretation SubStateUpdate: proto_msg "\<lambda>_. True" SubStateUpdate_Size SubStateUpdate_bytes SubStateUpdate_Unmarshal
proof
  fix m
  show len: "length (SubStateUpdate_bytes m) = SubStateUpdate_Size m" by (simp add: SubStateUpdate_bytes_def SubStateUpdate_Size_def)
  assume m: "True" "SubStateUpdate_Size m < 2 ^ 63"
  show "SubStateUpdate_Unmarshal (SubStateUpdate_bytes m) = Inr m"
    using m unfolding SubStateUpdate_Unmarshal_def len
    by (simp add: SubStateUpdate_bytes_def SubStateUpdate_Size_def  tag_simps)
qed

interpretation ClientInfo: proto_msg ClientInfo_ok ClientInfo_Size ClientInfo_bytes ClientInfo_Unmarshal
proof
  fix m
  show len: "length (ClientInfo_bytes m) = ClientInfo_Size m" by (simp add: ClientInfo_bytes_def ClientInfo_Size_def)
  assume m: "ClientInfo_ok m" "ClientInfo_Size m < 2 ^ 63"
  show "ClientInfo_Unmarshal (ClientInfo_bytes m) = Inr m"
    using m unfolding ClientInfo_Unmarshal_def len
    by (simp add: ClientInfo_bytes_def ClientInfo_Size_def zero_ClientInfo_def ClientInfo_ok_def i32_of_int tag_simps)
qed

interpretation ClientDelete: proto_msg "\<lambda>_. True" ClientDelete_Size ClientDelete_bytes ClientDelete_Unmarshal
proof
  fix m
  show len: "length (ClientDelete_bytes m) = ClientDelete_Size m" by (simp add: ClientDelete_bytes_def ClientDelete_Size_def)
  assume m: "True" "ClientDelete_Size m < 2 ^ 63"
  show "ClientDelete_Unmarshal (ClientDelete_bytes m) = Inr m"
    using m unfolding ClientDelete_Unmarshal_def len
    by (simp add: ClientDelete_bytes_def ClientDelete_Size_def  tag_simps)
qed

interpretation ServerInfo: proto_msg "\<lambda>_. True" ServerInfo_Size ServerInfo_bytes ServerInfo_Unmarshal
proof
  fix m
  show len: "length (ServerInfo_bytes m) = ServerInfo_Size m" by (simp add: ServerInfo_bytes_def ServerInfo_Size_def)
  assume m: "True" "ServerInfo_Size m < 2 ^ 63"
  show "ServerInfo_Unmarshal (ServerInfo_bytes m) = Inr m"
    using m unfolding ServerInfo_Unmarshal_def len
    by (simp add: ServerInfo_bytes_def ServerInfo_Size_def zero_ServerInfo_def tag_simps)
qed

lemma small_update: "SubStateUpdate_Size u < 2 ^ 63"
  using sovProtocol_le [of "su_ID u"] sovProtocol_le [of "su_Seqno u"]
  by (auto simp: SubStateUpdate_Size_def uint_size_def)

section \<open>The messages survive the file\<close>

text \<open>C23: Every record of the file store's clients, server and subscription files survives its encoding: the
  generated \<open>MarshalTo\<close>, given a buffer of \<open>Size\<close> bytes, fills all of it without leaving it (whatever the buffer held before),
  and \<open>Unmarshal\<close> of these bytes returns the message. The \<open>int32\<close> fields must be \<open>int32\<close> values.
\<close>

theorem store_messages_roundtrip:
  assumes "SubState_ok s" "SubState_Size s < 2 ^ 63" "length buf = SubState_Size s"
    and "ClientInfo_ok c" "ClientInfo_Size c < 2 ^ 63" "length buf' = ClientInfo_Size c"
    and "ServerInfo_Size i < 2 ^ 63" "length buf'' = ServerInfo_Size i"
  shows "map_option SubState_Unmarshal (MarshalTo SubState_Size SubState_bytes s buf) = Some (Inr s) \<and>
         map_option ClientInfo_Unmarshal (MarshalTo ClientInfo_Size ClientInfo_bytes c buf') = Some (Inr c) \<and>
         map_option ServerInfo_Unmarshal (MarshalTo ServerInfo_Size ServerInfo_bytes i buf'') = Some (Inr i) \<and>
         map_option SubStateUpdate_Unmarshal
           (MarshalTo SubStateUpdate_Size SubStateUpdate_bytes u (replicate (SubStateUpdate_Size u) b)) = Some (Inr u)"
  using SubState.roundtrip [OF assms(1-3)] ClientInfo.roundtrip [OF assms(4-6)]
    ServerInfo.roundtrip [OF TrueI assms(7,8)]
    SubStateUpdate.roundtrip [OF TrueI small_update length_replicate, of u b] by auto

definition sample_SubState :: spbSubState where
  "sample_SubState =
     \<lparr>ID = 300, ClientID = ''me'', QGroup = [], Inbox = ''in'', AckInbox = ''ack'', MaxInFlight = 1024,
      AckWaitInSecs = -1, DurableName = ''dur'', LastSent = 0, IsDurable = True, IsClosed = False\<rparr>"

theorem store_messages_roundtrip_witness:
  "map_option SubState_Unmarshal
     (MarshalTo SubState_Size SubState_bytes sample_SubState (replicate (SubState_Size sample_SubState) CHR ''x'')) =
   Some (Inr sample_SubState)"
proof -
  have "bytes_size s \<le> 11 + length s" "uint_size v \<le> 11" "bool_size b \<le> 2" for s v b
    using sovProtocol_le [of v] sovProtocol_le [of "of_nat (length s)"]
    by (auto simp: bytes_size_def uint_size_def bool_size_def)
  note sizes = this
  have "SubState_Size sample_SubState < 2 ^ 63"
    using sizes(1) [of "''me''"] sizes(1) [of "''in''"] sizes(1) [of "''ack''"] sizes(1) [of "''dur''"] sizes(1) [of "[]"]
      sizes(2) [of 300] sizes(2) [of "of_int 1024"] sizes(2) [of "of_int (- 1)"] sizes(2) [of 0]
      sizes(3) [of True] sizes(3) [of False]
    by (simp add: SubState_Size_def sample_SubState_def)
  moreover have "SubState_ok sample_SubState" by (simp add: SubState_ok_def sample_SubState_def int32_def)
  moreover have "ClientInfo_Size zero_ClientInfo < 2 ^ 63" "ServerInfo_Size zero_ServerInfo < 2 ^ 63"
    by (simp_all add: ClientInfo_Size_def ServerInfo_Size_def zero_ClientInfo_def zero_ServerInfo_def bytes_size_def uint_size_def)
  moreover have "ClientInfo_ok zero_ClientInfo" by (simp add: ClientInfo_ok_def zero_ClientInfo_def int32_def)
  ultimately show ?thesis
    using store_messages_roundtrip [of sample_SubState _ zero_ClientInfo _ zero_ServerInfo _ _ _, OF _ _ length_replicate _ _ length_replicate _ length_replicate]
    by blast
qed

end
