(* ===== verification/File_Records.thy ===== *)
theory File_Records
  imports Proto_Msgs Codec
begin

text \<open>
  The record format of the file store (\<open>stores/filestore.go\<close>): the version at the start of a file, \<open>writeRecord\<close>
  and \<open>readRecord\<close>, with the CRC-32 of \<open>hash/crc32\<close>. A reader is the list of bytes that are left. The reusable
  buffer that \<open>writeRecord\<close> is given holds arbitrary bytes \<open>old\<close>. A panic is \<open>None\<close>.
\<close>

section \<open>CRC-32\<close>

definition crc_bit :: "u32 \<Rightarrow> u32 \<Rightarrow> u32" where
  "crc_bit poly c = (if c AND 1 = 1 then drop_bit 1 c XOR poly else drop_bit 1 c)"

definition MakeTable :: "u32 \<Rightarrow> u32 list" where
  "MakeTable poly = map (\<lambda>i. (crc_bit poly ^^ 8) (of_nat i)) [0..<256]"

definition Checksum :: "u32 list \<Rightarrow> bytes \<Rightarrow> u32" where
  "Checksum tab p = NOT (fold (\<lambda>v crc. tab ! unat (take_bit 8 crc XOR of_char v) XOR drop_bit 8 crc) p (NOT 0))"

section \<open>Records\<close>

datatype rec_err =
    EOF
  | ErrUnexpectedEOF
  | ErrNeedRewind
  | ErrRecordSize
  | ErrCorrupted

definition fileVersion :: int where
  "fileVersion = 1"

definition checkFileVersion :: "bytes \<Rightarrow> bool" where
  "checkFileVersion f =
     (case ReadInt f of None \<Rightarrow> False | Some (fv, _) \<Rightarrow> \<not> (fv = 0 \<or> fv > fileVersion))"

definition recordHeaderSize :: nat where
  "recordHeaderSize = 8"

definition recNoType :: nat where
  "recNoType = 0"

definition writeRecord ::
  "u32 list \<Rightarrow> (nat \<Rightarrow> char) \<Rightarrow> nat \<Rightarrow> ('m \<Rightarrow> nat) \<Rightarrow> ('m \<Rightarrow> bytes) \<Rightarrow> 'm \<Rightarrow> bytes option" where
  "writeRecord tab old recType size_of bytes_of r =
     (let recSize = size_of r;
          totalSize = recordHeaderSize + recSize;
          headerFirstInt = (if recType \<noteq> recNoType then push_bit 24 recType OR recSize else recSize)
      in if recType \<noteq> recNoType \<and> recSize > 0xFFFFFF then None
         else case MarshalTo size_of bytes_of r (map old [recordHeaderSize..<totalSize]) of
           None \<Rightarrow> None
         | Some payload \<Rightarrow> Some (put_le 4 headerFirstInt @ put_le 4 (unat (Checksum tab payload)) @ payload))"

text \<open>\<open>io.ReadFull\<close> of \<open>n\<close> bytes.\<close>

definition ReadFull :: "nat \<Rightarrow> bytes \<Rightarrow> rec_err + bytes \<times> bytes" where
  "ReadFull n bs =
     (if n \<le> length bs then Inr (take n bs, drop n bs)
      else if bs = [] then Inl EOF else Inl ErrUnexpectedEOF)"

text \<open>The type and the payload of the next record, and the rest of the input.\<close>

definition readRecord ::
  "u32 list \<Rightarrow> bool \<Rightarrow> bool \<Rightarrow> nat \<Rightarrow> bytes \<Rightarrow> rec_err + nat \<times> bytes \<times> bytes" where
  "readRecord tab recTyped checkCRC expectedSize bs =
     (case ReadFull recordHeaderSize bs of
        Inl e \<Rightarrow> Inl e
      | Inr (header, bs1) \<Rightarrow>
          let firstInt = get_le (take 4 header);
              recType = (if recTyped then drop_bit 24 firstInt AND 0xFF else recNoType);
              recSize = (if recTyped then firstInt AND 0xFFFFFF else firstInt);
              crc = get_le (drop 4 header)
          in if recSize = 0 \<and> recType = 0 \<and> crc = 0 then Inl ErrNeedRewind
             else if expectedSize > 0 \<and> recSize \<noteq> expectedSize then Inl ErrRecordSize
             else case ReadFull recSize bs1 of
               Inl e \<Rightarrow> Inl e
             | Inr (payload, rest) \<Rightarrow>
                 if checkCRC \<and> unat (Checksum tab payload) \<noteq> crc then Inl ErrCorrupted
                 else Inr (recType, payload, rest))"

section \<open>Reading what was written\<close>

text \<open>The bytes of a record.\<close>

definition frame :: "u32 list \<Rightarrow> nat \<Rightarrow> bytes \<Rightarrow> bytes" where
  "frame tab t p = put_le 4 (t * 2 ^ 24 + length p) @ put_le 4 (unat (Checksum tab p)) @ p"

definition frame_ok :: "nat \<Rightarrow> bytes \<Rightarrow> bool" where
  "frame_ok t p \<longleftrightarrow> t < 256 \<and> (if t = 0 then p \<noteq> [] \<and> length p < 2 ^ 32 else length p < 2 ^ 24)"

lemma length_frame [simp]: "length (frame tab t p) = 8 + length p"
  by (simp add: frame_def)

lemma or_push_bit_add: "s < 2 ^ n \<Longrightarrow> push_bit n t OR s = t * 2 ^ n + (s::nat)"
proof -
  assume "s < 2 ^ n"
  then have "take_bit n s = s" by (simp add: take_bit_nat_eq_self)
  then have "bit s m \<Longrightarrow> m < n" for m by (metis bit_take_bit_iff)
  then have "push_bit n t OR s = push_bit n t + s"
    by (intro disjunctive_add [symmetric]) (use not_le in \<open>auto simp: bit_push_bit_iff_nat\<close>)
  then show ?thesis by (simp add: push_bit_nat_def)
qed

lemma writeRecord_frame:
  assumes "proto_msg ok size_of bytes_of unmarshal" "recType \<noteq> recNoType \<longrightarrow> size_of r \<le> 0xFFFFFF"
  shows "writeRecord tab old recType size_of bytes_of r = Some (frame tab recType (bytes_of r))"
proof -
  have "MarshalTo size_of bytes_of r (map old [recordHeaderSize..<recordHeaderSize + size_of r]) = Some (bytes_of r)"
    by (rule proto_msg.marshal_fills [OF assms(1)]) simp
  then show ?thesis
    using assms(2) or_push_bit_add [of "size_of r" 24 recType] proto_msg.size_bytes [OF assms(1), of r]
    by (auto simp: writeRecord_def Let_def frame_def recNoType_def)
qed

lemma get_crc: "get_le (put_le 4 (unat (c::u32))) = unat c"
  using unsigned_less [of c, where ?'a = nat] by (simp add: get_put_le)

lemma Checksum_Nil [simp]: "Checksum tab [] = 0"
  by (simp add: Checksum_def)

lemma frame_header:
  assumes "frame_ok t p" "typed \<longleftrightarrow> t \<noteq> 0" "F = t * 2 ^ 24 + length p"
  shows "get_le (put_le 4 F) = F"
    "(if typed then drop_bit 24 F AND 0xFF else recNoType) = t"
    "(if typed then F AND 0xFFFFFF else F) = length p"
proof -
  have "F < 256 ^ 4" using assms by (auto simp: frame_ok_def split: if_splits)
  then show "get_le (put_le 4 F) = F" by (simp add: get_put_le)
  have "drop_bit 24 F AND mask 8 = t" if "t \<noteq> 0"
    using that assms by (simp add: frame_ok_def drop_bit_nat_def take_bit_nat_eq_self flip: take_bit_eq_mask)
  then show "(if typed then drop_bit 24 F AND 0xFF else recNoType) = t"
    using assms(2) by (simp add: mask_eq_exp_minus_1 recNoType_def)
  have "F AND mask 24 = length p" if "t \<noteq> 0"
    using that assms by (simp add: frame_ok_def take_bit_nat_def flip: take_bit_eq_mask)
  then show "(if typed then F AND 0xFFFFFF else F) = length p"
    using assms by (auto simp: mask_eq_exp_minus_1)
qed

text \<open>What \<open>readRecord\<close> does after the header of a record.\<close>

lemma readRecord_header:
  assumes "frame_ok t p" "typed \<longleftrightarrow> t \<noteq> 0" "expected = 0 \<or> expected = length p"
  shows "readRecord tab typed chk expected (put_le 4 (t * 2 ^ 24 + length p) @ put_le 4 (unat (Checksum tab p)) @ bs) =
    (case ReadFull (length p) bs of
       Inl e \<Rightarrow> Inl e
     | Inr (payload, rest) \<Rightarrow>
         if chk \<and> unat (Checksum tab payload) \<noteq> unat (Checksum tab p) then Inl ErrCorrupted else Inr (t, payload, rest))"
proof -
  define F where F: "F = t * 2 ^ 24 + length p"
  have header: "ReadFull recordHeaderSize (put_le 4 F @ put_le 4 (unat (Checksum tab p)) @ bs) =
      Inr (put_le 4 F @ put_le 4 (unat (Checksum tab p)), bs)"
    by (simp add: ReadFull_def recordHeaderSize_def)
  have parts: "take 4 (put_le 4 x @ y) = put_le 4 x" "drop 4 (put_le 4 x @ y) = y" for x y by simp_all
  have "\<not> (length p = 0 \<and> t = 0)" "\<not> (expected > 0 \<and> length p \<noteq> expected)"
    using assms by (auto simp: frame_ok_def)
  then show ?thesis
    unfolding readRecord_def Let_def F [symmetric] header sum.case prod.case parts frame_header [OF assms(1,2) F] get_crc
    by auto
qed

lemma readRecord_frame:
  assumes "frame_ok t p" "typed \<longleftrightarrow> t \<noteq> 0" "expected = 0 \<or> expected = length p"
  shows "readRecord tab typed chk expected (frame tab t p @ rest) = Inr (t, p, rest)"
  unfolding frame_def append_assoc readRecord_header [OF assms] by (simp add: ReadFull_def)

text \<open>A record that is cut off is the end of the input, or an unexpected one.\<close>

definition torn :: "nat \<Rightarrow> rec_err" where
  "torn n = (if n = 0 \<or> n = 8 then EOF else ErrUnexpectedEOF)"

lemma readRecord_torn:
  assumes "frame_ok t p" "typed \<longleftrightarrow> t \<noteq> 0" "n < 8 + length p"
  shows "readRecord tab typed chk 0 (take n (frame tab t p)) = Inl (torn n)"
proof (cases "n < 8")
  case True
  then have "ReadFull recordHeaderSize (take n (frame tab t p)) = Inl (torn n)"
    using length_frame [of tab t p] by (cases "frame tab t p") (auto simp: ReadFull_def recordHeaderSize_def torn_def)
  then show ?thesis by (simp add: readRecord_def)
next
  case False
  then have "take n (frame tab t p) = put_le 4 (t * 2 ^ 24 + length p) @ put_le 4 (unat (Checksum tab p)) @ take (n - 8) p"
    by (simp add: frame_def)
  moreover have "ReadFull (length p) (take (n - 8) p) = Inl (torn n)"
    using False assms(3) by (auto simp: ReadFull_def torn_def)
  ultimately show ?thesis by (simp only: readRecord_header [OF assms(1,2), of 0] simp_thms sum.case)
qed

lemma readRecord_empty: "readRecord tab typed chk expected [] = Inl EOF"
  by (simp add: readRecord_def ReadFull_def recordHeaderSize_def)

lemma readRecord_shorter: "readRecord tab typed chk e bs = Inr (t, p, rest) \<Longrightarrow> length rest < length bs"
  by (auto simp: readRecord_def ReadFull_def recordHeaderSize_def Let_def split: if_splits sum.splits)

end
