(* ===== verification/File_Options.thy ===== *)
theory File_Options
  imports File_Records
begin

text \<open>
  The options of the file store (\<open>FileStoreOptions\<close> in \<open>stores/filestore.go\<close>): each option function
  validates its value, and \<open>AllOptions\<close> applies them in sequence to the options that are given.
\<close>

record FileStoreOptions =
  o_BufferSize :: int
  o_CompactEnabled :: bool
  o_CompactInterval :: int
  o_CompactFragmentation :: int
  o_CompactMinFileSize :: int
  o_DoCRC :: bool
  o_CRCPolynomial :: int
  o_DoSync :: bool
  o_SliceMaxMsgs :: int
  o_SliceMaxBytes :: int
  o_SliceMaxAge :: int
  o_SliceArchiveScript :: string
  o_FileDescriptorsLimit :: int
  o_ParallelRecovery :: int
  o_TruncateUnexpectedEOF :: bool
  o_ReadBufferSize :: int
  o_AutoSync :: int

definition DefaultFileStoreOptions :: FileStoreOptions where
  "DefaultFileStoreOptions =
     \<lparr>o_BufferSize = 2 * 1024 * 1024, o_CompactEnabled = True, o_CompactInterval = 5 * 60,
      o_CompactFragmentation = 50, o_CompactMinFileSize = 1024 * 1024, o_DoCRC = True,
      o_CRCPolynomial = 0xedb88320, o_DoSync = True, o_SliceMaxMsgs = 0, o_SliceMaxBytes = 64 * 1024 * 1024,
      o_SliceMaxAge = 0, o_SliceArchiveScript = [], o_FileDescriptorsLimit = 0, o_ParallelRecovery = 1,
      o_TruncateUnexpectedEOF = False, o_ReadBufferSize = 2 * 1024 * 1024, o_AutoSync = 60 * 1000000000\<rparr>"

text \<open>An option function returns an error, here \<open>None\<close>, or the changed options.\<close>

type_synonym file_option = "FileStoreOptions \<Rightarrow> FileStoreOptions option"

definition BufferSize :: "int \<Rightarrow> file_option" where
  "BufferSize sz fo = (if sz < 0 then None else Some (fo\<lparr>o_BufferSize := sz\<rparr>))"

definition ReadBufferSize :: "int \<Rightarrow> file_option" where
  "ReadBufferSize sz fo = (if sz < 0 then None else Some (fo\<lparr>o_ReadBufferSize := sz\<rparr>))"

definition CompactEnabled :: "bool \<Rightarrow> file_option" where
  "CompactEnabled enabled fo = Some (fo\<lparr>o_CompactEnabled := enabled\<rparr>)"

definition CompactInterval :: "int \<Rightarrow> file_option" where
  "CompactInterval seconds fo = (if seconds \<le> 0 then None else Some (fo\<lparr>o_CompactInterval := seconds\<rparr>))"

definition CompactFragmentation :: "int \<Rightarrow> file_option" where
  "CompactFragmentation frag fo = (if frag \<le> 0 then None else Some (fo\<lparr>o_CompactFragmentation := frag\<rparr>))"

definition CompactMinFileSize :: "int \<Rightarrow> file_option" where
  "CompactMinFileSize fileSize fo = (if fileSize < 0 then None else Some (fo\<lparr>o_CompactMinFileSize := fileSize\<rparr>))"

definition DoCRC :: "bool \<Rightarrow> file_option" where
  "DoCRC enableCRC fo = Some (fo\<lparr>o_DoCRC := enableCRC\<rparr>)"

definition CRCPolynomial :: "int \<Rightarrow> file_option" where
  "CRCPolynomial polynomial fo =
     (if polynomial \<le> 0 \<or> polynomial > 0xFFFFFFFF then None else Some (fo\<lparr>o_CRCPolynomial := polynomial\<rparr>))"

definition DoSync :: "bool \<Rightarrow> file_option" where
  "DoSync enableFileSync fo = Some (fo\<lparr>o_DoSync := enableFileSync\<rparr>)"

definition AutoSync :: "int \<Rightarrow> file_option" where
  "AutoSync dur fo = Some (fo\<lparr>o_AutoSync := dur\<rparr>)"

definition SliceConfig :: "int \<Rightarrow> int \<Rightarrow> int \<Rightarrow> string \<Rightarrow> file_option" where
  "SliceConfig maxMsgs maxBytes maxAge script fo =
     (if maxMsgs < 0 \<or> maxBytes < 0 \<or> maxAge < 0 then None
      else Some (fo\<lparr>o_SliceMaxMsgs := maxMsgs, o_SliceMaxBytes := maxBytes, o_SliceMaxAge := maxAge,
                   o_SliceArchiveScript := script\<rparr>))"

definition FileDescriptorsLimit :: "int \<Rightarrow> file_option" where
  "FileDescriptorsLimit limit fo = (if limit < 0 then None else Some (fo\<lparr>o_FileDescriptorsLimit := limit\<rparr>))"

definition ParallelRecovery :: "int \<Rightarrow> file_option" where
  "ParallelRecovery cnt fo = (if cnt \<le> 0 then None else Some (fo\<lparr>o_ParallelRecovery := cnt\<rparr>))"

definition TruncateUnexpectedEOF :: "bool \<Rightarrow> file_option" where
  "TruncateUnexpectedEOF trunc fo = Some (fo\<lparr>o_TruncateUnexpectedEOF := trunc\<rparr>)"

fun apply_options :: "file_option list \<Rightarrow> file_option" where
  "apply_options [] fo = Some fo"
| "apply_options (f # fs) fo = (case f fo of None \<Rightarrow> None | Some fo' \<Rightarrow> apply_options fs fo')"

definition AllOptions :: "FileStoreOptions \<Rightarrow> file_option" where
  "AllOptions opts fo =
     map_option
       (\<lambda>fo. fo\<lparr>o_CompactEnabled := o_CompactEnabled opts, o_DoCRC := o_DoCRC opts, o_DoSync := o_DoSync opts,
               o_TruncateUnexpectedEOF := o_TruncateUnexpectedEOF opts\<rparr>)
       (apply_options
         [BufferSize (o_BufferSize opts), CompactInterval (o_CompactInterval opts),
          CompactFragmentation (o_CompactFragmentation opts), CompactMinFileSize (o_CompactMinFileSize opts),
          CRCPolynomial (o_CRCPolynomial opts),
          SliceConfig (o_SliceMaxMsgs opts) (o_SliceMaxBytes opts) (o_SliceMaxAge opts) (o_SliceArchiveScript opts),
          FileDescriptorsLimit (o_FileDescriptorsLimit opts), ParallelRecovery (o_ParallelRecovery opts),
          ReadBufferSize (o_ReadBufferSize opts), AutoSync (o_AutoSync opts)] fo)"

text \<open>The CRC table that \<open>NewFileStore\<close> makes from the polynomial; \<open>IEEETable\<close> is the table of that polynomial.\<close>

definition crcTable :: "FileStoreOptions \<Rightarrow> u32 list" where
  "crcTable fo = MakeTable (word_of_int (o_CRCPolynomial fo))"

section \<open>Validation\<close>

definition valid_options :: "FileStoreOptions \<Rightarrow> bool" where
  "valid_options fo \<longleftrightarrow>
     0 \<le> o_BufferSize fo \<and> 0 \<le> o_ReadBufferSize fo \<and> 0 < o_CompactInterval fo \<and> 0 < o_CompactFragmentation fo \<and>
     0 \<le> o_CompactMinFileSize fo \<and> 0 < o_CRCPolynomial fo \<and> o_CRCPolynomial fo \<le> 0xFFFFFFFF \<and>
     0 \<le> o_SliceMaxMsgs fo \<and> 0 \<le> o_SliceMaxBytes fo \<and> 0 \<le> o_SliceMaxAge fo \<and>
     0 \<le> o_FileDescriptorsLimit fo \<and> 0 < o_ParallelRecovery fo"

lemmas option_defs = BufferSize_def ReadBufferSize_def CompactEnabled_def CompactInterval_def
  CompactFragmentation_def CompactMinFileSize_def DoCRC_def CRCPolynomial_def DoSync_def AutoSync_def
  SliceConfig_def FileDescriptorsLimit_def ParallelRecovery_def TruncateUnexpectedEOF_def

text \<open>\<open>AllOptions\<close> accepts exactly the options whose values are all in the documented ranges, and then every one of
  the options takes the given value; the default options are accepted.
\<close>

theorem AllOptions_exact:
  "AllOptions opts fo = (if valid_options opts then Some opts else None) \<and> valid_options DefaultFileStoreOptions"
  by (cases opts, cases fo)
    (auto simp: AllOptions_def valid_options_def option_defs DefaultFileStoreOptions_def)

end
