(* ===== verification/File_Journal.thy ===== *)
theory File_Journal
  imports File_Options
begin

text \<open>
  The loop that \<open>recoverClients\<close> and \<open>recoverSubscriptions\<close> share (\<open>stores/filestore.go\<close>): it reads the records of a
  file in order, hands each to the store, and deals with the end of the file. The interface \<open>journal\<close> says what
  a file of records promises to its store: the records of a sequence of operations replay these operations, and
  a file that a crash has cut off anywhere replays the longest prefix of operations whose records are complete.
\<close>

datatype file_err =
    ErrRecord rec_err
  | ErrUnmarshal proto_err
  | ErrRecType nat
  | ErrFileSize
  | ErrFile
  | ErrPanic

text \<open>The handling of an error of \<open>readRecord\<close>: the offset to truncate the file to, if any.\<close>

definition handleUnexpectedEOF :: "FileStoreOptions \<Rightarrow> bool \<Rightarrow> rec_err \<Rightarrow> nat \<Rightarrow> file_err + nat option" where
  "handleUnexpectedEOF opts truncated err offset =
     (if err = ErrUnexpectedEOF \<and> o_TruncateUnexpectedEOF opts
      then if truncated then Inr (Some offset) else Inl ErrFile
      else Inl (ErrRecord err))"

definition end_of_file :: "FileStoreOptions \<Rightarrow> bool \<Rightarrow> rec_err \<Rightarrow> nat \<Rightarrow> file_err + nat option" where
  "end_of_file opts truncated err offset =
     (if err = EOF then Inr None
      else if err = ErrNeedRewind then if truncated then Inr (Some offset) else Inl ErrFile
      else handleUnexpectedEOF opts truncated err offset)"

text \<open>\<open>record\<close> is the \<open>switch recType\<close> of the store, on the type and the payload of a record.\<close>

function recover_loop ::
  "FileStoreOptions \<Rightarrow> bool \<Rightarrow> (nat \<Rightarrow> bytes \<Rightarrow> 's \<Rightarrow> file_err + 's) \<Rightarrow> bytes \<Rightarrow> nat \<Rightarrow> 's \<Rightarrow> file_err + 's \<times> nat option" where
  "recover_loop opts truncated rec bs offset s =
     (case readRecord (crcTable opts) True (o_DoCRC opts) 0 bs of
        Inl e \<Rightarrow> (case end_of_file opts truncated e offset of Inl e \<Rightarrow> Inl e | Inr t \<Rightarrow> Inr (s, t))
      | Inr (recType, payload, rest) \<Rightarrow>
          (case rec recType payload s of
             Inl e \<Rightarrow> Inl e
           | Inr s' \<Rightarrow> recover_loop opts truncated rec rest (offset + (length payload + recordHeaderSize)) s'))"
  by auto
termination
  by (relation "measure (\<lambda>(_, _, _, bs, _). length bs)") (auto dest: readRecord_shorter)

declare recover_loop.simps [simp del]

text \<open>What is left of a file after recovery.\<close>

definition truncate_to :: "nat option \<Rightarrow> bytes \<Rightarrow> bytes" where
  "truncate_to t f = (case t of None \<Rightarrow> f | Some n \<Rightarrow> take n f)"

section \<open>Journals of operations\<close>

definition frames :: "u32 list \<Rightarrow> (nat \<times> bytes) list \<Rightarrow> bytes" where
  "frames tab rs = concat (map (\<lambda>(t, p). frame tab t p) rs)"

definition rec_ok :: "nat \<times> bytes \<Rightarrow> bool" where
  "rec_ok r \<longleftrightarrow> fst r \<noteq> 0 \<and> frame_ok (fst r) (snd r)"

lemma frames_simps [simp]:
  "frames tab [] = []" "frames tab ((t, p) # rs) = frame tab t p @ frames tab rs"
  "frames tab (rs @ rs') = frames tab rs @ frames tab rs'"
  by (simp_all add: frames_def)

locale journal =
  fixes enc :: "'op \<Rightarrow> nat \<times> bytes" and rec :: "nat \<Rightarrow> bytes \<Rightarrow> 's \<Rightarrow> file_err + 's"
    and exec :: "'op \<Rightarrow> 's \<Rightarrow> 's" and good :: "'op \<Rightarrow> bool"
  assumes enc_ok: "good op \<Longrightarrow> rec_ok (enc op)"
    and rec_enc: "good op \<Longrightarrow> rec (fst (enc op)) (snd (enc op)) s = Inr (exec op s)"
begin

lemma recover_step:
  assumes "good op"
  shows "recover_loop opts tr rec (frame (crcTable opts) (fst (enc op)) (snd (enc op)) @ rest) off s =
    recover_loop opts tr rec rest (off + (8 + length (snd (enc op)))) (exec op s)"
  using enc_ok [OF assms] rec_enc [OF assms]
  by (subst recover_loop.simps) (simp add: readRecord_frame rec_ok_def recordHeaderSize_def add.commute)

lemma recover_app:
  assumes "\<forall>op \<in> set ops. good op"
  shows "recover_loop opts tr rec (frames (crcTable opts) (map enc ops) @ rest) off s =
    recover_loop opts tr rec rest (off + length (frames (crcTable opts) (map enc ops))) (fold exec ops s)"
  using assms
proof (induction ops arbitrary: off s)
  case (Cons op ops)
  then show ?case using recover_step [of op opts tr] by (cases "enc op") (simp add: ac_simps)
qed simp

lemma recover_all:
  assumes "\<forall>op \<in> set ops. good op"
  shows "recover_loop opts tr rec (frames (crcTable opts) (map enc ops)) off s = Inr (fold exec ops s, None)"
  using recover_app [OF assms, of opts tr "[]"] recover_loop.simps [of opts tr rec "[]"]
  by (simp add: readRecord_empty end_of_file_def)

text \<open>A file that is cut off after \<open>n\<close> bytes.\<close>

lemma recover_torn:
  assumes "\<forall>op \<in> set ops. good op" "n < length (frames (crcTable opts) (map enc ops))" "o_TruncateUnexpectedEOF opts"
  shows "\<exists>k < length ops. \<exists>t.
     recover_loop opts True rec (take n (frames (crcTable opts) (map enc ops))) off s = Inr (fold exec (take k ops) s, t) \<and>
     length (frames (crcTable opts) (map enc (take k ops))) \<le> n \<and>
     n < length (frames (crcTable opts) (map enc (take (Suc k) ops))) \<and>
     t = (if n \<in> {length (frames (crcTable opts) (map enc (take k ops))), 8 + length (frames (crcTable opts) (map enc (take k ops)))}
          then None else Some (off + length (frames (crcTable opts) (map enc (take k ops)))))"
  using assms(1,2)
proof (induction ops arbitrary: n off s)
  case (Cons op ops)
  obtain t p where e: "enc op = (t, p)" by (cases "enc op")
  have ok: "frame_ok t p" "t \<noteq> 0" using enc_ok [of op] Cons(2) e by (auto simp: rec_ok_def)
  show ?case
  proof (cases "n < 8 + length p")
    case True
    have "readRecord (crcTable opts) True (o_DoCRC opts) 0 (take n (frame (crcTable opts) t p)) = Inl (torn n)"
      using ok True by (intro readRecord_torn) auto
    then show ?thesis using True e assms(3)
      by (intro exI [of _ 0]) (auto simp: recover_loop.simps torn_def end_of_file_def handleUnexpectedEOF_def)
  next
    case False
    define m where "m = n - (8 + length p)"
    have n: "n = 8 + length p + m" using False by (simp add: m_def)
    have "m < length (frames (crcTable opts) (map enc ops))" using Cons(3) e n by simp
    from Cons(1) [OF _ this, of "off + (8 + length p)" "exec op s"] Cons(2)
    obtain k u where k: "k < length ops"
      "recover_loop opts True rec (take m (frames (crcTable opts) (map enc ops))) (off + (8 + length p)) (exec op s) =
         Inr (fold exec (take k ops) (exec op s), u)"
      "length (frames (crcTable opts) (map enc (take k ops))) \<le> m"
      "m < length (frames (crcTable opts) (map enc (take (Suc k) ops)))"
      "u = (if m \<in> {length (frames (crcTable opts) (map enc (take k ops))), 8 + length (frames (crcTable opts) (map enc (take k ops)))}
          then None else Some (off + (8 + length p) + length (frames (crcTable opts) (map enc (take k ops)))))"
      by auto
    then show ?thesis using n e recover_step [of op opts True "take m (frames (crcTable opts) (map enc ops))" off s] Cons(2)
      by (intro exI [of _ "Suc k"]) auto
  qed
qed simp

end

end
