(* ===== verification/File_Clients.thy ===== *)
theory File_Clients
  imports File_Journal
begin

text \<open>
  The clients and the server information in the file store (\<open>FileStore\<close> in \<open>stores/filestore.go\<close>): every change of the
  clients appends a record to the clients file, the file is rewritten when too much of it is obsolete, and
  recovery replays it. A file is the bytes it holds, the version included. The outcomes of the system calls and the
  order in which Go ranges over the map of clients are parameters (\<open>file_env\<close>).
\<close>

section \<open>State and environment\<close>

record file_store =
  f_opts :: FileStoreOptions
  f_clients :: "(string, clientInfo) gomap"
  f_cliDisk :: bytes
  f_cliFileSize :: int
  f_cliDeleteRecs :: int
  f_cliCompactTS :: int
  f_srvDisk :: bytes

text \<open>A write succeeds, or fails after it has written some bytes.\<close>

datatype wr = Written | Failed nat

fun file_write :: "wr \<Rightarrow> bytes \<Rightarrow> bytes \<Rightarrow> bool \<times> bytes" where
  "file_write Written bs f = (True, f @ bs)"
| "file_write (Failed n) bs f = (False, f @ take n bs)"

record file_env =
  e_lock :: bool
  e_write :: wr
  e_close :: bool
  e_compact :: bool
  e_now :: int
  e_old :: "nat \<Rightarrow> char"
  e_order :: "clientInfo list \<Rightarrow> clientInfo list"

definition new_file_store :: "FileStoreOptions \<Rightarrow> file_store" where
  "new_file_store opts =
     \<lparr>f_opts = opts, f_clients = [], f_cliDisk = WriteInt fileVersion, f_cliFileSize = 0,
      f_cliDeleteRecs = 0, f_cliCompactTS = 0, f_srvDisk = WriteInt fileVersion\<rparr>"

definition addClient :: nat where "addClient = 1"
definition delClient :: nat where "delClient = 2"

section \<open>Recovery of the clients\<close>

definition client_record :: "nat \<Rightarrow> bytes \<Rightarrow> file_store \<Rightarrow> file_err + file_store" where
  "client_record recType buf fs =
     (let fs = fs\<lparr>f_cliFileSize := f_cliFileSize fs + int (length buf + recordHeaderSize)\<rparr>
      in if recType = addClient then
           (case ClientInfo_Unmarshal buf of
              Inl e \<Rightarrow> Inl (ErrUnmarshal e)
            | Inr c \<Rightarrow> Inr (fs\<lparr>f_clients := mput (ci_ID c) c (f_clients fs)\<rparr>))
         else if recType = delClient then
           (case ClientDelete_Unmarshal buf of
              Inl e \<Rightarrow> Inl (ErrUnmarshal e)
            | Inr c \<Rightarrow> Inr (fs\<lparr>f_clients := mdel (cd_ID c) (f_clients fs), f_cliDeleteRecs := f_cliDeleteRecs fs + 1\<rparr>))
         else Inl (ErrRecType recType))"

definition file_recoverClients :: "bool \<Rightarrow> file_store \<Rightarrow> file_err + clientInfo list \<times> file_store" where
  "file_recoverClients truncated fs =
     (case recover_loop (f_opts fs) truncated client_record (drop 4 (f_cliDisk fs)) 4 fs of
        Inl e \<Rightarrow> Inl e
      | Inr (fs', t) \<Rightarrow> Inr (map snd (f_clients fs'), fs'\<lparr>f_cliDisk := truncate_to t (f_cliDisk fs')\<rparr>))"

section \<open>Changes of the clients\<close>

definition file_AddClient :: "file_env \<Rightarrow> clientInfo \<Rightarrow> file_store \<Rightarrow> (file_err + clientInfo) \<times> file_store" where
  "file_AddClient e info fs =
     (if \<not> e_lock e then (Inl ErrFile, fs)
      else case writeRecord (crcTable (f_opts fs)) (e_old e) addClient ClientInfo_Size ClientInfo_bytes info of
        None \<Rightarrow> (Inl ErrPanic, fs)
      | Some bs \<Rightarrow>
          let (ok, disk) = file_write (e_write e) bs (f_cliDisk fs); fs = fs\<lparr>f_cliDisk := disk\<rparr>
          in if \<not> ok then (Inl ErrFile, fs)
             else (Inr info, fs\<lparr>f_cliFileSize := f_cliFileSize fs + int (length bs),
                               f_clients := mput (ci_ID info) info (f_clients fs)\<rparr>))"

definition shouldCompactClientFile :: "int \<Rightarrow> file_store \<Rightarrow> bool" where
  "shouldCompactClientFile now fs =
     (if \<not> o_CompactEnabled (f_opts fs) then False
      else if o_CompactMinFileSize (f_opts fs) > 0 \<and> f_cliFileSize fs < o_CompactMinFileSize (f_opts fs) then False
      else
        let frag = f_cliDeleteRecs fs * 100 div (f_cliDeleteRecs fs + int (length (f_clients fs)))
        in if frag < o_CompactFragmentation (f_opts fs) then False
           else \<not> (now - f_cliCompactTS fs < o_CompactInterval (f_opts fs) * 1000000000))"

fun compact_clients :: "file_env \<Rightarrow> u32 list \<Rightarrow> clientInfo list \<Rightarrow> bytes option" where
  "compact_clients e tab [] = Some []"
| "compact_clients e tab (c # cs) =
     (case writeRecord tab (e_old e) addClient ClientInfo_Size ClientInfo_bytes c of
        None \<Rightarrow> None
      | Some bs \<Rightarrow> map_option (\<lambda>r. bs @ r) (compact_clients e tab cs))"

definition getTempFile :: bytes where
  "getTempFile = WriteInt fileVersion"

definition compactClientFile :: "file_env \<Rightarrow> file_store \<Rightarrow> (file_err + unit) \<times> file_store" where
  "compactClientFile e fs =
     (if \<not> e_compact e then (Inl ErrFile, fs)
      else case compact_clients e (crcTable (f_opts fs)) (e_order e (map snd (f_clients fs))) of
        None \<Rightarrow> (Inl ErrPanic, fs)
      | Some bs \<Rightarrow>
          (Inr (), fs\<lparr>f_cliDisk := getTempFile @ bs, f_cliDeleteRecs := 0, f_cliFileSize := int (length bs),
                     f_cliCompactTS := e_now e\<rparr>))"

definition file_DeleteClient :: "file_env \<Rightarrow> string \<Rightarrow> file_store \<Rightarrow> (file_err + unit) \<times> file_store" where
  "file_DeleteClient e clientID fs =
     (if \<not> e_lock e then (Inl ErrFile, fs)
      else case writeRecord (crcTable (f_opts fs)) (e_old e) delClient ClientDelete_Size ClientDelete_bytes \<lparr>cd_ID = clientID\<rparr> of
        None \<Rightarrow> (Inl ErrPanic, fs)
      | Some bs \<Rightarrow>
          let (ok, disk) = file_write (e_write e) bs (f_cliDisk fs);
              fs = fs\<lparr>f_cliDisk := disk, f_clients := mdel clientID (f_clients fs),
                     f_cliDeleteRecs := f_cliDeleteRecs fs + 1,
                     f_cliFileSize := f_cliFileSize fs + (if ok then int (length bs) else 0)\<rparr>
          in if shouldCompactClientFile (e_now e) fs
             then if \<not> e_close e then (Inl ErrFile, fs) else compactClientFile e fs
             else (if ok then Inr () else Inl ErrFile, fs))"

section \<open>Server information\<close>

definition file_Init :: "file_env \<Rightarrow> spbServerInfo \<Rightarrow> file_store \<Rightarrow> (file_err + unit) \<times> file_store" where
  "file_Init e info fs =
     (if \<not> e_lock e then (Inl ErrFile, fs)
      else
        let fs = fs\<lparr>f_srvDisk := take 4 (f_srvDisk fs)\<rparr>
        in case writeRecord (crcTable (f_opts fs)) (e_old e) recNoType ServerInfo_Size ServerInfo_bytes info of
             None \<Rightarrow> (Inl ErrPanic, fs)
           | Some bs \<Rightarrow>
               let (ok, disk) = file_write (e_write e) bs (f_srvDisk fs)
               in (if ok then Inr () else Inl ErrFile, fs\<lparr>f_srvDisk := disk\<rparr>))"

definition recoverServerInfo :: "file_store \<Rightarrow> file_err + spbServerInfo option" where
  "recoverServerInfo fs =
     (case readRecord (crcTable (f_opts fs)) False (o_DoCRC (f_opts fs)) 0 (drop 4 (f_srvDisk fs)) of
        Inl e \<Rightarrow> if e = EOF then Inr None else Inl (ErrRecord e)
      | Inr (_, buf, _) \<Rightarrow>
          if length (f_srvDisk fs) \<noteq> length buf + 4 + recordHeaderSize then Inl ErrFileSize
          else case ServerInfo_Unmarshal buf of
            Inl e \<Rightarrow> Inl (ErrUnmarshal e)
          | Inr info \<Rightarrow> Inr (Some info))"

section \<open>The clients file as a journal\<close>

datatype cli_rec = Rec_add clientInfo | Rec_del string

fun cli_enc :: "cli_rec \<Rightarrow> nat \<times> bytes" where
  "cli_enc (Rec_add c) = (addClient, ClientInfo_bytes c)"
| "cli_enc (Rec_del i) = (delClient, ClientDelete_bytes \<lparr>cd_ID = i\<rparr>)"

fun cli_exec :: "cli_rec \<Rightarrow> file_store \<Rightarrow> file_store" where
  "cli_exec (Rec_add c) fs =
     fs\<lparr>f_cliFileSize := f_cliFileSize fs + int (8 + ClientInfo_Size c), f_clients := mput (ci_ID c) c (f_clients fs)\<rparr>"
| "cli_exec (Rec_del i) fs =
     fs\<lparr>f_cliFileSize := f_cliFileSize fs + int (8 + ClientDelete_Size \<lparr>cd_ID = i\<rparr>), f_clients := mdel i (f_clients fs),
       f_cliDeleteRecs := f_cliDeleteRecs fs + 1\<rparr>"

fun cli_good :: "cli_rec \<Rightarrow> bool" where
  "cli_good (Rec_add c) \<longleftrightarrow> ClientInfo_ok c \<and> ClientInfo_Size c \<le> 0xFFFFFF"
| "cli_good (Rec_del i) \<longleftrightarrow> ClientDelete_Size \<lparr>cd_ID = i\<rparr> \<le> 0xFFFFFF"

interpretation cli: journal cli_enc client_record cli_exec cli_good
proof
  fix op s
  assume g: "cli_good op"
  show "rec_ok (cli_enc op)"
    using g by (cases op) (auto simp: rec_ok_def frame_ok_def addClient_def delClient_def ClientInfo.size_bytes ClientDelete.size_bytes)
  show "client_record (fst (cli_enc op)) (snd (cli_enc op)) s = Inr (cli_exec op s)"
    using g by (cases op)
      (auto simp: client_record_def addClient_def delClient_def recordHeaderSize_def ClientInfo.size_bytes
        ClientDelete.size_bytes ClientInfo.unmarshal_bytes ClientDelete.unmarshal_bytes ac_simps)
qed

lemma write_cli:
  "cli_good (Rec_add c) \<Longrightarrow> writeRecord tab old addClient ClientInfo_Size ClientInfo_bytes c = Some (frame tab addClient (ClientInfo_bytes c))"
  "cli_good (Rec_del i) \<Longrightarrow>
   writeRecord tab old delClient ClientDelete_Size ClientDelete_bytes \<lparr>cd_ID = i\<rparr> = Some (frame tab delClient (ClientDelete_bytes \<lparr>cd_ID = i\<rparr>))"
  by (simp_all add: writeRecord_frame [OF ClientInfo.proto_msg_axioms] writeRecord_frame [OF ClientDelete.proto_msg_axioms])

text \<open>What the map of clients should be: the specification of the two operations.\<close>

datatype cli_op = Add_client clientInfo | Delete_client string

fun cli_spec :: "cli_op \<Rightarrow> (string \<rightharpoonup> clientInfo) \<Rightarrow> (string \<rightharpoonup> clientInfo)" where
  "cli_spec (Add_client c) m = m(ci_ID c \<mapsto> c)"
| "cli_spec (Delete_client i) m = m(i := None)"

fun cli_step :: "file_env \<times> cli_op \<Rightarrow> file_store \<Rightarrow> file_store" where
  "cli_step (e, Add_client c) fs = snd (file_AddClient e c fs)"
| "cli_step (e, Delete_client i) fs = snd (file_DeleteClient e i fs)"

fun cli_op_rec :: "cli_op \<Rightarrow> cli_rec" where
  "cli_op_rec (Add_client c) = Rec_add c"
| "cli_op_rec (Delete_client i) = Rec_del i"

definition env_ok :: "file_env \<Rightarrow> bool" where
  "env_ok e \<longleftrightarrow> e_lock e \<and> e_write e = Written \<and> (\<forall>cs. mset (e_order e cs) = mset cs)"

definition cli_inv :: "file_store \<Rightarrow> bool" where
  "cli_inv fs \<longleftrightarrow>
     wf_map (f_clients fs) \<and> (\<forall>(i, c) \<in> set (f_clients fs). ci_ID c = i \<and> cli_good (Rec_add c)) \<and>
     (\<exists>rs. (\<forall>r \<in> set rs. cli_good r) \<and>
        f_cliDisk fs = WriteInt fileVersion @ frames (crcTable (f_opts fs)) (map cli_enc rs) \<and>
        (\<forall>fs0. f_clients fs0 = [] \<longrightarrow> mget (f_clients (fold cli_exec rs fs0)) = mget (f_clients fs)))"

lemma fold_add_clients:
  "f_clients (fold cli_exec (map Rec_add cs) fs) = fold (\<lambda>c. mput (ci_ID c) c) cs (f_clients fs)"
  by (induction cs arbitrary: fs) auto

lemma fold_mput_map_of:
  "mget (fold (\<lambda>c. mput (ci_ID c) c) cs m) = mget m ++ map_of (rev (map (\<lambda>c. (ci_ID c, c)) cs))"
  by (induction cs arbitrary: m) (auto simp: fun_eq_iff map_add_def split: option.splits)

lemma map_of_perm:
  assumes "distinct (map fst m)" "mset l = mset m"
  shows "map_of l = map_of m"
proof -
  have "mset (map fst l) = mset (map fst m)" using assms(2) by simp
  then have "distinct (map fst l)" using assms(1) mset_eq_imp_distinct_iff by blast
  moreover have "set l = set m" using assms(2) by (rule mset_eq_setD)
  ultimately show ?thesis using assms(1) by (simp add: map_of_inject_set)
qed

lemma replay_live:
  assumes "wf_map m" "\<forall>(i, c) \<in> set m. ci_ID c = i" "mset cs = mset (map snd m)" "f_clients fs = []"
  shows "mget (f_clients (fold cli_exec (map Rec_add cs) fs)) = mget m"
proof -
  have "map (\<lambda>c. (ci_ID c, c)) (map snd m) = m" using assms(2) by (induction m) auto
  moreover have "mset (map (\<lambda>c. (ci_ID c, c)) cs) = mset (map (\<lambda>c. (ci_ID c, c)) (map snd m))"
    using assms(3) by (simp only: mset_map)
  ultimately have "mset (rev (map (\<lambda>c. (ci_ID c, c)) cs)) = mset m" by simp
  with assms(1) have "map_of (rev (map (\<lambda>c. (ci_ID c, c)) cs)) = map_of m"
    unfolding wf_map_def by (rule map_of_perm)
  then show ?thesis by (simp add: fold_add_clients fold_mput_map_of assms(4))
qed

lemma compact_clients_frames:
  "\<forall>c \<in> set cs. cli_good (Rec_add c) \<Longrightarrow> compact_clients e tab cs = Some (frames tab (map cli_enc (map Rec_add cs)))"
  by (induction cs) (auto simp: write_cli)

lemma compactClientFile_inv:
  assumes "cli_inv fs" "env_ok e" "compactClientFile e fs = (r, fs')"
  shows "cli_inv fs' \<and> f_clients fs' = f_clients fs \<and> f_opts fs' = f_opts fs"
proof (cases "e_compact e")
  case True
  define cs where "cs = e_order e (map snd (f_clients fs))"
  have cs: "mset cs = mset (map snd (f_clients fs))" using assms(2) by (simp add: cs_def env_ok_def)
  then have "set cs = snd ` set (f_clients fs)" by (metis set_map set_mset_mset)
  then have good: "\<forall>c \<in> set cs. cli_good (Rec_add c)" using assms(1) by (auto simp: cli_inv_def)
  have fs': "fs' = fs\<lparr>f_cliDisk := getTempFile @ frames (crcTable (f_opts fs)) (map cli_enc (map Rec_add cs)),
      f_cliDeleteRecs := 0,
      f_cliFileSize := int (length (frames (crcTable (f_opts fs)) (map cli_enc (map Rec_add cs)))), f_cliCompactTS := e_now e\<rparr>"
    using assms(3) True by (simp add: compactClientFile_def compact_clients_frames [OF good] flip: cs_def)
  have "\<forall>fs0. f_clients fs0 = [] \<longrightarrow> mget (f_clients (fold cli_exec (map Rec_add cs) fs0)) = mget (f_clients fs)"
    using assms(1) cs by (auto simp: cli_inv_def intro!: replay_live)
  then have "cli_inv fs'" using assms(1) good unfolding cli_inv_def fs'
    by (auto simp: getTempFile_def intro!: exI [of _ "map Rec_add cs"])
  then show ?thesis by (simp add: fs')
qed (use assms in \<open>auto simp: compactClientFile_def\<close>)

lemma cli_inv_append:
  assumes "cli_inv fs" "cli_good r" "f_opts fs' = f_opts fs"
    "f_cliDisk fs' = f_cliDisk fs @ frame (crcTable (f_opts fs)) (fst (cli_enc r)) (snd (cli_enc r))"
    "f_clients fs' = f_clients (cli_exec r fs)"
  shows "cli_inv fs'"
proof -
  obtain rs where rs: "\<forall>r \<in> set rs. cli_good r"
    "f_cliDisk fs = WriteInt fileVersion @ frames (crcTable (f_opts fs)) (map cli_enc rs)"
    "\<forall>fs0. f_clients fs0 = [] \<longrightarrow> mget (f_clients (fold cli_exec rs fs0)) = mget (f_clients fs)"
    using assms(1) by (auto simp: cli_inv_def)
  have "f_cliDisk fs' = WriteInt fileVersion @ frames (crcTable (f_opts fs')) (map cli_enc (rs @ [r]))"
    using assms(3,4) rs(2) by (cases "cli_enc r") simp
  moreover have "mget (f_clients (fold cli_exec (rs @ [r]) fs0)) = mget (f_clients fs')" if "f_clients fs0 = []" for fs0
    using rs(3) that assms(5) by (cases r) auto
  moreover have "wf_map (f_clients fs')" "\<forall>(i, c) \<in> set (f_clients fs'). ci_ID c = i \<and> cli_good (Rec_add c)"
    using assms set_mput set_mdel by (cases r; fastforce simp: cli_inv_def)+
  ultimately show ?thesis using rs(1) assms(2) unfolding cli_inv_def by (intro conjI exI [of _ "rs @ [r]"]) auto
qed

lemma cli_step_inv:
  assumes "cli_inv fs" "env_ok e" "cli_good (cli_op_rec x)"
  shows "cli_inv (cli_step (e, x) fs) \<and> mget (f_clients (cli_step (e, x) fs)) = cli_spec x (mget (f_clients fs)) \<and>
    f_opts (cli_step (e, x) fs) = f_opts fs"
proof (cases x)
  case (Add_client c)
  have "file_AddClient e c fs = (Inr c, fs\<lparr>f_cliDisk := f_cliDisk fs @ frame (crcTable (f_opts fs)) addClient (ClientInfo_bytes c),
      f_cliFileSize := f_cliFileSize fs + int (8 + length (ClientInfo_bytes c)), f_clients := mput (ci_ID c) c (f_clients fs)\<rparr>)"
    using assms Add_client by (simp add: file_AddClient_def env_ok_def write_cli)
  moreover from this have "cli_inv (snd (file_AddClient e c fs))"
    using assms Add_client by (intro cli_inv_append [OF assms(1), of "Rec_add c"]) auto
  ultimately show ?thesis using Add_client by simp
next
  case (Delete_client i)
  define fs1 where "fs1 = fs\<lparr>f_cliDisk := f_cliDisk fs @ frame (crcTable (f_opts fs)) delClient (ClientDelete_bytes \<lparr>cd_ID = i\<rparr>),
     f_clients := mdel i (f_clients fs), f_cliDeleteRecs := f_cliDeleteRecs fs + 1,
     f_cliFileSize := f_cliFileSize fs + int (8 + length (ClientDelete_bytes \<lparr>cd_ID = i\<rparr>))\<rparr>"
  have "snd (file_DeleteClient e i fs) = fs1 \<or> snd (file_DeleteClient e i fs) = snd (compactClientFile e fs1)"
    using assms Delete_client by (auto simp: file_DeleteClient_def env_ok_def write_cli fs1_def Let_def)
  moreover have "cli_inv fs1"
    using assms Delete_client by (intro cli_inv_append [OF assms(1), of "Rec_del i"]) (auto simp: fs1_def)
  moreover from this have "cli_inv (snd (compactClientFile e fs1)) \<and> f_clients (snd (compactClientFile e fs1)) = f_clients fs1 \<and>
      f_opts (snd (compactClientFile e fs1)) = f_opts fs1"
    using compactClientFile_inv [OF _ assms(2)] by (metis prod.collapse)
  moreover have "mget (f_clients fs1) = (mget (f_clients fs))(i := None)" "f_opts fs1 = f_opts fs"
    by (simp_all add: fs1_def)
  ultimately show ?thesis using Delete_client by auto
qed

lemma new_file_store_inv: "cli_inv (new_file_store opts)"
  by (auto simp: cli_inv_def new_file_store_def wf_map_def intro!: exI [of _ "[]"])

lemma cli_run_inv:
  assumes "\<forall>(e, x) \<in> set ops. env_ok e \<and> cli_good (cli_op_rec x)" "cli_inv fs"
  shows "cli_inv (fold cli_step ops fs) \<and>
    mget (f_clients (fold cli_step ops fs)) = fold cli_spec (map snd ops) (mget (f_clients fs)) \<and>
    f_opts (fold cli_step ops fs) = f_opts fs"
  using assms
proof (induction ops arbitrary: fs)
  case (Cons x ops)
  obtain e y where x: "x = (e, y)" by (cases x)
  have "cli_inv (cli_step x fs) \<and> mget (f_clients (cli_step x fs)) = cli_spec y (mget (f_clients fs)) \<and>
      f_opts (cli_step x fs) = f_opts fs"
    using cli_step_inv [OF Cons(3)] Cons(2) x by auto
  then show ?case using Cons(1) [of "cli_step x fs"] Cons(2) x by auto
qed simp

lemma drop_version [simp]: "drop 4 (WriteInt v @ f) = f" "length (WriteInt v) = 4"
  by (simp_all add: WriteInt_def)

lemma cli_exec_disk: "f_cliDisk (fold cli_exec rs s) = f_cliDisk s \<and> f_opts (fold cli_exec rs s) = f_opts s"
proof (induction rs arbitrary: s)
  case (Cons r rs)
  then show ?case by (cases r) auto
qed simp

section \<open>Recovery returns the clients\<close>

text \<open>C8: Whatever clients have been added and deleted, and whenever the file was compacted on the way (the map of
  clients being ranged over in any order, and compactions possibly failing), a restart recovers from the clients file exactly the clients that were
  added and not deleted since, each with the information of its last registration, and leaves the file as it is. The
  writes must have succeeded and the records must fit the format.
\<close>

theorem clients_file_recovers:
  assumes "\<forall>(e, x) \<in> set ops. env_ok e \<and> cli_good (cli_op_rec x)"
    and "fs = fold cli_step ops (new_file_store opts)"
  shows "\<exists>cs fs'. file_recoverClients truncated ((new_file_store opts)\<lparr>f_cliDisk := f_cliDisk fs\<rparr>) = Inr (cs, fs') \<and>
    mget (f_clients fs') = fold cli_spec (map snd ops) Map.empty \<and> cs = map snd (f_clients fs') \<and>
    f_cliDisk fs' = f_cliDisk fs"
proof -
  have inv: "cli_inv fs" "mget (f_clients fs) = fold cli_spec (map snd ops) Map.empty" "f_opts fs = opts"
    using cli_run_inv [OF assms(1) new_file_store_inv] assms(2) by (auto simp: new_file_store_def)
  obtain rs where rs: "\<forall>r \<in> set rs. cli_good r" "f_cliDisk fs = WriteInt fileVersion @ frames (crcTable opts) (map cli_enc rs)"
    "\<forall>fs0. f_clients fs0 = [] \<longrightarrow> mget (f_clients (fold cli_exec rs fs0)) = mget (f_clients fs)"
    using inv by (auto simp: cli_inv_def)
  have "f_clients ((new_file_store opts)\<lparr>f_cliDisk := f_cliDisk fs\<rparr>) = []" by (simp add: new_file_store_def)
  then show ?thesis using rs inv(2)
    by (simp add: file_recoverClients_def cli.recover_all cli_exec_disk new_file_store_def truncate_to_def)
qed

definition sample_env :: file_env where
  "sample_env = \<lparr>e_lock = True, e_write = Written, e_close = True, e_compact = True, e_now = 10 ^ 12,
     e_old = (\<lambda>_. CHR ''x''), e_order = rev\<rparr>"

definition sample_client :: "string \<Rightarrow> clientInfo" where
  "sample_client i = zero_ClientInfo\<lparr>ci_ID := i\<rparr>"

definition eager_compaction :: FileStoreOptions where
  "eager_compaction = DefaultFileStoreOptions\<lparr>o_CompactMinFileSize := 0\<rparr>"

lemma sample_client_good: "length i < 100 \<Longrightarrow> cli_good (Rec_add (sample_client i))"
  using sovProtocol_le [of "of_nat (length i)"]
  by (auto simp: sample_client_def zero_ClientInfo_def ClientInfo_ok_def ClientInfo_Size_def int32_def bytes_size_def uint_size_def)

lemma sample_delete_good: "length i < 100 \<Longrightarrow> cli_good (Rec_del i)"
  using sovProtocol_le [of "of_nat (length i)"] by (auto simp: ClientDelete_Size_def bytes_size_def)

theorem clients_file_recovers_witness:
  "\<exists>cs fs'. file_recoverClients True
     ((new_file_store eager_compaction)\<lparr>f_cliDisk := f_cliDisk
       (fold cli_step [(sample_env, Add_client (sample_client ''a'')), (sample_env, Add_client (sample_client ''b'')),
          (sample_env, Delete_client ''a'')] (new_file_store eager_compaction))\<rparr>) = Inr (cs, fs') \<and>
     mget (f_clients fs') = [''b'' \<mapsto> sample_client ''b'']"
proof -
  have "env_ok sample_env" by (simp add: env_ok_def sample_env_def)
  moreover have "cli_good (Rec_add (sample_client ''a''))" "cli_good (Rec_add (sample_client ''b''))" "cli_good (Rec_del ''a'')"
    by (simp_all add: sample_client_good sample_delete_good del: cli_good.simps)
  ultimately have h: "\<forall>(e, x) \<in> set [(sample_env, Add_client (sample_client ''a'')), (sample_env, Add_client (sample_client ''b'')),
          (sample_env, Delete_client ''a'')]. env_ok e \<and> cli_good (cli_op_rec x)"
    by simp
  show ?thesis using clients_file_recovers [OF h refl, of True eager_compaction]
    by (auto simp: sample_client_def fun_upd_twist)
qed

text \<open>
  A crash can cut the record that is being written. Recovery then returns the clients before the operation. The file is repaired,
  unless exactly the header of the record was written: \<open>io.ReadFull\<close> reports the missing payload as a plain end of file.
\<close>

lemma torn_record:
  assumes "cli_inv fs" "f_opts fs = opts" "o_TruncateUnexpectedEOF opts" "cli_good r" "cli_enc r = (t, p)" "n < 8 + length p"
  shows "\<exists>fs'. file_recoverClients True
      ((new_file_store opts)\<lparr>f_cliDisk := f_cliDisk fs @ take n (frame (crcTable opts) t p)\<rparr>) = Inr (map snd (f_clients fs'), fs') \<and>
    mget (f_clients fs') = mget (f_clients fs) \<and> f_opts fs' = opts \<and>
    f_cliDisk fs' = (if n = 8 then f_cliDisk fs @ take 8 (frame (crcTable opts) t p) else f_cliDisk fs)"
proof -
  obtain rs where rs: "\<forall>r \<in> set rs. cli_good r" "f_cliDisk fs = WriteInt fileVersion @ frames (crcTable opts) (map cli_enc rs)"
    "\<forall>fs0. f_clients fs0 = [] \<longrightarrow> mget (f_clients (fold cli_exec rs fs0)) = mget (f_clients fs)"
    using assms(1,2) by (auto simp: cli_inv_def)
  have "rec_ok (t, p)" using cli.enc_ok [OF assms(4)] assms(5) by simp
  then have "readRecord (crcTable opts) True (o_DoCRC opts) 0 (take n (frame (crcTable opts) t p)) = Inl (torn n)"
    using assms(6) by (intro readRecord_torn) (auto simp: rec_ok_def)
  then have "recover_loop opts True client_record (take n (frame (crcTable opts) t p)) off s =
      Inr (s, if n = 0 \<or> n = 8 then None else Some off)" for off s
    using assms(3) by (subst recover_loop.simps) (auto simp: torn_def end_of_file_def handleUnexpectedEOF_def)
  then show ?thesis using rs
    by (auto simp: file_recoverClients_def cli.recover_app cli_exec_disk new_file_store_def truncate_to_def WriteInt_def)
qed

text \<open>C29: When the write of a client's registration fails after any number of bytes of its record, the client is
  not added and the error is returned, and a restart with the option \<open>TruncateUnexpectedEOF\<close> recovers exactly the clients
  before it. The incomplete record is removed from the file, except when its eight header bytes are all that was written.
\<close>

theorem torn_client_write_recovers:
  assumes "\<forall>(e, x) \<in> set ops. env_ok e \<and> cli_good (cli_op_rec x)" "o_TruncateUnexpectedEOF opts"
    and "fs = fold cli_step ops (new_file_store opts)"
    and "cli_good (Rec_add c)" "e_lock e" "e_write e = Failed n" "n < 8 + ClientInfo_Size c"
    and "file_AddClient e c fs = (r, fs1)"
  shows "r = Inl ErrFile \<and> f_clients fs1 = f_clients fs \<and>
    (\<exists>cs fs'. file_recoverClients True ((new_file_store opts)\<lparr>f_cliDisk := f_cliDisk fs1\<rparr>) = Inr (cs, fs') \<and>
       mget (f_clients fs') = fold cli_spec (map snd ops) Map.empty \<and>
       f_cliDisk fs' = (if n = 8 then f_cliDisk fs1 else f_cliDisk fs))"
proof -
  have inv: "cli_inv fs" "mget (f_clients fs) = fold cli_spec (map snd ops) Map.empty" "f_opts fs = opts"
    using cli_run_inv [OF assms(1) new_file_store_inv] assms(3) by (auto simp: new_file_store_def)
  have add: "r = Inl ErrFile" "fs1 = fs\<lparr>f_cliDisk := f_cliDisk fs @ take n (frame (crcTable opts) addClient (ClientInfo_bytes c))\<rparr>"
    using assms(4-8) inv(3) by (simp_all add: file_AddClient_def write_cli)
  have "n < 8 + length (ClientInfo_bytes c)" using assms(7) by (simp add: ClientInfo.size_bytes)
  from torn_record [OF inv(1,3) assms(2,4) cli_enc.simps(1) this] show ?thesis using add inv(2) by auto
qed

definition sample_truncating :: FileStoreOptions where
  "sample_truncating = DefaultFileStoreOptions\<lparr>o_TruncateUnexpectedEOF := True\<rparr>"

theorem torn_client_write_recovers_witness:
  "\<exists>cs fs'. file_recoverClients True
     ((new_file_store sample_truncating)\<lparr>f_cliDisk := f_cliDisk
       (snd (file_AddClient (sample_env\<lparr>e_write := Failed 3\<rparr>) (sample_client ''b'')
         (fold cli_step [(sample_env, Add_client (sample_client ''a''))] (new_file_store sample_truncating))))\<rparr>) = Inr (cs, fs') \<and>
     mget (f_clients fs') = [''a'' \<mapsto> sample_client ''a'']"
proof -
  have a: "cli_good (Rec_add (sample_client ''a''))" and b: "cli_good (Rec_add (sample_client ''b''))"
    by (simp_all add: sample_client_good del: cli_good.simps)
  have ops: "\<forall>(e, x) \<in> set [(sample_env, Add_client (sample_client ''a''))]. env_ok e \<and> cli_good (cli_op_rec x)"
    using a by (simp add: env_ok_def sample_env_def)
  have t: "o_TruncateUnexpectedEOF sample_truncating" by (simp add: sample_truncating_def)
  have e: "e_lock (sample_env\<lparr>e_write := Failed 3\<rparr>)" "e_write (sample_env\<lparr>e_write := Failed 3\<rparr>) = Failed 3"
    by (simp_all add: sample_env_def)
  have n: "3 < 8 + ClientInfo_Size (sample_client ''b'')" by simp
  show ?thesis
    using torn_client_write_recovers [OF ops t refl b e n surjective_pairing]
    by (auto simp: sample_client_def)
qed

text \<open>C39: The server information written by \<open>Init\<close>, whatever the server file held before, is what a restart recovers; a store that
  was never initialised recovers none.
\<close>

theorem server_info_recovered:
  assumes "e_lock e" "e_write e = Written" "0 < ServerInfo_Size info" "ServerInfo_Size info < 2 ^ 32"
    and "take 4 (f_srvDisk fs) = WriteInt fileVersion"
    and "file_Init e info fs = (r, fs')"
  shows "r = Inr () \<and> recoverServerInfo fs' = Inr (Some info) \<and> recoverServerInfo (new_file_store opts) = Inr None"
proof -
  have w: "writeRecord (crcTable (f_opts fs)) (e_old e) recNoType ServerInfo_Size ServerInfo_bytes info =
      Some (frame (crcTable (f_opts fs)) recNoType (ServerInfo_bytes info))"
    by (rule writeRecord_frame [OF ServerInfo.proto_msg_axioms]) simp
  have fs': "r = Inr ()" "fs' = fs\<lparr>f_srvDisk := WriteInt fileVersion @ frame (crcTable (f_opts fs)) 0 (ServerInfo_bytes info)\<rparr>"
    using assms(1,2,5,6) w by (simp_all add: file_Init_def Let_def recNoType_def)
  have "frame_ok 0 (ServerInfo_bytes info)"
    using assms(3,4) ServerInfo.size_bytes [of info] by (auto simp: frame_ok_def)
  then have "readRecord (crcTable (f_opts fs)) False (o_DoCRC (f_opts fs)) 0 (frame (crcTable (f_opts fs)) 0 (ServerInfo_bytes info)) =
      Inr (0, ServerInfo_bytes info, [])"
    using readRecord_frame [of 0 "ServerInfo_bytes info" False 0 _ _ "[]"] by simp
  then have "recoverServerInfo fs' = Inr (Some info)"
    using assms(4) by (simp add: recoverServerInfo_def fs' recordHeaderSize_def ServerInfo.unmarshal_bytes)
  moreover have "drop 4 (f_srvDisk (new_file_store opts)) = []" by (simp add: new_file_store_def WriteInt_def)
  ultimately show ?thesis using fs'(1) by (simp add: recoverServerInfo_def readRecord_empty)
qed

theorem server_info_recovered_witness:
  "recoverServerInfo (snd (file_Init sample_env (zero_ServerInfo\<lparr>si_ClusterID := ''c''\<rparr>) (new_file_store DefaultFileStoreOptions))) =
     Inr (Some (zero_ServerInfo\<lparr>si_ClusterID := ''c''\<rparr>))"
proof -
  have "ServerInfo_Size (zero_ServerInfo\<lparr>si_ClusterID := ''c''\<rparr>) = 2 + sovProtocol 1"
    by (simp add: ServerInfo_Size_def zero_ServerInfo_def bytes_size_def)
  then have "0 < ServerInfo_Size (zero_ServerInfo\<lparr>si_ClusterID := ''c''\<rparr>)" "ServerInfo_Size (zero_ServerInfo\<lparr>si_ClusterID := ''c''\<rparr>) < 2 ^ 32"
    using sovProtocol_le [of 1] by auto
  moreover have "take 4 (f_srvDisk (new_file_store DefaultFileStoreOptions)) = WriteInt fileVersion"
    by (simp add: new_file_store_def WriteInt_def)
  ultimately show ?thesis
    using server_info_recovered [of sample_env "zero_ServerInfo\<lparr>si_ClusterID := ''c''\<rparr>" _ _ _, OF _ _ _ _ _ surjective_pairing]
    by (simp add: sample_env_def)
qed

lemma sample_client_bytes: "ClientInfo_bytes (sample_client [c]) = [char_of (10::nat), char_of (1::nat), c]"
  by (simp add: ClientInfo_bytes_def sample_client_def zero_ClientInfo_def bytes_field_def uint_field_def encode_small word_less_nat_alt)

lemma put_le_4: "put_le 4 v = [char_of (v mod 256), char_of (v div 256 mod 256), char_of (v div 256 div 256 mod 256),
    char_of (v div 256 div 256 div 256 mod 256)]"
proof -
  have 4: "(4::nat) = Suc (Suc (Suc (Suc 0)))" by simp
  show ?thesis unfolding 4 by simp
qed

lemma misread_header:
  "\<exists>e. recover_loop opts tr client_record
     (take 8 (frame tab addClient (ClientInfo_bytes (sample_client [a]))) @ frame tab' addClient (ClientInfo_bytes (sample_client [b]))) off s = Inl e"
  if "tab = crcTable opts"
proof -
  let ?p = "ClientInfo_bytes (sample_client [a])"
  let ?h = "put_le 4 (addClient * 2 ^ 24 + length ?p) @ put_le 4 (unat (Checksum tab ?p))"
  have ok: "frame_ok addClient ?p" by (simp add: frame_ok_def addClient_def sample_client_bytes)
  have take: "take 8 (frame tab addClient ?p) = ?h" by (simp add: frame_def)
  have frame: "frame tab' addClient (ClientInfo_bytes (sample_client [b])) =
      [char_of (3::nat), char_of (0::nat), char_of (0::nat)] @ drop 3 (frame tab' addClient (ClientInfo_bytes (sample_client [b])))"
    by (simp add: frame_def addClient_def sample_client_bytes put_le_4)
  have "readRecord tab True (o_DoCRC opts) 0 (?h @ frame tab' addClient (ClientInfo_bytes (sample_client [b]))) \<in>
      {Inl ErrCorrupted, Inr (addClient, [char_of (3::nat), char_of (0::nat), char_of (0::nat)],
         drop 3 (frame tab' addClient (ClientInfo_bytes (sample_client [b]))))}" (is "?r \<in> _")
    using readRecord_header [OF ok, of True 0 tab]
    by (subst frame) (simp add: addClient_def sample_client_bytes ReadFull_def)
  then consider "?r = Inl ErrCorrupted" | rest where "?r = Inr (addClient, [char_of (3::nat), char_of (0::nat), char_of (0::nat)], rest)"
    by blast
  then show ?thesis
  proof cases
    case 1
    then show ?thesis using that take
      by (subst recover_loop.simps) (simp add: end_of_file_def handleUnexpectedEOF_def)
  next
    case 2
    have "ClientInfo_Unmarshal [char_of (3::nat), char_of (0::nat), char_of (0::nat)] = Inl ErrIllegalTag"
      unfolding ClientInfo_Unmarshal_def by (subst unmarshal_loop.simps) (simp add: read_field_def read_tag i32_def Let_def)
    then show ?thesis using 2 that take by (subst recover_loop.simps) (simp add: client_record_def Let_def)
  qed
qed


end
