(* ===== verification/File_Buffer.thy ===== *)
theory File_Buffer
  imports File_Clients
begin

text \<open>
  The buffered writer of the file store (\<open>bufferedWriter\<close> in \<open>stores/filestore.go\<close>) on top of \<open>bufio.Writer\<close>. The state
  of the standard library's writer is its buffered bytes, its capacity and its sticky error. The definitions work on the writer
  together with the content of its file; the outcomes of the writes to the file are parameters.
\<close>

section \<open>The standard library's writer\<close>

record bufw =
  bw_buf :: bytes
  bw_cap :: nat
  bw_err :: bool
  bw_bufSize :: nat
  bw_minShrinkSize :: nat
  bw_maxSize :: nat
  bw_shrinkReq :: bool

definition Available :: "bufw \<Rightarrow> nat" where
  "Available w = bw_cap w - length (bw_buf w)"

text \<open>\<open>bufio.NewWriterSize\<close> on the current buffer size.\<close>

definition createNewWriter :: "bufw \<Rightarrow> bufw" where
  "createNewWriter w =
     w\<lparr>bw_buf := [], bw_err := False, bw_cap := (if bw_bufSize w = 0 then 4096 else bw_bufSize w)\<rparr>"

definition bufio_Flush :: "wr \<Rightarrow> bufw \<times> bytes \<Rightarrow> bool \<times> bufw \<times> bytes" where
  "bufio_Flush o1 bf =
     (let (w, f) = bf
      in if bw_err w then (False, bf)
         else if bw_buf w = [] then (True, bf)
         else case o1 of
           Written \<Rightarrow> (True, w\<lparr>bw_buf := []\<rparr>, f @ bw_buf w)
         | Failed n \<Rightarrow> (False, w\<lparr>bw_buf := drop n (bw_buf w), bw_err := True\<rparr>, f @ take n (bw_buf w)))"

definition bufio_direct :: "wr \<Rightarrow> bytes \<Rightarrow> bufw \<times> bytes \<Rightarrow> bool \<times> bufw \<times> bytes" where
  "bufio_direct o2 p bf =
     (let (w, f) = bf
      in case o2 of Written \<Rightarrow> (True, w, f @ p) | Failed n \<Rightarrow> (False, w\<lparr>bw_err := True\<rparr>, f @ take n p))"

definition bufio_Write :: "wr \<Rightarrow> wr \<Rightarrow> bytes \<Rightarrow> bufw \<times> bytes \<Rightarrow> bool \<times> bufw \<times> bytes" where
  "bufio_Write o1 o2 p bf =
     (let (w, f) = bf; a = Available w
      in if bw_err w then (False, bf)
         else if length p \<le> a then (True, w\<lparr>bw_buf := bw_buf w @ p\<rparr>, f)
         else if bw_buf w = [] then bufio_direct o2 p bf
         else
           let (ok, bf1) = bufio_Flush o1 (w\<lparr>bw_buf := bw_buf w @ take a p\<rparr>, f); p = drop a p
           in if \<not> ok then (False, bf1)
              else if length p \<le> bw_cap w then (True, (fst bf1)\<lparr>bw_buf := p\<rparr>, snd bf1)
              else bufio_direct o2 p bf1)"

section \<open>The buffered writer\<close>

definition newBufferWriter :: "nat \<Rightarrow> nat \<Rightarrow> bufw" where
  "newBufferWriter minShrinkSize maxSize =
     \<lparr>bw_buf = [], bw_cap = 0, bw_err = False,
      bw_bufSize = (if maxSize < minShrinkSize then maxSize else minShrinkSize),
      bw_minShrinkSize = minShrinkSize, bw_maxSize = maxSize, bw_shrinkReq = False\<rparr>"

definition expand :: "wr \<Rightarrow> nat \<Rightarrow> bufw \<times> bytes \<Rightarrow> bool \<times> bufw \<times> bytes" where
  "expand o1 required bf =
     (let w = (fst bf)\<lparr>bw_shrinkReq := False\<rparr>;
          (ok, w, f) = (if length (bw_buf w) > 0 then bufio_Flush o1 (w, snd bf) else (True, w, snd bf))
      in if \<not> ok then (False, w, f)
         else
           let n = bw_bufSize w * 2;
               n = (if n < required then required else n);
               n = (if n > bw_maxSize w then bw_maxSize w else n)
           in (True, createNewWriter (w\<lparr>bw_bufSize := n\<rparr>), f))"

definition bufShrinkThreshold :: nat where
  "bufShrinkThreshold = 50"

definition tryShrinkBuffer :: "wr \<Rightarrow> bool \<Rightarrow> bufw \<times> bytes \<Rightarrow> bool \<times> bufw \<times> bytes" where
  "tryShrinkBuffer o1 opened bf =
     (let (w, f) = bf
      in if bw_bufSize w = bw_minShrinkSize w \<or> \<not> opened then (True, bf)
         else if \<not> bw_shrinkReq w then
           (if length (bw_buf w) * 100 div bw_bufSize w \<le> bufShrinkThreshold
            then (True, w\<lparr>bw_shrinkReq := True\<rparr>, f) else (True, bf))
         else
           let (ok, w, f) = bufio_Flush o1 bf
           in if \<not> ok then (False, w, f)
              else
                let n = bw_bufSize w div 2;
                    n = (if n < bw_minShrinkSize w then bw_minShrinkSize w else n);
                    w = createNewWriter (w\<lparr>bw_bufSize := n\<rparr>)
                in (True, if n = bw_minShrinkSize w then w\<lparr>bw_shrinkReq := True\<rparr> else w, f))"

definition checkShrinkRequest :: "bufw \<Rightarrow> bufw" where
  "checkShrinkRequest w =
     (if length (bw_buf w) * 100 div bw_bufSize w > bufShrinkThreshold then w\<lparr>bw_shrinkReq := False\<rparr> else w)"

text \<open>The part of \<open>writeRecord\<close> that hands the record to a buffered writer.\<close>

definition write_buffered :: "wr \<Rightarrow> wr \<Rightarrow> bytes \<Rightarrow> bufw \<times> bytes \<Rightarrow> bool \<times> bufw \<times> bytes" where
  "write_buffered o1 o2 bs bf =
     (let (w, f) = bf;
          (ok, bf1) = (if length (bw_buf w) > 0 \<and> Available w < length bs then bufio_Flush o1 bf else (True, bf))
      in if \<not> ok then (False, bf1) else bufio_Write o1 o2 bs bf1)"

section \<open>Records are never split\<close>

text \<open>
  The interface of the writer: what has been written is in the file and in the buffer, and when nothing fails the
  file gets the buffered bytes and the new ones as a whole.
\<close>

definition bw_ok :: "bufw \<Rightarrow> bool" where
  "bw_ok w \<longleftrightarrow> \<not> bw_err w \<and> 0 < bw_bufSize w \<and> bw_bufSize w \<le> bw_maxSize w \<and>
     min (bw_minShrinkSize w) (bw_maxSize w) \<le> bw_bufSize w \<and> bw_cap w = bw_bufSize w \<and> length (bw_buf w) \<le> bw_cap w"

lemma Flush_written:
  "bw_ok w \<Longrightarrow> bufio_Flush Written (w, f) = (True, w\<lparr>bw_buf := []\<rparr>, f @ bw_buf w)"
  by (auto simp: bufio_Flush_def bw_ok_def)

lemma write_buffered_written:
  assumes "bw_ok w" "write_buffered Written Written bs (w, f) = (ok, w', f')"
  shows "ok \<and> bw_ok w' \<and> f' @ bw_buf w' = f @ bw_buf w @ bs \<and> f' \<in> {f, f @ bw_buf w, f @ bw_buf w @ bs}"
  using assms
  by (auto simp: write_buffered_def bufio_Write_def bufio_direct_def Flush_written bufio_Flush_def Available_def
      bw_ok_def Let_def split: if_splits)

lemma expand_written:
  assumes "bw_ok w" "expand Written required (w, f) = (ok, w', f')"
  shows "ok \<and> bw_ok w' \<and> f' @ bw_buf w' = f @ bw_buf w \<and> f' = f @ bw_buf w \<and> bw_maxSize w' = bw_maxSize w"
  using assms
  by (auto simp: expand_def Let_def bufio_Flush_def bw_ok_def createNewWriter_def split: if_splits)

lemma tryShrink_written:
  assumes "bw_ok w" "bw_minShrinkSize w < bw_maxSize w" "0 < bw_minShrinkSize w" "tryShrinkBuffer Written opened (w, f) = (ok, w', f')"
  shows "ok \<and> bw_ok w' \<and> f' @ bw_buf w' = f @ bw_buf w \<and> f' \<in> {f, f @ bw_buf w} \<and> bw_maxSize w' = bw_maxSize w"
  using assms
  by (auto simp: tryShrinkBuffer_def Let_def bufio_Flush_def bw_ok_def createNewWriter_def split: if_splits)

datatype bw_op = Bw_write bytes | Bw_expand nat | Bw_shrink bool | Bw_check | Bw_flush

fun bw_step :: "bw_op \<Rightarrow> bufw \<times> bytes \<Rightarrow> bufw \<times> bytes" where
  "bw_step (Bw_write bs) bf = snd (write_buffered Written Written bs bf)"
| "bw_step (Bw_expand required) bf = snd (expand Written required bf)"
| "bw_step (Bw_shrink opened) bf = snd (tryShrinkBuffer Written opened bf)"
| "bw_step Bw_check bf = (checkShrinkRequest (fst bf), snd bf)"
| "bw_step Bw_flush bf = snd (bufio_Flush Written bf)"

fun bw_written :: "bw_op list \<Rightarrow> bytes list" where
  "bw_written [] = []"
| "bw_written (Bw_write bs # ops) = bs # bw_written ops"
| "bw_written (_ # ops) = bw_written ops"

text \<open>The file holds a prefix of the records, the file and the buffer hold all of them.\<close>

definition whole_records :: "bytes \<Rightarrow> bytes list \<Rightarrow> bufw \<times> bytes \<Rightarrow> bool" where
  "whole_records f0 rs bf \<longleftrightarrow>
     snd bf @ bw_buf (fst bf) = f0 @ concat rs \<and> (\<exists>k. snd bf = f0 @ concat (take k rs))"

lemma whole_records_move:
  assumes "whole_records f0 rs (w, f)" "f' @ bw_buf w' = f @ bw_buf w" "f' \<in> {f, f @ bw_buf w}"
  shows "whole_records f0 rs (w', f')"
  using assms by (auto simp: whole_records_def intro: exI [of _ "length rs"])

lemma bw_step_ok:
  assumes "bw_ok w" "bw_minShrinkSize w = lo" "bw_maxSize w = hi" "0 < lo" "\<forall>b. x = Bw_shrink b \<longrightarrow> lo < hi"
    and "whole_records f0 rs (w, f)" "bw_step x (w, f) = (w', f')"
  shows "bw_ok w' \<and> bw_minShrinkSize w' = lo \<and> bw_maxSize w' = hi \<and> whole_records f0 (rs @ bw_written [x]) (w', f')"
proof -
  have sizes: "bw_minShrinkSize w' = lo \<and> bw_maxSize w' = hi"
    using assms(2,3,7) by (cases x)
      (auto simp: write_buffered_def bufio_Write_def bufio_direct_def bufio_Flush_def expand_def createNewWriter_def
        tryShrinkBuffer_def checkShrinkRequest_def Let_def split: if_splits wr.splits prod.splits)
  show ?thesis
  proof (cases x)
    case (Bw_write bs)
    then obtain ok where w: "write_buffered Written Written bs (w, f) = (ok, w', f')" using assms(7) by (auto simp: prod_eq_iff)
    note c = write_buffered_written [OF assms(1) w]
    obtain k where f: "f @ bw_buf w = f0 @ concat rs" "f = f0 @ concat (take k rs)" using assms(6) by (auto simp: whole_records_def)
    have "f' @ bw_buf w' = f0 @ concat (rs @ [bs])" using c f(1) by auto
    moreover have "\<exists>j. f' = f0 @ concat (take j (rs @ [bs]))"
    proof -
      consider "f' = f" | "f' = f @ bw_buf w" | "f' = f @ bw_buf w @ bs" using c by auto
      then show ?thesis
      proof cases
        case 1
        then show ?thesis using f(2) by (intro exI [of _ "min k (length rs)"]) (simp add: min_def)
      next
        case 2
        then show ?thesis using f(1) by (intro exI [of _ "length rs"]) simp
      next
        case 3
        then have "f' = f0 @ concat (rs @ [bs])" using f(1) by (metis append_assoc concat_append concat.simps(1,2) append_Nil2)
        then show ?thesis by (intro exI [of _ "length (rs @ [bs])"]) simp
      qed
    qed
    ultimately show ?thesis using c sizes Bw_write by (simp add: whole_records_def)
  next
    case (Bw_expand n)
    then obtain ok where "expand Written n (w, f) = (ok, w', f')" using assms(7) by (auto simp: prod_eq_iff)
    from expand_written [OF assms(1) this] whole_records_move [OF assms(6)] show ?thesis using sizes Bw_expand by auto
  next
    case (Bw_shrink b)
    then obtain ok where "tryShrinkBuffer Written b (w, f) = (ok, w', f')" using assms(7) by (auto simp: prod_eq_iff)
    from tryShrink_written [OF assms(1) _ _ this] whole_records_move [OF assms(6)] show ?thesis using sizes Bw_shrink assms(2-5) by auto
  next
    case Bw_check
    then show ?thesis using assms sizes whole_records_move [OF assms(6), of f' w']
      by (auto simp: checkShrinkRequest_def bw_ok_def split: if_splits)
  next
    case Bw_flush
    then show ?thesis using assms sizes whole_records_move [OF assms(6), of f' w'] by (auto simp: Flush_written bw_ok_def)
  qed
qed

lemma bw_written_append: "bw_written (xs @ ys) = bw_written xs @ bw_written ys"
  by (induction xs rule: bw_written.induct) auto

lemma bw_run_ok:
  assumes "0 < lo" "0 < hi" "\<forall>x \<in> set ops. \<forall>b. x = Bw_shrink b \<longrightarrow> lo < hi"
    and "fold bw_step ops (createNewWriter (newBufferWriter lo hi), f0) = (w, f)"
  shows "bw_ok w \<and> bw_minShrinkSize w = lo \<and> bw_maxSize w = hi \<and> whole_records f0 (bw_written ops) (w, f)"
  using assms(3,4)
proof (induction ops arbitrary: w f rule: rev_induct)
  case Nil
  then show ?case using assms(1,2) by (auto simp: createNewWriter_def newBufferWriter_def bw_ok_def whole_records_def)
next
  case (snoc x ops)
  obtain w1 f1 where "fold bw_step ops (createNewWriter (newBufferWriter lo hi), f0) = (w1, f1)" by fastforce
  with snoc show ?case using bw_step_ok [of w1 lo hi x f0 "bw_written ops" f1 w f] assms(1) by (auto simp: bw_written_append)
qed

text \<open>C11: Over any sequence of records written, expansions, shrinking attempts and flushes, the buffer's size stays between the minimum
  (or the maximum, if that is smaller) and the maximum, and it holds no more than its size. The file and the buffer together hold
  all the records in order, and the file alone always ends between two records: a record is never split between
  the file and the buffer. Attempts to shrink are only made when the maximum is above the minimum, as the timers are.
\<close>

theorem buffered_writer_whole_records:
  assumes "0 < lo" "0 < hi" "\<forall>x \<in> set ops. \<forall>b. x = Bw_shrink b \<longrightarrow> lo < hi"
    and "fold bw_step ops (createNewWriter (newBufferWriter lo hi), f0) = (w, f)"
  shows "min lo hi \<le> bw_bufSize w \<and> bw_bufSize w \<le> hi \<and> length (bw_buf w) \<le> bw_bufSize w \<and>
    f @ bw_buf w = f0 @ concat (bw_written ops) \<and> (\<exists>k. f = f0 @ concat (take k (bw_written ops)))"
  using bw_run_ok [OF assms] by (auto simp: bw_ok_def whole_records_def)

theorem buffered_writer_whole_records_witness:
  "\<exists>w f. fold bw_step [Bw_write ''abc'', Bw_write ''de'', Bw_expand 9, Bw_write ''fghi'', Bw_shrink True, Bw_shrink True]
     (createNewWriter (newBufferWriter 4 8), ''v'') = (w, f) \<and> bw_bufSize w \<le> 8 \<and> f = ''vabcdefghi''"
proof -
  let ?ops = "[Bw_write ''abc'', Bw_write ''de'', Bw_expand 9, Bw_write ''fghi'', Bw_shrink True, Bw_shrink True]"
  obtain w f where r: "fold bw_step ?ops (createNewWriter (newBufferWriter 4 8), ''v'') = (w, f)" by fastforce
  from buffered_writer_whole_records [OF _ _ _ this] have "bw_bufSize w \<le> 8" by simp
  moreover have "f = ''vabcdefghi''"
    using r by (simp add: createNewWriter_def newBufferWriter_def write_buffered_def bufio_Write_def bufio_Flush_def Available_def
        expand_def tryShrinkBuffer_def bufShrinkThreshold_def)
  ultimately show ?thesis using r by blast
qed

end
