(* ===== verification/File_Subs.thy ===== *)
theory File_Subs
  imports File_Buffer
begin

text \<open>
  The subscription store in files (\<open>FileSubStore\<close> in \<open>stores/filestore.go\<close>): every operation appends a record to the channel's
  subscriptions file, through the buffered writer when buffering is enabled; deletions and acknowledgements may trigger a
  compaction; recovery replays the file. The state has the content of the file, whether it is opened, and the buffer. The outcomes of
  system calls and the orders in which Go ranges over its maps are parameters (\<open>sub_env\<close>).
\<close>

section \<open>State and environment\<close>

record fsub =
  fb_sub :: spbSubState
  fb_seqnos :: "(u64, unit) gomap"

record file_sub_store =
  fss_opts :: FileStoreOptions
  fss_limit :: int
  fss_subs :: "(u64, fsub) gomap"
  fss_maxSubID :: u64
  fss_disk :: bytes
  fss_open :: bool
  fss_bw :: "bufw option"
  fss_fileSize :: int
  fss_numRecs :: int
  fss_delRecs :: int
  fss_compactTS :: int
  fss_activity :: bool
  fss_synced :: int
  fss_closed :: bool

text \<open>A compaction fails before or after the first record is written to the temporary file, or succeeds.\<close>

datatype compact_io = Compact_ok | Compact_failed bool

record sub_env =
  se_lock :: bool
  se_flush :: wr
  se_direct :: wr
  se_sync :: bool
  se_compact :: compact_io
  se_now :: int
  se_old :: "nat \<Rightarrow> char"
  se_subs :: "fsub list \<Rightarrow> fsub list"
  se_seqs :: "u64 list \<Rightarrow> u64 list"

definition subRecNew :: nat where "subRecNew = 1"
definition subRecUpdate :: nat where "subRecUpdate = 2"
definition subRecDel :: nat where "subRecDel = 3"
definition subRecAck :: nat where "subRecAck = 4"
definition subRecMsg :: nat where "subRecMsg = 5"

definition subBufMinShrinkSize :: nat where "subBufMinShrinkSize = 128"

section \<open>The file\<close>

text \<open>\<open>lockFile\<close> when the files manager could open the file: a new writer is made when it was closed.\<close>

definition fss_lockFile :: "file_sub_store \<Rightarrow> file_sub_store" where
  "fss_lockFile ss =
     (if fss_open ss then ss
      else ss\<lparr>fss_open := True, fss_bw := map_option createNewWriter (fss_bw ss)\<rparr>)"

definition count_record :: "nat \<Rightarrow> nat \<Rightarrow> file_sub_store \<Rightarrow> file_sub_store" where
  "count_record recType totalSize ss =
     ss\<lparr>fss_activity := True,
        fss_numRecs := fss_numRecs ss + (if recType \<in> {subRecNew, subRecMsg, subRecUpdate} then 1 else 0),
        fss_delRecs := fss_delRecs ss + (if recType \<in> {subRecAck, subRecUpdate, subRecDel} then 1 else 0),
        fss_fileSize := fss_fileSize ss + int totalSize\<rparr>"

text \<open>The parts of \<open>FileSubStore.writeRecord\<close>: the buffer is expanded when the record does not fit, the record is written.\<close>

definition fss_make_room :: "sub_env \<Rightarrow> nat \<Rightarrow> file_sub_store \<Rightarrow> bool \<times> file_sub_store" where
  "fss_make_room e required ss =
     (case fss_bw ss of
        None \<Rightarrow> (True, ss)
      | Some w \<Rightarrow>
          if int (bw_bufSize w) \<noteq> o_BufferSize (fss_opts ss) \<and> required > Available w
          then let (ok, w, f) = expand (se_flush e) required (w, fss_disk ss)
               in (ok, ss\<lparr>fss_bw := Some w, fss_disk := f\<rparr>)
          else (True, ss))"

definition fss_put :: "sub_env \<Rightarrow> bytes \<Rightarrow> file_sub_store \<Rightarrow> bool \<times> file_sub_store" where
  "fss_put e bs ss =
     (case fss_bw ss of
        None \<Rightarrow> (let (ok, f) = file_write (se_direct e) bs (fss_disk ss) in (ok, ss\<lparr>fss_disk := f\<rparr>))
      | Some w \<Rightarrow>
          let (ok, w, f) = write_buffered (se_flush e) (se_direct e) bs (w, fss_disk ss)
          in (ok, ss\<lparr>fss_bw := Some w, fss_disk := f\<rparr>))"

definition fss_check_shrink :: "file_sub_store \<Rightarrow> file_sub_store" where
  "fss_check_shrink ss =
     ss\<lparr>fss_bw := map_option (\<lambda>w. if bw_shrinkReq w then checkShrinkRequest w else w) (fss_bw ss)\<rparr>"

definition fss_writeRecord ::
  "sub_env \<Rightarrow> nat \<Rightarrow> ('m \<Rightarrow> nat) \<Rightarrow> ('m \<Rightarrow> bytes) \<Rightarrow> 'm \<Rightarrow> file_sub_store \<Rightarrow> (file_err + unit) \<times> file_sub_store" where
  "fss_writeRecord e recType size_of bytes_of r ss =
     (if \<not> se_lock e then (Inl ErrFile, ss)
      else
        let (ok, ss) = fss_make_room e (size_of r + recordHeaderSize) (fss_lockFile ss)
        in if \<not> ok then (Inl ErrFile, ss)
           else case writeRecord (crcTable (fss_opts ss)) (se_old e) recType size_of bytes_of r of
             None \<Rightarrow> (Inl ErrPanic, ss)
           | Some bs \<Rightarrow>
               let (ok, ss) = fss_put e bs ss
               in if \<not> ok then (Inl ErrFile, ss)
                  else (Inr (), count_record recType (length bs) (fss_check_shrink ss)))"

definition fss_flush :: "sub_env \<Rightarrow> bool \<Rightarrow> file_sub_store \<Rightarrow> (file_err + unit) \<times> file_sub_store" where
  "fss_flush e forceSync ss =
     (if \<not> fss_activity ss then (Inr (), ss)
      else
        let ss = ss\<lparr>fss_activity := False\<rparr>;
            (ok, ss) = (case fss_bw ss of
               None \<Rightarrow> (True, ss)
             | Some w \<Rightarrow>
                 if length (bw_buf w) > 0
                 then let (ok, w, f) = bufio_Flush (se_flush e) (w, fss_disk ss)
                      in (ok, ss\<lparr>fss_bw := Some w, fss_disk := f\<rparr>)
                 else (True, ss))
        in if \<not> ok then (Inl ErrFile, ss)
           else if o_DoSync (fss_opts ss) \<or> forceSync
           then if se_sync e then (Inr (), ss\<lparr>fss_synced := fss_synced ss + 1\<rparr>) else (Inl ErrFile, ss)
           else (Inr (), ss))"

definition fss_Flush :: "sub_env \<Rightarrow> file_sub_store \<Rightarrow> (file_err + unit) \<times> file_sub_store" where
  "fss_Flush e ss = (if \<not> se_lock e then (Inl ErrFile, ss) else fss_flush e False (fss_lockFile ss))"

definition fss_autoSync :: "sub_env \<Rightarrow> file_sub_store \<Rightarrow> file_sub_store" where
  "fss_autoSync e ss =
     (if fss_closed ss then ss
      else if fss_activity ss \<and> se_lock e then snd (fss_flush e True (fss_lockFile ss)) else ss)"

definition fss_shrinkBuffer :: "sub_env \<Rightarrow> file_sub_store \<Rightarrow> file_sub_store" where
  "fss_shrinkBuffer e ss =
     (if fss_closed ss \<or> \<not> fss_open ss then ss
      else case fss_bw ss of
        None \<Rightarrow> ss
      | Some w \<Rightarrow> (let (_, w, f) = tryShrinkBuffer (se_flush e) True (w, fss_disk ss) in ss\<lparr>fss_bw := Some w, fss_disk := f\<rparr>))"

text \<open>\<open>closeFileIfOpened\<close> with the callback of the store: flush, and close whatever happens.\<close>

definition fss_closeFile :: "sub_env \<Rightarrow> file_sub_store \<Rightarrow> file_sub_store" where
  "fss_closeFile e ss = (if fss_open ss then (snd (fss_flush e False ss))\<lparr>fss_open := False\<rparr> else ss)"

definition fss_Close :: "sub_env \<Rightarrow> file_sub_store \<Rightarrow> (file_err + unit) \<times> file_sub_store" where
  "fss_Close e ss =
     (if fss_closed ss then (Inr (), ss)
      else
        let ss = ss\<lparr>fss_closed := True\<rparr>
        in if fss_open ss
           then let (r, ss) = fss_flush e True ss in (r, ss\<lparr>fss_open := False\<rparr>)
           else (Inr (), ss))"

section \<open>Compaction\<close>

definition fss_shouldCompact :: "int \<Rightarrow> file_sub_store \<Rightarrow> bool" where
  "fss_shouldCompact now ss =
     (if \<not> o_CompactEnabled (fss_opts ss) then False
      else if o_CompactMinFileSize (fss_opts ss) > 0 \<and> fss_fileSize ss < o_CompactMinFileSize (fss_opts ss) then False
      else
        let frag = (if fss_numRecs ss = 0 then 100 else fss_delRecs ss * 100 div fss_numRecs ss)
        in if frag < o_CompactFragmentation (fss_opts ss) then False
           else \<not> (now - fss_compactTS ss < o_CompactInterval (fss_opts ss) * 1000000000))"

fun compact_seqs :: "sub_env \<Rightarrow> u64 \<Rightarrow> u64 list \<Rightarrow> bytes \<times> file_sub_store \<Rightarrow> (bytes \<times> file_sub_store) option" where
  "compact_seqs e i [] acc = Some acc"
| "compact_seqs e i (q # qs) (out, ss) =
     (case writeRecord (crcTable (fss_opts ss)) (se_old e) subRecMsg SubStateUpdate_Size SubStateUpdate_bytes
             \<lparr>su_ID = i, su_Seqno = q\<rparr> of
        None \<Rightarrow> None
      | Some bs \<Rightarrow> compact_seqs e i qs (out @ bs, count_record subRecMsg (length bs) ss))"

fun compact_subs :: "sub_env \<Rightarrow> fsub list \<Rightarrow> bytes \<times> file_sub_store \<Rightarrow> (bytes \<times> file_sub_store) option" where
  "compact_subs e [] acc = Some acc"
| "compact_subs e (s # subs) (out, ss) =
     (case writeRecord (crcTable (fss_opts ss)) (se_old e) subRecNew SubState_Size SubState_bytes (fb_sub s) of
        None \<Rightarrow> None
      | Some bs \<Rightarrow>
          (case compact_seqs e (ID (fb_sub s)) (se_seqs e (map fst (fb_seqnos s)))
                  (out @ bs, count_record subRecNew (length bs) ss) of
             None \<Rightarrow> None
           | Some acc \<Rightarrow> compact_subs e subs acc))"

definition fss_compact :: "sub_env \<Rightarrow> file_sub_store \<Rightarrow> file_sub_store" where
  "fss_compact e ss =
     (case se_compact e of
        Compact_failed wrote \<Rightarrow> ss\<lparr>fss_activity := fss_activity ss \<or> wrote\<rparr>
      | Compact_ok \<Rightarrow>
          (case compact_subs e (se_subs e (map snd (fss_subs ss)))
                  (getTempFile, ss\<lparr>fss_numRecs := 0, fss_delRecs := 0, fss_fileSize := 0\<rparr>) of
             None \<Rightarrow> ss
           | Some (out, ss) \<Rightarrow> ss\<lparr>fss_disk := out, fss_compactTS := se_now e\<rparr>))"

definition fss_maybe_compact :: "sub_env \<Rightarrow> file_sub_store \<Rightarrow> file_sub_store" where
  "fss_maybe_compact e ss =
     (if fss_shouldCompact (se_now e) ss then fss_compact e (fss_closeFile e ss) else ss)"

section \<open>Operations\<close>

definition set_sub :: "spbSubState \<Rightarrow> (u64, fsub) gomap \<Rightarrow> (u64, fsub) gomap" where
  "set_sub sub subs =
     mput (ID sub) (case mget subs (ID sub) of
        Some s \<Rightarrow> s\<lparr>fb_sub := sub\<rparr> | None \<Rightarrow> \<lparr>fb_sub = sub, fb_seqnos = []\<rparr>) subs"

definition fss_add_pending :: "u64 \<Rightarrow> u64 \<Rightarrow> (u64, fsub) gomap \<Rightarrow> (u64, fsub) gomap" where
  "fss_add_pending subid seqno subs =
     (case mget subs subid of
        None \<Rightarrow> subs
      | Some s \<Rightarrow>
          let sub = (if seqno > LastSent (fb_sub s) then (fb_sub s)\<lparr>LastSent := seqno\<rparr> else fb_sub s)
          in mput subid \<lparr>fb_sub = sub, fb_seqnos = mput seqno () (fb_seqnos s)\<rparr> subs)"

definition fss_ack_pending :: "u64 \<Rightarrow> u64 \<Rightarrow> (u64, fsub) gomap \<Rightarrow> (u64, fsub) gomap" where
  "fss_ack_pending subid seqno subs =
     (case mget subs subid of
        None \<Rightarrow> subs
      | Some s \<Rightarrow> mput subid (s\<lparr>fb_seqnos := mdel seqno (fb_seqnos s)\<rparr>) subs)"

text \<open>The ID the store gives the subscription is returned with the result.\<close>

definition file_CreateSub ::
  "sub_env \<Rightarrow> spbSubState \<Rightarrow> file_sub_store \<Rightarrow> (file_err + store_err + spbSubState) \<times> file_sub_store" where
  "file_CreateSub e sub ss =
     (if fss_limit ss > 0 \<and> int (length (fss_subs ss)) \<ge> fss_limit ss then (Inr (Inl ErrTooManySubs), ss)
      else
        let i = fss_maxSubID ss + 1; sub = sub\<lparr>ID := i\<rparr>; ss = ss\<lparr>fss_maxSubID := i\<rparr>;
            (r, ss) = fss_writeRecord e subRecNew SubState_Size SubState_bytes sub ss
        in case r of
             Inl err \<Rightarrow> (Inl err, ss\<lparr>fss_subs := mdel i (fss_subs ss)\<rparr>)
           | Inr _ \<Rightarrow> (Inr (Inr sub), ss\<lparr>fss_subs := mput i \<lparr>fb_sub = sub, fb_seqnos = []\<rparr> (fss_subs ss)\<rparr>))"

definition file_UpdateSub :: "sub_env \<Rightarrow> spbSubState \<Rightarrow> file_sub_store \<Rightarrow> (file_err + unit) \<times> file_sub_store" where
  "file_UpdateSub e sub ss =
     (let (r, ss) = fss_writeRecord e subRecUpdate SubState_Size SubState_bytes sub ss
      in case r of Inl err \<Rightarrow> (Inl err, ss) | Inr _ \<Rightarrow> (Inr (), ss\<lparr>fss_subs := set_sub sub (fss_subs ss)\<rparr>))"

definition file_DeleteSub :: "sub_env \<Rightarrow> u64 \<Rightarrow> file_sub_store \<Rightarrow> (file_err + unit) \<times> file_sub_store" where
  "file_DeleteSub e subid ss =
     (let (r, ss) = fss_writeRecord e subRecDel SubStateDelete_Size SubStateDelete_bytes \<lparr>sd_ID = subid\<rparr> ss
      in case mget (fss_subs ss) subid of
           None \<Rightarrow> (r, ss)
         | Some s \<Rightarrow>
             (r, fss_maybe_compact e (ss\<lparr>fss_subs := mdel subid (fss_subs ss),
                    fss_delRecs := fss_delRecs ss + int (length (fb_seqnos s))\<rparr>)))"

definition file_AddSeqPending :: "sub_env \<Rightarrow> u64 \<Rightarrow> u64 \<Rightarrow> file_sub_store \<Rightarrow> (file_err + unit) \<times> file_sub_store" where
  "file_AddSeqPending e subid seqno ss =
     (let (r, ss) = fss_writeRecord e subRecMsg SubStateUpdate_Size SubStateUpdate_bytes \<lparr>su_ID = subid, su_Seqno = seqno\<rparr> ss
      in case r of Inl err \<Rightarrow> (Inl err, ss) | Inr _ \<Rightarrow> (Inr (), ss\<lparr>fss_subs := fss_add_pending subid seqno (fss_subs ss)\<rparr>))"

definition file_AckSeqPending :: "sub_env \<Rightarrow> u64 \<Rightarrow> u64 \<Rightarrow> file_sub_store \<Rightarrow> (file_err + unit) \<times> file_sub_store" where
  "file_AckSeqPending e subid seqno ss =
     (let (r, ss) = fss_writeRecord e subRecAck SubStateUpdate_Size SubStateUpdate_bytes \<lparr>su_ID = subid, su_Seqno = seqno\<rparr> ss
      in case r of
           Inl err \<Rightarrow> (Inl err, ss)
         | Inr _ \<Rightarrow>
             if subid \<in> keys (fss_subs ss)
             then (Inr (), fss_maybe_compact e (ss\<lparr>fss_subs := fss_ack_pending subid seqno (fss_subs ss)\<rparr>))
             else (Inr (), ss))"

section \<open>Recovery\<close>

definition raise_max :: "u64 \<Rightarrow> file_sub_store \<Rightarrow> file_sub_store" where
  "raise_max i ss = (if i > fss_maxSubID ss then ss\<lparr>fss_maxSubID := i\<rparr> else ss)"

definition sub_record :: "nat \<Rightarrow> bytes \<Rightarrow> file_sub_store \<Rightarrow> file_err + file_sub_store" where
  "sub_record recType buf ss =
     (let ss = ss\<lparr>fss_fileSize := fss_fileSize ss + int (length buf + recordHeaderSize)\<rparr>
      in if recType = subRecNew then
           (case SubState_Unmarshal buf of
              Inl e \<Rightarrow> Inl (ErrUnmarshal e)
            | Inr sub \<Rightarrow>
                Inr (raise_max (ID sub) (ss\<lparr>fss_subs := mput (ID sub) \<lparr>fb_sub = sub, fb_seqnos = []\<rparr> (fss_subs ss),
                       fss_numRecs := fss_numRecs ss + 1\<rparr>)))
         else if recType = subRecUpdate then
           (case SubState_Unmarshal buf of
              Inl e \<Rightarrow> Inl (ErrUnmarshal e)
            | Inr sub \<Rightarrow>
                Inr (raise_max (ID sub) (ss\<lparr>fss_subs := set_sub sub (fss_subs ss),
                       fss_delRecs := fss_delRecs ss + (if ID sub \<in> keys (fss_subs ss) then 1 else 0),
                       fss_numRecs := fss_numRecs ss + 1\<rparr>)))
         else if recType = subRecDel then
           (case SubStateDelete_Unmarshal buf of
              Inl e \<Rightarrow> Inl (ErrUnmarshal e)
            | Inr d \<Rightarrow>
                Inr (raise_max (sd_ID d)
                  (case mget (fss_subs ss) (sd_ID d) of
                     None \<Rightarrow> ss
                   | Some s \<Rightarrow> ss\<lparr>fss_subs := mdel (sd_ID d) (fss_subs ss),
                                  fss_delRecs := fss_delRecs ss + 1 + int (length (fb_seqnos s))\<rparr>)))
         else if recType = subRecMsg then
           (case SubStateUpdate_Unmarshal buf of
              Inl e \<Rightarrow> Inl (ErrUnmarshal e)
            | Inr u \<Rightarrow>
                Inr (if su_ID u \<in> keys (fss_subs ss)
                     then ss\<lparr>fss_subs := fss_add_pending (su_ID u) (su_Seqno u) (fss_subs ss), fss_numRecs := fss_numRecs ss + 1\<rparr>
                     else ss))
         else if recType = subRecAck then
           (case SubStateUpdate_Unmarshal buf of
              Inl e \<Rightarrow> Inl (ErrUnmarshal e)
            | Inr u \<Rightarrow>
                Inr (if su_ID u \<in> keys (fss_subs ss)
                     then ss\<lparr>fss_subs := fss_ack_pending (su_ID u) (su_Seqno u) (fss_subs ss), fss_delRecs := fss_delRecs ss + 1\<rparr>
                     else ss))
         else Inl (ErrRecType recType))"

definition recoverSubscriptions :: "bool \<Rightarrow> file_sub_store \<Rightarrow> file_err + file_sub_store" where
  "recoverSubscriptions truncated ss =
     (case recover_loop (fss_opts ss) truncated sub_record (drop 4 (fss_disk ss)) 4 ss of
        Inl e \<Rightarrow> Inl e
      | Inr (ss', t) \<Rightarrow> Inr (ss'\<lparr>fss_disk := truncate_to t (fss_disk ss')\<rparr>))"

text \<open>The store on a file that exists or has just been created; \<open>disk\<close> is its content.\<close>

definition newFileSubStore :: "FileStoreOptions \<Rightarrow> int \<Rightarrow> bool \<Rightarrow> bool \<Rightarrow> bytes \<Rightarrow> file_err + file_sub_store" where
  "newFileSubStore opts limit doRecover truncated disk =
     (let ss = \<lparr>fss_opts = opts, fss_limit = limit, fss_subs = [], fss_maxSubID = 0, fss_disk = disk, fss_open = True,
                fss_bw = (if o_BufferSize opts > 0
                          then Some (createNewWriter (newBufferWriter subBufMinShrinkSize (nat (o_BufferSize opts)))) else None),
                fss_fileSize = 0, fss_numRecs = 0, fss_delRecs = 0, fss_compactTS = 0, fss_activity = False,
                fss_synced = 0, fss_closed = False\<rparr>
      in if \<not> checkFileVersion disk then Inl ErrFile
         else if doRecover
         then (case recoverSubscriptions truncated ss of Inl e \<Rightarrow> Inl e | Inr ss \<Rightarrow> Inr (ss\<lparr>fss_open := False\<rparr>))
         else Inr ss)"

end
