(* ===== verification/File_Subs_Props.thy ===== *)
theory File_Subs_Props
  imports File_Subs
begin

text \<open>
  The subscription store in files implements an abstract store: a map from subscription IDs to the subscription and its set of
  pending sequences. The file is a journal of the operations, and at any time the file alone replays to the
  state after some of the operations, all of them after a flush.
\<close>

section \<open>The journal of the subscriptions file\<close>

datatype sub_rec = S_new spbSubState | S_update spbSubState | S_del u64 | S_msg u64 u64 | S_ack u64 u64

fun sub_enc :: "sub_rec \<Rightarrow> nat \<times> bytes" where
  "sub_enc (S_new s) = (subRecNew, SubState_bytes s)"
| "sub_enc (S_update s) = (subRecUpdate, SubState_bytes s)"
| "sub_enc (S_del i) = (subRecDel, SubStateDelete_bytes \<lparr>sd_ID = i\<rparr>)"
| "sub_enc (S_msg i q) = (subRecMsg, SubStateUpdate_bytes \<lparr>su_ID = i, su_Seqno = q\<rparr>)"
| "sub_enc (S_ack i q) = (subRecAck, SubStateUpdate_bytes \<lparr>su_ID = i, su_Seqno = q\<rparr>)"

text \<open>A subscription fits in a record whatever its \<open>LastSent\<close> becomes.\<close>

definition sub_fits :: "spbSubState \<Rightarrow> bool" where
  "sub_fits s \<longleftrightarrow> SubState_ok s \<and> SubState_Size (s\<lparr>LastSent := 0\<rparr>) + 11 \<le> 0xFFFFFF"

fun sub_good :: "sub_rec \<Rightarrow> bool" where
  "sub_good (S_new s) = sub_fits s"
| "sub_good (S_update s) = sub_fits s"
| "sub_good _ = True"

definition sub_exec :: "sub_rec \<Rightarrow> file_sub_store \<Rightarrow> file_sub_store" where
  "sub_exec r ss = (case sub_record (fst (sub_enc r)) (snd (sub_enc r)) ss of Inl _ \<Rightarrow> ss | Inr ss' \<Rightarrow> ss')"

lemma sub_fits_size: "sub_fits s \<Longrightarrow> SubState_Size s \<le> 0xFFFFFF"
  using sovProtocol_le [of "LastSent s"] by (auto simp: sub_fits_def SubState_Size_def uint_size_def)

lemma sub_fits_LastSent [simp]: "sub_fits (s\<lparr>LastSent := q\<rparr>) = sub_fits s"
  by (simp add: sub_fits_def SubState_ok_def)

lemma update_size: "SubStateUpdate_Size u \<le> 22" "SubStateDelete_Size d \<le> 11"
  using sovProtocol_le [of "su_ID u"] sovProtocol_le [of "su_Seqno u"] sovProtocol_le [of "sd_ID d"]
  by (auto simp: SubStateUpdate_Size_def SubStateDelete_Size_def uint_size_def)

lemmas sub_types = subRecNew_def subRecUpdate_def subRecDel_def subRecAck_def subRecMsg_def

lemmas sub_sizes = SubState.size_bytes SubStateUpdate.size_bytes SubStateDelete.size_bytes

lemma sub_unmarshal:
  "sub_fits s \<Longrightarrow> SubState_Unmarshal (SubState_bytes s) = Inr s"
  "SubStateUpdate_Unmarshal (SubStateUpdate_bytes u) = Inr u"
  "SubStateDelete_Unmarshal (SubStateDelete_bytes d) = Inr d"
  using sub_fits_size [of s] update_size(1) [of u] update_size(2) [of d]
  by (auto intro!: SubState.unmarshal_bytes SubStateUpdate.unmarshal_bytes SubStateDelete.unmarshal_bytes simp: sub_fits_def)

lemma sub_small: "sub_fits s \<Longrightarrow> SubState_Size s < 16777216" "SubStateUpdate_Size u < 16777216" "SubStateDelete_Size d < 16777216"
  using sub_fits_size [of s] update_size(1) [of u] update_size(2) [of d] by auto

interpretation sub: journal sub_enc sub_record sub_exec sub_good
proof
  fix op s
  assume g: "sub_good op"
  show "rec_ok (sub_enc op)"
    using g by (cases op) (auto simp: rec_ok_def frame_ok_def sub_types sub_sizes sub_small)
  have "\<exists>s'. sub_record (fst (sub_enc op)) (snd (sub_enc op)) s = Inr s'"
    using g by (cases op) (auto simp: sub_record_def sub_types sub_unmarshal Let_def)
  then show "sub_record (fst (sub_enc op)) (snd (sub_enc op)) s = Inr (sub_exec op s)"
    by (auto simp: sub_exec_def)
qed

section \<open>The abstract store\<close>

type_synonym sub_view = "u64 \<rightharpoonup> spbSubState \<times> u64 set"

fun view_apply :: "sub_rec \<Rightarrow> sub_view \<Rightarrow> sub_view" where
  "view_apply (S_new s) v = v(ID s \<mapsto> (s, {}))"
| "view_apply (S_update s) v = v(ID s \<mapsto> (s, case v (ID s) of Some (_, P) \<Rightarrow> P | None \<Rightarrow> {}))"
| "view_apply (S_del i) v = v(i := None)"
| "view_apply (S_msg i q) v =
     (case v i of None \<Rightarrow> v | Some (s, P) \<Rightarrow> v(i \<mapsto> (if q > LastSent s then s\<lparr>LastSent := q\<rparr> else s, insert q P)))"
| "view_apply (S_ack i q) v = (case v i of None \<Rightarrow> v | Some (s, P) \<Rightarrow> v(i \<mapsto> (s, P - {q})))"

definition abs_subs :: "(u64, fsub) gomap \<Rightarrow> sub_view" where
  "abs_subs m i = map_option (\<lambda>s. (fb_sub s, keys (fb_seqnos s))) (mget m i)"

fun subs_apply :: "sub_rec \<Rightarrow> (u64, fsub) gomap \<Rightarrow> (u64, fsub) gomap" where
  "subs_apply (S_new s) m = mput (ID s) \<lparr>fb_sub = s, fb_seqnos = []\<rparr> m"
| "subs_apply (S_update s) m = set_sub s m"
| "subs_apply (S_del i) m = mdel i m"
| "subs_apply (S_msg i q) m = fss_add_pending i q m"
| "subs_apply (S_ack i q) m = fss_ack_pending i q m"

lemma keys_mget: "i \<in> keys m \<longleftrightarrow> mget m i \<noteq> None"
  by (simp add: keys_def mget_None_iff)

lemma abs_subs_apply: "abs_subs (subs_apply r m) = view_apply r (abs_subs m)"
  by (cases r) (auto simp: abs_subs_def fun_eq_iff set_sub_def fss_add_pending_def fss_ack_pending_def Let_def split: option.splits)

lemma mdel_absent: "mget m i = None \<Longrightarrow> mdel i m = m"
  by (induction m) (auto split: if_splits)

lemma sub_exec_subs:
  assumes "sub_good r"
  shows "fss_subs (sub_exec r ss) = subs_apply r (fss_subs ss)"
  using assms
  by (cases r) (auto simp: sub_exec_def sub_record_def sub_types sub_unmarshal Let_def raise_max_def keys_mget
      fss_add_pending_def fss_ack_pending_def mdel_absent split: option.splits)

section \<open>What the file holds\<close>

text \<open>A content of the file that replays to a state of the abstract store.\<close>

definition holds :: "FileStoreOptions \<Rightarrow> bytes \<Rightarrow> sub_view \<Rightarrow> bool" where
  "holds opts f v \<longleftrightarrow>
     (\<exists>rs. (\<forall>r \<in> set rs. sub_good r) \<and> f = WriteInt fileVersion @ frames (crcTable opts) (map sub_enc rs) \<and>
        fold view_apply rs Map.empty = v)"

definition rec_frame :: "FileStoreOptions \<Rightarrow> sub_rec \<Rightarrow> bytes" where
  "rec_frame opts r = frame (crcTable opts) (fst (sub_enc r)) (snd (sub_enc r))"

lemma holds_append: "holds opts f v \<Longrightarrow> sub_good r \<Longrightarrow> holds opts (f @ rec_frame opts r) (view_apply r v)"
  unfolding holds_def rec_frame_def
  by (elim exE conjE, rename_tac rs, rule_tac x = "rs @ [r]" in exI) (cases "sub_enc r", auto)

lemma exec_abs: "\<forall>r \<in> set rs. sub_good r \<Longrightarrow> abs_subs (fss_subs (fold sub_exec rs ss)) = fold view_apply rs (abs_subs (fss_subs ss))"
  by (induction rs arbitrary: ss) (auto simp: sub_exec_subs abs_subs_apply)

lemma checkFileVersion_ok: "checkFileVersion (WriteInt fileVersion @ f)"
  by (simp add: checkFileVersion_def ReadInt_WriteInt_app fileVersion_def)

lemma sub_exec_disk: "fss_disk (fold sub_exec rs ss) = fss_disk ss"
proof (induction rs arbitrary: ss)
  case (Cons r rs)
  have "fss_disk (sub_exec r ss) = fss_disk ss"
    by (cases r) (auto simp: sub_exec_def sub_record_def Let_def raise_max_def split: sum.splits option.splits if_splits)
  then show ?case using Cons by simp
qed simp

lemma holds_recovers:
  assumes "holds opts f v"
  shows "\<exists>ss. newFileSubStore opts limit True truncated f = Inr ss \<and> abs_subs (fss_subs ss) = v \<and> fss_disk ss = f"
proof -
  obtain rs where rs: "\<forall>r \<in> set rs. sub_good r" "f = WriteInt fileVersion @ frames (crcTable opts) (map sub_enc rs)"
    "fold view_apply rs Map.empty = v" using assms by (auto simp: holds_def)
  have "abs_subs [] = Map.empty" by (simp add: abs_subs_def fun_eq_iff)
  with rs show ?thesis
    by (auto simp: newFileSubStore_def recoverSubscriptions_def checkFileVersion_ok sub.recover_all sub_exec_disk truncate_to_def exec_abs Let_def)
qed

section \<open>The invariant\<close>

definition sub_env_ok :: "sub_env \<Rightarrow> bool" where
  "sub_env_ok e \<longleftrightarrow> se_lock e \<and> se_flush e = Written \<and> se_direct e = Written \<and>
     (\<forall>xs. mset (se_subs e xs) = mset xs) \<and> (\<forall>xs. mset (se_seqs e xs) = mset xs)"

definition buffered :: "file_sub_store \<Rightarrow> bytes" where
  "buffered ss = (case fss_bw ss of None \<Rightarrow> [] | Some w \<Rightarrow> bw_buf w)"

definition writer_ok :: "file_sub_store \<Rightarrow> bool" where
  "writer_ok ss \<longleftrightarrow>
     (case fss_bw ss of None \<Rightarrow> True | Some w \<Rightarrow> bw_ok w \<and> bw_minShrinkSize w = subBufMinShrinkSize \<and>
        bw_maxSize w = nat (o_BufferSize (fss_opts ss))) \<and>
     (fss_open ss \<and> fss_activity ss \<or> buffered ss = [])"

text \<open>What an operation on the file leaves alone.\<close>

definition same_subs :: "file_sub_store \<Rightarrow> file_sub_store \<Rightarrow> bool" where
  "same_subs ss ss' \<longleftrightarrow>
     fss_opts ss' = fss_opts ss \<and> fss_limit ss' = fss_limit ss \<and> fss_subs ss' = fss_subs ss \<and> fss_maxSubID ss' = fss_maxSubID ss"

text \<open>The file after an operation that may have moved the buffer to it: nothing, or all that is buffered.\<close>

definition moved :: "file_sub_store \<Rightarrow> file_sub_store \<Rightarrow> bool" where
  "moved ss ss' \<longleftrightarrow>
     writer_ok ss' \<and> same_subs ss ss' \<and> fss_disk ss' @ buffered ss' = fss_disk ss @ buffered ss \<and>
     fss_disk ss' \<in> {fss_disk ss, fss_disk ss @ buffered ss}"

definition appended :: "file_sub_store \<Rightarrow> bytes \<Rightarrow> file_sub_store \<Rightarrow> bool" where
  "appended ss bs ss' \<longleftrightarrow>
     writer_ok ss' \<and> same_subs ss ss' \<and> fss_disk ss' @ buffered ss' = fss_disk ss @ buffered ss @ bs \<and>
     fss_disk ss' \<in> {fss_disk ss, fss_disk ss @ buffered ss, fss_disk ss @ buffered ss @ bs}"

lemma lockFile_moved: "writer_ok ss \<Longrightarrow> moved ss (fss_lockFile ss) \<and> fss_open (fss_lockFile ss) \<and>
    fss_disk (fss_lockFile ss) = fss_disk ss \<and> buffered (fss_lockFile ss) = buffered ss"
  by (auto simp: fss_lockFile_def moved_def same_subs_def writer_ok_def buffered_def createNewWriter_def bw_ok_def split: option.splits)

lemma flush_moved:
  assumes "writer_ok ss" "sub_env_ok e" "fss_flush e force ss = (r, ss')"
  shows "moved ss ss' \<and> fss_open ss' = fss_open ss \<and> buffered ss' = []"
proof (cases "fss_activity ss")
  case False
  then show ?thesis using assms(1,3) by (auto simp: fss_flush_def moved_def same_subs_def writer_ok_def)
next
  case True
  show ?thesis
  proof (cases "fss_bw ss")
    case None
    then show ?thesis using assms True
      by (auto simp: fss_flush_def Let_def moved_def same_subs_def writer_ok_def buffered_def split: if_splits)
  next
    case (Some w)
    then have w: "bw_ok w" "bw_minShrinkSize w = subBufMinShrinkSize" "bw_maxSize w = nat (o_BufferSize (fss_opts ss))"
      using assms(1) by (auto simp: writer_ok_def)
    have "ss' = ss\<lparr>fss_bw := Some (w\<lparr>bw_buf := []\<rparr>), fss_disk := fss_disk ss @ bw_buf w, fss_activity := False, fss_synced := fss_synced ss'\<rparr>"
      using assms(2,3) True Some w(1) by (cases "bw_buf w") (auto simp: fss_flush_def Let_def sub_env_ok_def Flush_written split: if_splits)
    then show ?thesis using w Some
      by (cases ss') (auto simp: moved_def same_subs_def writer_ok_def buffered_def bw_ok_def)
  qed
qed

lemma writer_okD:
  assumes "writer_ok ss" "fss_bw ss = Some w"
  shows "bw_ok w" "bw_minShrinkSize w = subBufMinShrinkSize \<and> bw_maxSize w = nat (o_BufferSize (fss_opts ss))" "buffered ss = bw_buf w"
  using assms by (auto simp: writer_ok_def buffered_def)

lemma buffer_sizes:
  "write_buffered o1 o2 bs (w, f) = (ok, w', f') \<Longrightarrow> bw_minShrinkSize w' = bw_minShrinkSize w \<and> bw_maxSize w' = bw_maxSize w"
  "expand o1 n (w, f) = (ok, w', f') \<Longrightarrow> bw_minShrinkSize w' = bw_minShrinkSize w \<and> bw_maxSize w' = bw_maxSize w"
  "tryShrinkBuffer o1 b (w, f) = (ok, w', f') \<Longrightarrow> bw_minShrinkSize w' = bw_minShrinkSize w \<and> bw_maxSize w' = bw_maxSize w"
  by (auto simp: write_buffered_def bufio_Write_def bufio_direct_def bufio_Flush_def expand_def createNewWriter_def
      tryShrinkBuffer_def Let_def split: if_splits wr.splits prod.splits)

lemma make_room_moved:
  assumes "writer_ok ss" "sub_env_ok e" "fss_open ss" "fss_make_room e n ss = (ok, ss')"
  shows "ok \<and> moved ss ss' \<and> fss_open ss'"
proof (cases "fss_bw ss")
  case None
  then show ?thesis using assms by (auto simp: fss_make_room_def moved_def same_subs_def)
next
  case (Some w)
  note w = writer_okD [OF assms(1) Some]
  obtain ok1 w1 f1 where x: "expand Written n (w, fss_disk ss) = (ok1, w1, f1)" by (cases "expand Written n (w, fss_disk ss)")
  from expand_written [OF w(1) x] buffer_sizes(2) [OF x] show ?thesis
    using assms Some w x
    by (auto simp: fss_make_room_def sub_env_ok_def moved_def same_subs_def writer_ok_def buffered_def split: if_splits)
qed

lemma put_appended:
  assumes "writer_ok ss" "sub_env_ok e" "fss_open ss" "fss_put e bs ss = (ok, ss')"
  shows "ok \<and> appended ss bs (count_record t n (fss_check_shrink ss')) \<and> fss_open ss'"
proof (cases "fss_bw ss")
  case None
  then show ?thesis using assms
    by (auto simp: fss_put_def sub_env_ok_def appended_def same_subs_def count_record_def fss_check_shrink_def writer_ok_def buffered_def)
next
  case (Some w)
  note w = writer_okD [OF assms(1) Some]
  obtain ok1 w1 f1 where x: "write_buffered Written Written bs (w, fss_disk ss) = (ok1, w1, f1)"
    by (cases "write_buffered Written Written bs (w, fss_disk ss)")
  have "bw_ok (if bw_shrinkReq w1 then checkShrinkRequest w1 else w1)" if "bw_ok w1"
    using that by (auto simp: checkShrinkRequest_def bw_ok_def)
  moreover have "bw_buf (if bw_shrinkReq w1 then checkShrinkRequest w1 else w1) = bw_buf w1"
    "bw_minShrinkSize (if bw_shrinkReq w1 then checkShrinkRequest w1 else w1) = bw_minShrinkSize w1"
    "bw_maxSize (if bw_shrinkReq w1 then checkShrinkRequest w1 else w1) = bw_maxSize w1"
    by (auto simp: checkShrinkRequest_def)
  moreover have "ss' = ss\<lparr>fss_bw := Some w1, fss_disk := f1\<rparr>" "ok = ok1"
    using assms(2,4) Some x by (auto simp: fss_put_def sub_env_ok_def)
  ultimately show ?thesis
    using write_buffered_written [OF w(1) x] buffer_sizes(1) [OF x] w assms(3)
    by (auto simp: appended_def same_subs_def count_record_def fss_check_shrink_def writer_ok_def buffered_def split del: if_split)
qed

lemma moved_appended:
  assumes "moved ss ss1" "appended ss1 bs ss2"
  shows "appended ss bs ss2"
  using assms by (auto simp: moved_def appended_def same_subs_def)

lemma writeRecord_appended:
  assumes "writer_ok ss" "sub_env_ok e"
    and "writeRecord (crcTable (fss_opts ss)) (se_old e) t size_of bytes_of r = Some bs" "fss_writeRecord e t size_of bytes_of r ss = (res, ss')"
  shows "res = Inr () \<and> appended ss bs ss'"
proof -
  obtain ok1 s1 where s1: "fss_make_room e (size_of r + recordHeaderSize) (fss_lockFile ss) = (ok1, s1)" by fastforce
  obtain ok2 s2 where s2: "fss_put e bs s1 = (ok2, s2)" by fastforce
  have lock: "moved ss (fss_lockFile ss)" "fss_open (fss_lockFile ss)" using lockFile_moved [OF assms(1)] by auto
  then have room: "ok1" "moved (fss_lockFile ss) s1" "fss_open s1"
    using make_room_moved [OF _ assms(2) lock(2) s1] by (auto simp: moved_def)
  have put: "ok2" "appended s1 bs (count_record t (length bs) (fss_check_shrink s2))"
    using put_appended [OF _ assms(2) room(3) s2] room(2) by (auto simp: moved_def)
  have "fss_opts s1 = fss_opts ss" using lock room by (simp add: moved_def same_subs_def)
  then have "res = Inr ()" "ss' = count_record t (length bs) (fss_check_shrink s2)"
    using assms(2-4) s1 s2 room(1) put(1) by (auto simp: fss_writeRecord_def sub_env_ok_def)
  then show ?thesis using moved_appended [OF lock(1) moved_appended [OF room(2) put(2)]] by simp
qed

lemma shrink_moved:
  assumes "writer_ok ss" "sub_env_ok e" "int subBufMinShrinkSize < o_BufferSize (fss_opts ss)"
  shows "moved ss (fss_shrinkBuffer e ss)"
proof (cases "fss_bw ss")
  case None
  then show ?thesis using assms(1) by (auto simp: fss_shrinkBuffer_def moved_def same_subs_def)
next
  case (Some w)
  note w = writer_okD [OF assms(1) Some]
  obtain ok1 w1 f1 where x: "tryShrinkBuffer Written True (w, fss_disk ss) = (ok1, w1, f1)"
    by (cases "tryShrinkBuffer Written True (w, fss_disk ss)")
  have "bw_minShrinkSize w < bw_maxSize w" "0 < bw_minShrinkSize w" using w(2) assms(3) by (simp_all add: subBufMinShrinkSize_def)
  from tryShrink_written [OF w(1) this x] buffer_sizes(3) [OF x] show ?thesis
    using assms Some w x
    by (auto simp: fss_shrinkBuffer_def sub_env_ok_def moved_def same_subs_def writer_ok_def buffered_def)
qed

lemma closeFile_moved:
  assumes "writer_ok ss" "sub_env_ok e"
  shows "moved ss (fss_closeFile e ss) \<and> buffered (fss_closeFile e ss) = [] \<and> \<not> fss_open (fss_closeFile e ss)"
proof (cases "fss_open ss")
  case True
  obtain r s1 where "fss_flush e False ss = (r, s1)" by fastforce
  from flush_moved [OF assms this] this True show ?thesis
    by (auto simp: fss_closeFile_def moved_def same_subs_def writer_ok_def buffered_def split: option.splits)
qed (use assms(1) in \<open>auto simp: fss_closeFile_def moved_def same_subs_def writer_ok_def\<close>)

section \<open>Compaction\<close>

definition live_records :: "sub_env \<Rightarrow> fsub \<Rightarrow> sub_rec list" where
  "live_records e s = S_new (fb_sub s) # map (S_msg (ID (fb_sub s))) (se_seqs e (map fst (fb_seqnos s)))"

lemma write_sub:
  "sub_fits s \<Longrightarrow> writeRecord (crcTable opts) old subRecNew SubState_Size SubState_bytes s = Some (rec_frame opts (S_new s))"
  "sub_fits s \<Longrightarrow> writeRecord (crcTable opts) old subRecUpdate SubState_Size SubState_bytes s = Some (rec_frame opts (S_update s))"
  "writeRecord (crcTable opts) old subRecDel SubStateDelete_Size SubStateDelete_bytes \<lparr>sd_ID = i\<rparr> = Some (rec_frame opts (S_del i))"
  "writeRecord (crcTable opts) old subRecMsg SubStateUpdate_Size SubStateUpdate_bytes \<lparr>su_ID = i, su_Seqno = q\<rparr> = Some (rec_frame opts (S_msg i q))"
  "writeRecord (crcTable opts) old subRecAck SubStateUpdate_Size SubStateUpdate_bytes \<lparr>su_ID = i, su_Seqno = q\<rparr> = Some (rec_frame opts (S_ack i q))"
  using update_size sub_fits_size [of s]
  by (simp_all add: rec_frame_def writeRecord_frame [OF SubState.proto_msg_axioms] writeRecord_frame [OF SubStateUpdate.proto_msg_axioms]
      writeRecord_frame [OF SubStateDelete.proto_msg_axioms] order_trans [OF update_size(1)] order_trans [OF update_size(2)])

definition kept :: "file_sub_store \<Rightarrow> file_sub_store \<Rightarrow> bool" where
  "kept ss ss' \<longleftrightarrow> same_subs ss ss' \<and> fss_bw ss' = fss_bw ss \<and> fss_open ss' = fss_open ss \<and> fss_disk ss' = fss_disk ss"

lemma kept_simps [simp]: "kept ss ss" "kept ss (count_record t n ss') = kept ss ss'"
  by (auto simp: kept_def same_subs_def count_record_def)

lemma kept_opts: "kept ss ss' \<Longrightarrow> fss_opts ss' = fss_opts ss"
  by (simp add: kept_def same_subs_def)

lemma compact_seqs_frames:
  "kept s0 ss \<Longrightarrow> \<exists>ss'. compact_seqs e i qs (out, ss) = Some (out @ frames (crcTable (fss_opts s0)) (map sub_enc (map (S_msg i) qs)), ss') \<and> kept s0 ss'"
proof (induction qs arbitrary: out ss)
  case (Cons q qs)
  have "\<exists>ss'. compact_seqs e i qs (out @ rec_frame (fss_opts s0) (S_msg i q), count_record subRecMsg (length (rec_frame (fss_opts s0) (S_msg i q))) ss) =
      Some ((out @ rec_frame (fss_opts s0) (S_msg i q)) @ frames (crcTable (fss_opts s0)) (map sub_enc (map (S_msg i) qs)), ss') \<and> kept s0 ss'"
    by (rule Cons(1)) (simp add: Cons(2))
  then show ?case using kept_opts [OF Cons(2)] by (simp add: write_sub(4)) (simp add: rec_frame_def)
qed simp

lemma compact_subs_frames:
  "kept s0 ss \<Longrightarrow> \<forall>s \<in> set subs. sub_fits (fb_sub s) \<Longrightarrow>
   \<exists>ss'. compact_subs e subs (out, ss) =
     Some (out @ frames (crcTable (fss_opts s0)) (map sub_enc (concat (map (live_records e) subs))), ss') \<and> kept s0 ss'"
proof (induction subs arbitrary: out ss)
  case (Cons s subs)
  have "kept s0 (count_record subRecNew n ss)" for n using Cons(2) by simp
  from compact_seqs_frames [OF this, of e "ID (fb_sub s)" "se_seqs e (map fst (fb_seqnos s))" "out @ rec_frame (fss_opts s0) (S_new (fb_sub s))"]
  obtain s1 where s1: "compact_seqs e (ID (fb_sub s)) (se_seqs e (map fst (fb_seqnos s)))
      (out @ rec_frame (fss_opts s0) (S_new (fb_sub s)), count_record subRecNew (length (rec_frame (fss_opts s0) (S_new (fb_sub s)))) ss) =
      Some (out @ frames (crcTable (fss_opts s0)) (map sub_enc (live_records e s)), s1)" "kept s0 s1"
    by (auto simp: live_records_def rec_frame_def)
  have "\<exists>ss'. compact_subs e subs (out @ frames (crcTable (fss_opts s0)) (map sub_enc (live_records e s)), s1) =
      Some ((out @ frames (crcTable (fss_opts s0)) (map sub_enc (live_records e s))) @
        frames (crcTable (fss_opts s0)) (map sub_enc (concat (map (live_records e) subs))), ss') \<and> kept s0 ss'"
    by (rule Cons(1) [OF s1(2)]) (use Cons(3) in simp)
  then show ?case using Cons(3) s1(1) kept_opts [OF Cons(2)] by (simp add: write_sub(1))
qed simp

text \<open>The records of a subscription replay to it when no pending sequence is above its \<open>LastSent\<close>.\<close>

lemma fold_msgs:
  "v i = Some (s, P) \<Longrightarrow> \<forall>q \<in> set qs. q \<le> LastSent s \<Longrightarrow> fold view_apply (map (S_msg i) qs) v = v(i \<mapsto> (s, P \<union> set qs))"
proof (induction qs arbitrary: v P)
  case (Cons q qs)
  then show ?case using Cons(1) [of "v(i \<mapsto> (s, insert q P))" "insert q P"] by (auto simp: not_less)
qed (simp add: fun_upd_idem)

lemma fold_live:
  assumes "sub_env_ok e" "\<forall>q \<in> keys (fb_seqnos s). q \<le> LastSent (fb_sub s)"
  shows "fold view_apply (live_records e s) v = v(ID (fb_sub s) \<mapsto> (fb_sub s, keys (fb_seqnos s)))"
proof -
  have "set (se_seqs e (map fst (fb_seqnos s))) = keys (fb_seqnos s)"
    using assms(1) by (metis sub_env_ok_def keys_def mset_eq_setD set_map)
  then show ?thesis using assms(2) fold_msgs [of "v(ID (fb_sub s) \<mapsto> (fb_sub s, {}))" "ID (fb_sub s)" "fb_sub s" "{}"]
    by (auto simp: live_records_def)
qed

end
