(* ===== verification/File_Subs_Refine.thy ===== *)
theory File_Subs_Refine
  imports File_Subs_Props
begin

text \<open>
  The operations of the subscription store in files refine those of the abstract store, and the file is at any time a
  journal of the operations up to some point: crash consistency, and durability after a flush.
\<close>

section \<open>Well-formed views\<close>

definition view_ok :: "sub_view \<Rightarrow> bool" where
  "view_ok v \<longleftrightarrow> (\<forall>i s P. v i = Some (s, P) \<longrightarrow> ID s = i \<and> sub_fits s \<and> (\<forall>q \<in> P. q \<le> LastSent s))"

fun rec_pre :: "sub_rec \<Rightarrow> sub_view \<Rightarrow> bool" where
  "rec_pre (S_new s) v \<longleftrightarrow> sub_fits s"
| "rec_pre (S_update s) v \<longleftrightarrow> sub_fits s \<and> (\<forall>t P. v (ID s) = Some (t, P) \<longrightarrow> (\<forall>q \<in> P. q \<le> LastSent s))"
| "rec_pre _ v \<longleftrightarrow> True"

lemma rec_pre_good: "rec_pre r v \<Longrightarrow> sub_good r"
  by (cases r) auto

lemma view_ok_upd:
  "view_ok v \<Longrightarrow> ID s = i \<Longrightarrow> sub_fits s \<Longrightarrow> \<forall>q \<in> P. q \<le> LastSent s \<Longrightarrow> view_ok (v(i \<mapsto> (s, P)))"
  by (auto simp: view_ok_def)

lemma view_ok_apply:
  assumes "view_ok v" "rec_pre r v"
  shows "view_ok (view_apply r v)"
proof (cases r)
  case (S_update s)
  then show ?thesis using assms by (auto intro!: view_ok_upd split: option.splits)
next
  case (S_del i)
  then show ?thesis using assms(1) by (auto simp: view_ok_def)
next
  case (S_msg i q)
  have "view_ok (v(i \<mapsto> (if q > LastSent s then s\<lparr>LastSent := q\<rparr> else s, insert q P)))" if "v i = Some (s, P)" for s P
    using assms(1) that by (intro view_ok_upd) (fastforce simp: view_ok_def not_less)+
  then show ?thesis using S_msg assms(1) by (auto split: option.splits)
next
  case (S_ack i q)
  have "view_ok (v(i \<mapsto> (s, P - {q})))" if "v i = Some (s, P)" for s P
    using assms(1) that by (intro view_ok_upd) (auto simp: view_ok_def)
  then show ?thesis using S_ack assms(1) by (auto split: option.splits)
qed (use assms in \<open>auto intro!: view_ok_upd\<close>)

lemma wf_subs_apply: "wf_map m \<Longrightarrow> wf_map (subs_apply r m)"
  by (cases r) (auto simp: set_sub_def fss_add_pending_def fss_ack_pending_def Let_def split: option.splits)

section \<open>Compaction keeps the state\<close>

definition entry :: "fsub \<Rightarrow> u64 \<times> spbSubState \<times> u64 set" where
  "entry s = (ID (fb_sub s), fb_sub s, keys (fb_seqnos s))"

lemma fold_live_records:
  assumes "sub_env_ok e" "\<forall>s \<in> set subs. \<forall>q \<in> keys (fb_seqnos s). q \<le> LastSent (fb_sub s)"
  shows "fold view_apply (concat (map (live_records e) subs)) v = v ++ map_of (rev (map entry subs))"
  using assms(2)
proof (induction subs arbitrary: v)
  case (Cons s subs)
  have "fold view_apply (live_records e s) v = v(ID (fb_sub s) \<mapsto> (fb_sub s, keys (fb_seqnos s)))"
    using fold_live [OF assms(1)] Cons(2) by simp
  then show ?case using Cons by (simp add: entry_def)
qed simp

lemma abs_subs_entries:
  assumes "view_ok (abs_subs m)" "wf_map m"
  shows "map_of (map entry (map snd m)) = abs_subs m" "\<forall>s \<in> set (map snd m). sub_fits (fb_sub s) \<and> (\<forall>q \<in> keys (fb_seqnos s). q \<le> LastSent (fb_sub s))"
    "distinct (map fst (map entry (map snd m)))"
proof -
  have mem: "ID (fb_sub s) = i \<and> sub_fits (fb_sub s) \<and> (\<forall>q \<in> keys (fb_seqnos s). q \<le> LastSent (fb_sub s))" if "(i, s) \<in> set m" for i s
  proof -
    have "mget m i = Some s" using that assms(2) by (simp add: wf_map_def)
    then have "abs_subs m i = Some (fb_sub s, keys (fb_seqnos s))" by (simp add: abs_subs_def)
    then show ?thesis using assms(1) by (auto simp: view_ok_def)
  qed
  have e: "map entry (map snd m) = map (\<lambda>(i, s). (i, fb_sub s, keys (fb_seqnos s))) m"
    using mem by (auto simp: entry_def)
  show "map_of (map entry (map snd m)) = abs_subs m"
    unfolding e by (induction m) (auto simp: abs_subs_def fun_eq_iff)
  show "\<forall>s \<in> set (map snd m). sub_fits (fb_sub s) \<and> (\<forall>q \<in> keys (fb_seqnos s). q \<le> LastSent (fb_sub s))"
    using mem by auto
  have "map fst (map entry (map snd m)) = map fst m" unfolding e by auto
  from arg_cong [OF this, of distinct] show "distinct (map fst (map entry (map snd m)))" using assms(2) unfolding wf_map_def by (rule iffD2)
qed

lemma compacted_holds:
  assumes "view_ok (abs_subs m)" "wf_map m" "sub_env_ok e"
  shows "holds opts (getTempFile @ frames (crcTable opts) (map sub_enc (concat (map (live_records e) (se_subs e (map snd m)))))) (abs_subs m)"
proof -
  define subs where "subs = se_subs e (map snd m)"
  have p: "mset subs = mset (map snd m)" using assms(3) by (simp add: subs_def sub_env_ok_def)
  note m = abs_subs_entries [OF assms(1,2)]
  have set: "set subs = set (map snd m)" using p by (rule mset_eq_setD)
  have "mset (rev (map entry subs)) = mset (map entry (map snd m))" using p by (metis mset_map mset_rev)
  then have "map_of (rev (map entry subs)) = abs_subs m" using map_of_perm [OF m(3)] m(1) by metis
  then have "fold view_apply (concat (map (live_records e) subs)) Map.empty = abs_subs m"
    using fold_live_records [OF assms(3), of subs Map.empty] m(2) set by auto
  moreover have "\<forall>r \<in> set (concat (map (live_records e) subs)). sub_good r"
    using m(2) set by (auto simp: live_records_def)
  ultimately show ?thesis unfolding holds_def subs_def [symmetric] getTempFile_def by blast
qed

section \<open>The invariant\<close>

definition sub_inv :: "u64 \<times> sub_view \<Rightarrow> file_sub_store \<Rightarrow> bool" where
  "sub_inv st ss \<longleftrightarrow>
     writer_ok ss \<and> fss_maxSubID ss = fst st \<and> abs_subs (fss_subs ss) = snd st \<and> wf_map (fss_subs ss) \<and> view_ok (snd st) \<and>
     holds (fss_opts ss) (fss_disk ss @ buffered ss) (snd st)"

lemma compact_state:
  assumes "view_ok (abs_subs (fss_subs ss))" "wf_map (fss_subs ss)" "sub_env_ok e" "se_compact e = Compact_ok"
  shows "\<exists>s1. kept (ss\<lparr>fss_numRecs := 0, fss_delRecs := 0, fss_fileSize := 0\<rparr>) s1 \<and>
    fss_compact e ss = s1\<lparr>fss_disk := getTempFile @ frames (crcTable (fss_opts ss))
      (map sub_enc (concat (map (live_records e) (se_subs e (map snd (fss_subs ss)))))), fss_compactTS := se_now e\<rparr>"
proof -
  let ?S = "ss\<lparr>fss_numRecs := 0, fss_delRecs := 0, fss_fileSize := 0\<rparr>"
  have "set (se_subs e (map snd (fss_subs ss))) = set (map snd (fss_subs ss))"
    using assms(3) by (metis mset_eq_setD sub_env_ok_def)
  then have "\<forall>s \<in> set (se_subs e (map snd (fss_subs ss))). sub_fits (fb_sub s)"
    using abs_subs_entries(2) [OF assms(1,2)] by simp
  then have "\<exists>s1. compact_subs e (se_subs e (map snd (fss_subs ss))) (getTempFile, ?S) =
      Some (getTempFile @ frames (crcTable (fss_opts ?S)) (map sub_enc (concat (map (live_records e) (se_subs e (map snd (fss_subs ss)))))), s1) \<and>
      kept ?S s1"
    by (intro compact_subs_frames) simp_all
  then show ?thesis using assms(4) by (auto simp: fss_compact_def)
qed

lemma compact_inv:
  assumes "sub_inv st ss" "sub_env_ok e" "\<not> fss_open ss" "buffered ss = []"
  shows "sub_inv st (fss_compact e ss) \<and> same_subs ss (fss_compact e ss) \<and> holds (fss_opts ss) (fss_disk (fss_compact e ss)) (snd st)"
proof (cases "se_compact e")
  case (Compact_failed b)
  then show ?thesis using assms by (auto simp: fss_compact_def sub_inv_def writer_ok_def buffered_def same_subs_def split: option.splits)
next
  case Compact_ok
  have v: "view_ok (abs_subs (fss_subs ss))" "wf_map (fss_subs ss)" "abs_subs (fss_subs ss) = snd st" using assms(1) by (auto simp: sub_inv_def)
  from compact_state [OF v(1,2) assms(2) Compact_ok] obtain s1
    where k: "kept (ss\<lparr>fss_numRecs := 0, fss_delRecs := 0, fss_fileSize := 0\<rparr>) s1"
      and c: "fss_compact e ss = s1\<lparr>fss_disk := getTempFile @ frames (crcTable (fss_opts ss))
        (map sub_enc (concat (map (live_records e) (se_subs e (map snd (fss_subs ss)))))), fss_compactTS := se_now e\<rparr>"
    by blast
  have h: "holds (fss_opts ss) (fss_disk (fss_compact e ss)) (snd st)" using compacted_holds [OF v(1,2) assms(2)] v(3) by (simp add: c)
  have b: "buffered (fss_compact e ss) = []" using k assms(4) by (simp add: c kept_def buffered_def)
  have s: "same_subs ss (fss_compact e ss)" using k by (simp add: c kept_def same_subs_def)
  have "writer_ok (fss_compact e ss)"
    using assms(1,3,4) k b by (auto simp: sub_inv_def writer_ok_def c kept_def same_subs_def split: option.splits)
  then show ?thesis using assms(1) h b s by (simp add: sub_inv_def same_subs_def)
qed

text \<open>After an operation the file holds what it held before, or the state before or after the operation.\<close>

definition file_at :: "file_sub_store \<Rightarrow> sub_view \<Rightarrow> sub_view \<Rightarrow> file_sub_store \<Rightarrow> bool" where
  "file_at ss v v' ss' \<longleftrightarrow>
     fss_disk ss' = fss_disk ss \<or> holds (fss_opts ss) (fss_disk ss') v \<or> holds (fss_opts ss) (fss_disk ss') v'"

lemma moved_inv:
  assumes "sub_inv st ss" "moved ss ss'"
  shows "sub_inv st ss' \<and> fss_opts ss' = fss_opts ss \<and> fss_limit ss' = fss_limit ss \<and> file_at ss (snd st) (snd st) ss'"
  using assms by (auto simp: sub_inv_def moved_def same_subs_def file_at_def)

text \<open>A record has been written and the map of subscriptions updated accordingly.\<close>

lemma appended_inv:
  assumes "sub_inv (mx, v) ss" "appended ss (rec_frame (fss_opts ss) r) ss1" "rec_pre r v"
    and f: "fss_subs ss' = subs_apply r (fss_subs ss1)" "fss_disk ss' = fss_disk ss1" "fss_bw ss' = fss_bw ss1" "fss_open ss' = fss_open ss1"
      "fss_activity ss' = fss_activity ss1" "fss_opts ss' = fss_opts ss1" "fss_limit ss' = fss_limit ss1" "fss_maxSubID ss' = fss_maxSubID ss1"
  shows "sub_inv (mx, view_apply r v) ss' \<and> fss_opts ss' = fss_opts ss \<and> fss_limit ss' = fss_limit ss \<and>
    file_at ss v (view_apply r v) ss'"
proof -
  have h: "holds (fss_opts ss) (fss_disk ss @ buffered ss) v" using assms(1) by (simp add: sub_inv_def)
  from holds_append [OF this rec_pre_good [OF assms(3)]]
  have h': "holds (fss_opts ss) (fss_disk ss @ buffered ss @ rec_frame (fss_opts ss) r) (view_apply r v)" by simp
  have "buffered ss' = buffered ss1" by (simp add: f buffered_def)
  moreover have "writer_ok ss'"
    using assms(2) by (simp add: appended_def writer_ok_def buffered_def f cong: option.case_cong)
  moreover have "wf_map (fss_subs ss')" using assms(1,2) by (auto simp: f sub_inv_def appended_def same_subs_def intro: wf_subs_apply)
  moreover have "abs_subs (fss_subs ss') = view_apply r v" "view_ok (view_apply r v)"
    using assms(1,2,3) by (auto simp: f sub_inv_def appended_def same_subs_def abs_subs_apply intro: view_ok_apply)
  ultimately show ?thesis using assms(1,2) h h'
    by (auto simp: sub_inv_def appended_def same_subs_def file_at_def f)
qed

lemma maybe_compact_inv:
  assumes "sub_inv st ss" "sub_env_ok e"
  shows "sub_inv st (fss_maybe_compact e ss) \<and> fss_opts (fss_maybe_compact e ss) = fss_opts ss \<and>
    fss_limit (fss_maybe_compact e ss) = fss_limit ss \<and> file_at ss (snd st) (snd st) (fss_maybe_compact e ss)"
proof (cases "fss_shouldCompact (se_now e) ss")
  case True
  have "writer_ok ss" using assms(1) by (simp add: sub_inv_def)
  note c = closeFile_moved [OF this assms(2)]
  note m = moved_inv [OF assms(1) conjunct1 [OF c]]
  have "sub_inv st (fss_compact e (fss_closeFile e ss)) \<and> same_subs (fss_closeFile e ss) (fss_compact e (fss_closeFile e ss)) \<and>
      holds (fss_opts (fss_closeFile e ss)) (fss_disk (fss_compact e (fss_closeFile e ss))) (snd st)"
    using compact_inv [OF _ assms(2), of st "fss_closeFile e ss"] m c by auto
  then show ?thesis using True m by (auto simp: fss_maybe_compact_def file_at_def same_subs_def)
qed (use assms in \<open>auto simp: fss_maybe_compact_def file_at_def\<close>)

lemma lock_flush_moved:
  assumes "writer_ok ss" "sub_env_ok e"
  shows "moved ss (snd (fss_flush e force (fss_lockFile ss))) \<and> buffered (snd (fss_flush e force (fss_lockFile ss))) = []"
proof -
  note l = lockFile_moved [OF assms(1)]
  obtain r s1 where f: "fss_flush e force (fss_lockFile ss) = (r, s1)" by fastforce
  have "writer_ok (fss_lockFile ss)" using l by (simp add: moved_def)
  from flush_moved [OF this assms(2) f] l show ?thesis unfolding f by (auto simp: moved_def same_subs_def)
qed

section \<open>Operations\<close>

datatype sub_op =
    Op_create spbSubState | Op_update spbSubState | Op_delete u64 | Op_add u64 u64 | Op_ack u64 u64
  | Op_flush | Op_autoSync | Op_shrink | Op_close_file

fun sub_step :: "sub_env \<times> sub_op \<Rightarrow> file_sub_store \<Rightarrow> file_sub_store" where
  "sub_step (e, Op_create s) ss = snd (file_CreateSub e s ss)"
| "sub_step (e, Op_update s) ss = snd (file_UpdateSub e s ss)"
| "sub_step (e, Op_delete i) ss = snd (file_DeleteSub e i ss)"
| "sub_step (e, Op_add i q) ss = snd (file_AddSeqPending e i q ss)"
| "sub_step (e, Op_ack i q) ss = snd (file_AckSeqPending e i q ss)"
| "sub_step (e, Op_flush) ss = snd (fss_Flush e ss)"
| "sub_step (e, Op_autoSync) ss = fss_autoSync e ss"
| "sub_step (e, Op_shrink) ss = fss_shrinkBuffer e ss"
| "sub_step (e, Op_close_file) ss = fss_closeFile e ss"

text \<open>The abstract operations, on the highest ID given out and the map of subscriptions.\<close>

fun sub_spec :: "int \<Rightarrow> sub_op \<Rightarrow> u64 \<times> sub_view \<Rightarrow> u64 \<times> sub_view" where
  "sub_spec limit (Op_create s) (mx, v) =
     (if limit > 0 \<and> int (card (dom v)) \<ge> limit then (mx, v)
      else (mx + 1, view_apply (S_new (s\<lparr>ID := mx + 1\<rparr>)) v))"
| "sub_spec limit (Op_update s) (mx, v) = (mx, view_apply (S_update s) v)"
| "sub_spec limit (Op_delete i) (mx, v) = (mx, view_apply (S_del i) v)"
| "sub_spec limit (Op_add i q) (mx, v) = (mx, view_apply (S_msg i q) v)"
| "sub_spec limit (Op_ack i q) (mx, v) = (mx, view_apply (S_ack i q) v)"
| "sub_spec limit _ st = st"

text \<open>
  What the operations rely on: a subscription fits in a record, an update does not take \<open>LastSent\<close> below a pending
  sequence, and the buffer is only shrunk when it can be larger than the minimum.
\<close>

fun sub_pre :: "FileStoreOptions \<Rightarrow> sub_op \<Rightarrow> u64 \<times> sub_view \<Rightarrow> bool" where
  "sub_pre opts (Op_create s) (mx, v) \<longleftrightarrow> rec_pre (S_new (s\<lparr>ID := mx + 1\<rparr>)) v"
| "sub_pre opts (Op_update s) (mx, v) \<longleftrightarrow> rec_pre (S_update s) v"
| "sub_pre opts Op_shrink st \<longleftrightarrow> int subBufMinShrinkSize < o_BufferSize opts"
| "sub_pre opts _ st \<longleftrightarrow> True"

fun sub_pres :: "FileStoreOptions \<Rightarrow> int \<Rightarrow> (sub_env \<times> sub_op) list \<Rightarrow> u64 \<times> sub_view \<Rightarrow> bool" where
  "sub_pres opts limit [] st \<longleftrightarrow> True"
| "sub_pres opts limit ((e, x) # ops) st \<longleftrightarrow>
     sub_env_ok e \<and> sub_pre opts x st \<and> sub_pres opts limit ops (sub_spec limit x st)"

lemma length_card:
  assumes "wf_map m"
  shows "length m = card (dom (abs_subs m))"
proof -
  have "dom (abs_subs m) = keys m" by (auto simp: abs_subs_def keys_mget)
  then show ?thesis using assms distinct_card [of "map fst m"] by (simp add: keys_def wf_map_def)
qed

text \<open>The two shapes of a step: a record followed by a possible compaction, or a move of the buffer.\<close>

definition step_ok :: "u64 \<times> sub_view \<Rightarrow> file_sub_store \<Rightarrow> u64 \<times> sub_view \<Rightarrow> file_sub_store \<Rightarrow> bool" where
  "step_ok st ss st' ss' \<longleftrightarrow>
     sub_inv st' ss' \<and> fss_opts ss' = fss_opts ss \<and> fss_limit ss' = fss_limit ss \<and> file_at ss (snd st) (snd st') ss'"

lemma write_step:
  assumes "sub_inv (mx, v) ss" "sub_env_ok e" "rec_pre r v"
    and "writeRecord (crcTable (fss_opts ss)) (se_old e) t size_of bytes_of x = Some (rec_frame (fss_opts ss) r)"
    and "fss_writeRecord e t size_of bytes_of x ss = (res, ss1)"
    and f: "fss_subs ss' = subs_apply r (fss_subs ss1)" "fss_disk ss' = fss_disk ss1" "fss_bw ss' = fss_bw ss1" "fss_open ss' = fss_open ss1"
      "fss_activity ss' = fss_activity ss1" "fss_opts ss' = fss_opts ss1" "fss_limit ss' = fss_limit ss1" "fss_maxSubID ss' = fss_maxSubID ss1"
  shows "res = Inr () \<and> step_ok (mx, v) ss (mx, view_apply r v) ss' \<and>
    step_ok (mx, v) ss (mx, view_apply r v) (fss_maybe_compact e ss')"
proof -
  have "writer_ok ss" using assms(1) by (simp add: sub_inv_def)
  note w = writeRecord_appended [OF this assms(2,4,5)]
  note a = appended_inv [OF assms(1) conjunct2 [OF w] assms(3) f]
  note c = maybe_compact_inv [OF conjunct1 [OF a] assms(2)]
  show ?thesis using w a c by (auto simp: step_ok_def file_at_def)
qed

lemma subs_apply_absent: "i \<notin> keys m \<Longrightarrow> fss_ack_pending i q m = m" "mget m i = None \<Longrightarrow> mdel i m = m"
  by (simp_all add: fss_ack_pending_def keys_mget mdel_absent)

lemma create_step_ok:
  assumes inv: "sub_inv (mx, v) ss" and e: "sub_env_ok e" and pre: "rec_pre (S_new (s\<lparr>ID := mx + 1\<rparr>)) v"
    and room: "\<not> (fss_limit ss > 0 \<and> int (length (fss_subs ss)) \<ge> fss_limit ss)"
  shows "step_ok (mx, v) ss (mx + 1, view_apply (S_new (s\<lparr>ID := mx + 1\<rparr>)) v) (snd (file_CreateSub e s ss))"
proof -
  let ?i = "mx + 1" and ?s = "s\<lparr>ID := mx + 1\<rparr>"
  have mx: "fss_maxSubID ss = mx" using inv by (simp add: sub_inv_def)
  have inv1: "sub_inv (?i, v) (ss\<lparr>fss_maxSubID := ?i\<rparr>)"
    using inv by (auto simp: sub_inv_def writer_ok_def buffered_def split: option.splits)
  obtain res s1 where s1: "fss_writeRecord e subRecNew SubState_Size SubState_bytes ?s (ss\<lparr>fss_maxSubID := ?i\<rparr>) = (res, s1)" by fastforce
  have "writeRecord (crcTable (fss_opts (ss\<lparr>fss_maxSubID := ?i\<rparr>))) (se_old e) subRecNew SubState_Size SubState_bytes ?s =
      Some (rec_frame (fss_opts (ss\<lparr>fss_maxSubID := ?i\<rparr>)) (S_new ?s))"
    using pre by (intro write_sub(1)) simp
  note ws = write_step [OF inv1 e pre this s1, of "s1\<lparr>fss_subs := subs_apply (S_new ?s) (fss_subs s1)\<rparr>"]
  have res: "res = Inr ()" and so: "step_ok (?i, v) (ss\<lparr>fss_maxSubID := ?i\<rparr>) (?i, view_apply (S_new ?s) v)
      (s1\<lparr>fss_subs := subs_apply (S_new ?s) (fss_subs s1)\<rparr>)"
    using ws by (auto simp del: subs_apply.simps view_apply.simps)
  have step: "snd (file_CreateSub e s ss) = s1\<lparr>fss_subs := subs_apply (S_new ?s) (fss_subs s1)\<rparr>"
    using room mx s1 res by (auto simp: file_CreateSub_def Let_def)
  show ?thesis using so by (simp add: step step_ok_def file_at_def del: subs_apply.simps view_apply.simps)
qed

lemma delete_step_ok:
  assumes inv: "sub_inv (mx, v) ss" and e: "sub_env_ok e"
  shows "step_ok (mx, v) ss (mx, view_apply (S_del i) v) (snd (file_DeleteSub e i ss))"
proof -
  obtain res s1 where s1: "fss_writeRecord e subRecDel SubStateDelete_Size SubStateDelete_bytes \<lparr>sd_ID = i\<rparr> ss = (res, s1)" by fastforce
  have ws: "step_ok (mx, v) ss (mx, view_apply (S_del i) v) ss' \<and>
     step_ok (mx, v) ss (mx, view_apply (S_del i) v) (fss_maybe_compact e ss')"
    if "ss' = s1\<lparr>fss_subs := mdel i (fss_subs s1), fss_delRecs := d\<rparr>" for ss' d
    using write_step [OF inv e _ write_sub(3) s1, of ss'] that by simp
  show ?thesis
  proof (cases "mget (fss_subs s1) i")
    case None
    then show ?thesis using ws [OF refl, of "fss_delRecs s1"] s1 by (simp add: file_DeleteSub_def mdel_absent)
  next
    case (Some s)
    then show ?thesis using ws [OF refl] s1 by (simp add: file_DeleteSub_def)
  qed
qed

lemma update_steps_ok:
  assumes inv: "sub_inv (mx, v) ss" and e: "sub_env_ok e"
  shows "rec_pre (S_update s) v \<Longrightarrow> step_ok (mx, v) ss (mx, view_apply (S_update s) v) (snd (file_UpdateSub e s ss))"
    "step_ok (mx, v) ss (mx, view_apply (S_msg i q) v) (snd (file_AddSeqPending e i q ss))"
    "step_ok (mx, v) ss (mx, view_apply (S_ack i q) v) (snd (file_AckSeqPending e i q ss))"
proof -
  obtain r1 s1 where s1: "fss_writeRecord e subRecUpdate SubState_Size SubState_bytes s ss = (r1, s1)" by fastforce
  obtain r2 s2 where s2: "fss_writeRecord e subRecMsg SubStateUpdate_Size SubStateUpdate_bytes \<lparr>su_ID = i, su_Seqno = q\<rparr> ss = (r2, s2)" by fastforce
  obtain r3 s3 where s3: "fss_writeRecord e subRecAck SubStateUpdate_Size SubStateUpdate_bytes \<lparr>su_ID = i, su_Seqno = q\<rparr> ss = (r3, s3)" by fastforce
  show "rec_pre (S_update s) v \<Longrightarrow> step_ok (mx, v) ss (mx, view_apply (S_update s) v) (snd (file_UpdateSub e s ss))"
    using write_step [OF inv e _ write_sub(2) s1, of "s1\<lparr>fss_subs := subs_apply (S_update s) (fss_subs s1)\<rparr>"] s1
    by (simp add: file_UpdateSub_def)
  show "step_ok (mx, v) ss (mx, view_apply (S_msg i q) v) (snd (file_AddSeqPending e i q ss))"
    using write_step [OF inv e _ write_sub(4) s2, of "s2\<lparr>fss_subs := subs_apply (S_msg i q) (fss_subs s2)\<rparr>"] s2
    by (simp add: file_AddSeqPending_def)
  show "step_ok (mx, v) ss (mx, view_apply (S_ack i q) v) (snd (file_AckSeqPending e i q ss))"
    using write_step [OF inv e _ write_sub(5) s3, of "s3\<lparr>fss_subs := subs_apply (S_ack i q) (fss_subs s3)\<rparr>"] s3
    by (auto simp: file_AckSeqPending_def subs_apply_absent)
qed

lemma sub_step_ok:
  assumes "sub_inv st ss" "sub_env_ok e" "sub_pre (fss_opts ss) x st"
  shows "step_ok st ss (sub_spec (fss_limit ss) x st) (sub_step (e, x) ss)"
proof -
  obtain mx v where st: "st = (mx, v)" by (cases st)
  have w: "writer_ok ss" and inv: "sub_inv (mx, v) ss" using assms(1) st by (simp_all add: sub_inv_def)
  have move: "step_ok st ss st ss'" if "moved ss ss'" for ss' using moved_inv [OF assms(1) that] by (simp add: step_ok_def)
  show ?thesis
  proof (cases x)
    case (Op_create s)
    have n: "length (fss_subs ss) = card (dom v)" using length_card [of "fss_subs ss"] inv by (simp add: sub_inv_def)
    have pre: "rec_pre (S_new (s\<lparr>ID := mx + 1\<rparr>)) v" using assms(3) Op_create st by simp
    show ?thesis
    proof (cases "fss_limit ss > 0 \<and> int (length (fss_subs ss)) \<ge> fss_limit ss")
      case True
      then show ?thesis using n Op_create st assms(1) by (simp add: file_CreateSub_def step_ok_def file_at_def)
    next
      case False
      have "sub_spec (fss_limit ss) x st = (mx + 1, view_apply (S_new (s\<lparr>ID := mx + 1\<rparr>)) v)" using False Op_create st n by auto
      then show ?thesis using create_step_ok [OF inv assms(2) pre False] Op_create st by (simp del: view_apply.simps)
    qed
  next
    case Op_flush
    then show ?thesis using move lock_flush_moved [OF w assms(2)] st assms(2) by (simp add: fss_Flush_def sub_env_ok_def)
  next
    case Op_autoSync
    have "moved ss ss" using w by (simp add: moved_def same_subs_def)
    then show ?thesis using Op_autoSync move lock_flush_moved [OF w assms(2)] st by (simp add: fss_autoSync_def)
  next
    case Op_shrink
    then show ?thesis using move shrink_moved [OF w assms(2)] assms(3) st by simp
  next
    case Op_close_file
    then show ?thesis using move closeFile_moved [OF w assms(2)] st by simp
  qed (use assms(3) st update_steps_ok [OF inv assms(2)] delete_step_ok [OF inv assms(2)] in \<open>simp_all del: view_apply.simps\<close>)
qed

section \<open>Runs\<close>

definition spec_run :: "int \<Rightarrow> (sub_env \<times> sub_op) list \<Rightarrow> u64 \<times> sub_view" where
  "spec_run limit ops = fold (\<lambda>(_, x). sub_spec limit x) ops (0, Map.empty)"

lemma sub_pres_append:
  "sub_pres opts limit (xs @ ys) st \<longleftrightarrow>
   sub_pres opts limit xs st \<and> sub_pres opts limit ys (fold (\<lambda>(_, x). sub_spec limit x) xs st)"
proof (induction xs arbitrary: st)
  case (Cons x xs)
  then show ?case by (cases x) simp
qed simp

definition new_store :: "FileStoreOptions \<Rightarrow> int \<Rightarrow> file_sub_store \<Rightarrow> bool" where
  "new_store opts limit ss \<longleftrightarrow> newFileSubStore opts limit False False (WriteInt fileVersion) = Inr ss"

lemma new_store_inv:
  assumes "new_store opts limit ss" "0 \<le> o_BufferSize opts"
  shows "sub_inv (0, Map.empty) ss \<and> fss_opts ss = opts \<and> fss_limit ss = limit \<and> holds opts (fss_disk ss) Map.empty"
proof -
  have "holds opts (WriteInt fileVersion) Map.empty" by (auto simp: holds_def intro: exI [of _ "[]"])
  moreover have "abs_subs [] = Map.empty" by (simp add: abs_subs_def fun_eq_iff)
  ultimately show ?thesis using assms checkFileVersion_ok [of "[]"]
    by (auto simp: new_store_def newFileSubStore_def sub_inv_def writer_ok_def buffered_def wf_map_def view_ok_def bw_ok_def
        createNewWriter_def newBufferWriter_def subBufMinShrinkSize_def Let_def split: if_splits)
qed

lemma sub_run_inv:
  assumes "new_store opts limit ss0" "0 \<le> o_BufferSize opts" "sub_pres opts limit ops (0, Map.empty)" "ss = fold sub_step ops ss0"
  shows "sub_inv (spec_run limit ops) ss \<and> fss_opts ss = opts \<and> fss_limit ss = limit \<and>
    (\<exists>j \<le> length ops. holds opts (fss_disk ss) (snd (spec_run limit (take j ops))))"
  using assms(3,4)
proof (induction ops arbitrary: ss rule: rev_induct)
  case Nil
  then show ?case using new_store_inv [OF assms(1,2)] by (simp add: spec_run_def)
next
  case (snoc x ops)
  obtain e y where x: "x = (e, y)" by (cases x)
  define s1 where "s1 = fold sub_step ops ss0"
  have pre: "sub_pres opts limit ops (0, Map.empty)" "sub_env_ok e" "sub_pre opts y (spec_run limit ops)"
    using snoc(2) x by (auto simp: sub_pres_append spec_run_def)
  from snoc(1) [OF pre(1) s1_def] obtain j where IH: "sub_inv (spec_run limit ops) s1" "fss_opts s1 = opts" "fss_limit s1 = limit"
    "j \<le> length ops" "holds opts (fss_disk s1) (snd (spec_run limit (take j ops)))" by auto
  have "step_ok (spec_run limit ops) s1 (sub_spec limit y (spec_run limit ops)) ss"
    using sub_step_ok [OF IH(1) pre(2), of y] pre(3) IH(2,3) snoc(3) x by (simp add: s1_def)
  moreover have r: "spec_run limit (ops @ [x]) = sub_spec limit y (spec_run limit ops)" by (simp add: spec_run_def x)
  ultimately have s: "sub_inv (spec_run limit (ops @ [x])) ss" "fss_opts ss = opts" "fss_limit ss = limit"
    and d: "fss_disk ss = fss_disk s1 \<or> holds opts (fss_disk ss) (snd (spec_run limit ops)) \<or> holds opts (fss_disk ss) (snd (spec_run limit (ops @ [x])))"
    using IH(2,3) by (auto simp: step_ok_def file_at_def)
  from d have "\<exists>j \<le> length (ops @ [x]). holds opts (fss_disk ss) (snd (spec_run limit (take j (ops @ [x]))))"
  proof (elim disjE)
    assume "fss_disk ss = fss_disk s1"
    then show ?thesis using IH(4,5) by (intro exI [of _ j]) simp
  next
    assume "holds opts (fss_disk ss) (snd (spec_run limit ops))"
    then show ?thesis by (intro exI [of _ "length ops"]) simp
  next
    assume "holds opts (fss_disk ss) (snd (spec_run limit (ops @ [x])))"
    then show ?thesis by (intro exI [of _ "length (ops @ [x])"]) simp
  qed
  then show ?case using s by simp
qed

text \<open>C3: The subscription store in files implements the abstract store: after any sequence of operations, with compactions, flushes, background
  synchronisations, shrinking of the buffer and closings of the file anywhere in it, the subscriptions in memory are those of the abstract
  store, and once the store has been flushed, a restart recovers from the file exactly these subscriptions with their pending sequences.
\<close>

theorem file_subs_durable:
  assumes "new_store opts limit ss0" "0 \<le> o_BufferSize opts" "sub_pres opts limit ops (0, Map.empty)" "sub_env_ok e"
    and "ss = fold sub_step ops ss0"
  shows "(fss_maxSubID ss, abs_subs (fss_subs ss)) = spec_run limit ops \<and>
    (\<exists>ss'. newFileSubStore opts limit True truncated (fss_disk (snd (fss_Flush e ss))) = Inr ss' \<and>
       abs_subs (fss_subs ss') = abs_subs (fss_subs ss))"
proof -
  note r = sub_run_inv [OF assms(1-3,5)]
  then have w: "writer_ok ss" and v: "fss_maxSubID ss = fst (spec_run limit ops)" "abs_subs (fss_subs ss) = snd (spec_run limit ops)"
    by (auto simp: sub_inv_def)
  have m: "moved ss (snd (fss_Flush e ss))" "buffered (snd (fss_Flush e ss)) = []"
    using lock_flush_moved [OF w assms(4)] assms(4) by (auto simp: fss_Flush_def sub_env_ok_def)
  have "sub_inv (spec_run limit ops) (snd (fss_Flush e ss))" using moved_inv [OF conjunct1 [OF r] m(1)] by simp
  then have "holds opts (fss_disk (snd (fss_Flush e ss))) (abs_subs (fss_subs ss))"
    using m v r by (simp add: sub_inv_def moved_def same_subs_def)
  then show ?thesis using holds_recovers v by (metis prod.collapse)
qed

text \<open>C12: If the process dies at any point between two operations, without a flush, a restart always succeeds, and what it recovers is the state of the
  abstract store after some of the operations: a prefix of the history, never a part of an operation or a mixture.
\<close>

theorem file_subs_crash_prefix:
  assumes "new_store opts limit ss0" "0 \<le> o_BufferSize opts" "sub_pres opts limit ops (0, Map.empty)"
  shows "\<exists>j ss'. j \<le> length ops \<and> newFileSubStore opts limit True truncated (fss_disk (fold sub_step ops ss0)) = Inr ss' \<and>
    abs_subs (fss_subs ss') = snd (spec_run limit (take j ops))"
  using sub_run_inv [OF assms refl] holds_recovers by blast

section \<open>Witnesses\<close>

definition sample_sub_env :: sub_env where
  "sample_sub_env = \<lparr>se_lock = True, se_flush = Written, se_direct = Written, se_sync = True, se_compact = Compact_ok,
     se_now = 10 ^ 18, se_old = (\<lambda>_. CHR ''x''), se_subs = rev, se_seqs = rev\<rparr>"

definition sample_sub_ops :: "(sub_env \<times> sub_op) list" where
  "sample_sub_ops = [(sample_sub_env, Op_create sample_SubState), (sample_sub_env, Op_create sample_SubState),
     (sample_sub_env, Op_add 1 5), (sample_sub_env, Op_shrink), (sample_sub_env, Op_delete 2), (sample_sub_env, Op_close_file)]"

lemma sample_sub_fits: "sub_fits (sample_SubState\<lparr>ID := i\<rparr>)"
proof -
  have "bytes_size s \<le> 11 + length s" "uint_size v \<le> 11" "bool_size b \<le> 2" for s v b
    using sovProtocol_le [of v] sovProtocol_le [of "of_nat (length s)"]
    by (auto simp: bytes_size_def uint_size_def bool_size_def)
  note sizes = this
  show ?thesis
    using sizes(1) [of "''me''"] sizes(1) [of "''in''"] sizes(1) [of "''ack''"] sizes(1) [of "''dur''"] sizes(1) [of "[]"]
      sizes(2) [of i] sizes(2) [of "of_int 1024"] sizes(2) [of "of_int (- 1)"] sizes(2) [of 0]
      sizes(3) [of True] sizes(3) [of False]
    by (simp add: sub_fits_def SubState_Size_def sample_SubState_def SubState_ok_def int32_def)
qed

lemma sample_sub_env_ok: "sub_env_ok sample_sub_env"
  by (simp add: sub_env_ok_def sample_sub_env_def)

lemma sample_sub_pres: "sub_pres DefaultFileStoreOptions 0 sample_sub_ops (0, Map.empty)"
  by (simp add: sample_sub_ops_def sample_sub_env_ok sample_sub_fits DefaultFileStoreOptions_def subBufMinShrinkSize_def)

lemma sample_spec_run:
  "spec_run 0 sample_sub_ops = (2, [1 \<mapsto> (sample_SubState\<lparr>ID := 1, LastSent := 5\<rparr>, {5})])"
  by (simp add: spec_run_def sample_sub_ops_def fun_eq_iff) (simp add: sample_SubState_def)

lemma sample_new_store: "\<exists>ss0. new_store DefaultFileStoreOptions 0 ss0"
  using checkFileVersion_ok [of "[]"] by (simp add: new_store_def newFileSubStore_def Let_def)

theorem file_subs_durable_witness:
  "\<exists>ss0 ss'. new_store DefaultFileStoreOptions 0 ss0 \<and>
     newFileSubStore DefaultFileStoreOptions 0 True False
       (fss_disk (snd (fss_Flush sample_sub_env (fold sub_step sample_sub_ops ss0)))) = Inr ss' \<and>
     abs_subs (fss_subs ss') = [1 \<mapsto> (sample_SubState\<lparr>ID := 1, LastSent := 5\<rparr>, {5})]"
proof -
  obtain ss0 where n: "new_store DefaultFileStoreOptions 0 ss0" using sample_new_store ..
  have b: "0 \<le> o_BufferSize DefaultFileStoreOptions" by (simp add: DefaultFileStoreOptions_def)
  note d = file_subs_durable [OF n b sample_sub_pres sample_sub_env_ok refl, of False, unfolded sample_spec_run prod.inject]
  then have v: "abs_subs (fss_subs (fold sub_step sample_sub_ops ss0)) = [1 \<mapsto> (sample_SubState\<lparr>ID := 1, LastSent := 5\<rparr>, {5})]"
    by (elim conjE)
  from d obtain ss' where ss': "newFileSubStore DefaultFileStoreOptions 0 True False
      (fss_disk (snd (fss_Flush sample_sub_env (fold sub_step sample_sub_ops ss0)))) = Inr ss'"
    "abs_subs (fss_subs ss') = abs_subs (fss_subs (fold sub_step sample_sub_ops ss0))"
    by (elim conjE exE)
  show ?thesis using n ss'(1) trans [OF ss'(2) v] by (intro exI conjI)
qed

theorem file_subs_crash_prefix_witness:
  "\<exists>ss0 j ss'. j \<le> 6 \<and> newFileSubStore DefaultFileStoreOptions 0 True False (fss_disk (fold sub_step sample_sub_ops ss0)) = Inr ss' \<and>
     abs_subs (fss_subs ss') = snd (spec_run 0 (take j sample_sub_ops))"
proof -
  obtain ss0 where n: "new_store DefaultFileStoreOptions 0 ss0" using sample_new_store ..
  have "0 \<le> o_BufferSize DefaultFileStoreOptions" "length sample_sub_ops = 6" by (simp_all add: DefaultFileStoreOptions_def sample_sub_ops_def)
  then show ?thesis using file_subs_crash_prefix [OF n _ sample_sub_pres] by metis
qed

section \<open>Compaction forgets the highest ID\<close>

lemma exec_max:
  "sub_good r \<Longrightarrow> (case r of S_new s \<Rightarrow> ID s < b | S_msg i q \<Rightarrow> True | _ \<Rightarrow> False) \<Longrightarrow>
   fss_maxSubID ss < b \<Longrightarrow> fss_maxSubID (sub_exec r ss) < b"
  by (cases r) (auto simp: sub_exec_def sub_record_def sub_types sub_unmarshal Let_def raise_max_def)

lemma exec_all_max:
  "\<forall>r \<in> set rs. sub_good r \<and> (case r of S_new s \<Rightarrow> ID s < b | S_msg i q \<Rightarrow> True | _ \<Rightarrow> False) \<Longrightarrow>
   fss_maxSubID ss < b \<Longrightarrow> fss_maxSubID (fold sub_exec rs ss) < b"
  by (induction rs arbitrary: ss) (auto simp: exec_max)

text \<open>C31: Recovery keeps track of the highest subscription ID found in the file, deleted subscriptions included, but a compaction only writes the
  live subscriptions: when the subscription with the highest ID has been deleted, a restart after a compaction gives IDs out again that
  have been used before.
\<close>

theorem compaction_forgets_ids:
  assumes "new_store opts limit ss0" "0 \<le> o_BufferSize opts" "sub_pres opts limit ops (0, Map.empty)"
    and "ss = fold sub_step ops ss0" "\<not> fss_open ss" "\<forall>i \<in> dom (abs_subs (fss_subs ss)). i < fss_maxSubID ss" "0 < fss_maxSubID ss"
    and "sub_env_ok e" "se_compact e = Compact_ok"
  shows "\<exists>ss'. newFileSubStore opts limit True truncated (fss_disk (fss_compact e ss)) = Inr ss' \<and>
    abs_subs (fss_subs ss') = abs_subs (fss_subs ss) \<and> fss_maxSubID ss' < fss_maxSubID ss"
proof -
  have inv: "sub_inv (spec_run limit ops) ss" "fss_opts ss = opts" using sub_run_inv [OF assms(1-4)] by auto
  then have v: "view_ok (abs_subs (fss_subs ss))" "wf_map (fss_subs ss)" "buffered ss = []"
    using assms(5) by (auto simp: sub_inv_def writer_ok_def)
  let ?subs = "se_subs e (map snd (fss_subs ss))"
  let ?rs = "concat (map (live_records e) ?subs)"
  have set: "set ?subs = set (map snd (fss_subs ss))" using assms(8) by (metis mset_eq_setD sub_env_ok_def)
  note m = abs_subs_entries [OF v(1,2)]
  have ids: "ID (fb_sub s) < fss_maxSubID ss" if "s \<in> set ?subs" for s
  proof -
    have "entry s \<in> set (map entry (map snd (fss_subs ss)))" using that set by auto
    then have "abs_subs (fss_subs ss) (ID (fb_sub s)) \<noteq> None"
      using m(1) by (metis entry_def fst_conv imageI map_of_eq_None_iff)
    then show ?thesis using assms(6) by blast
  qed
  have good: "\<forall>r \<in> set ?rs. sub_good r \<and> (case r of S_new s \<Rightarrow> ID s < fss_maxSubID ss | S_msg i q \<Rightarrow> True | _ \<Rightarrow> False)"
    using m(2) set ids by (auto simp: live_records_def)
  from compact_state [OF v(1,2) assms(8,9)] inv(2)
  have disk: "fss_disk (fss_compact e ss) = WriteInt fileVersion @ frames (crcTable opts) (map sub_enc ?rs)"
    by (auto simp: getTempFile_def)
  have "holds opts (fss_disk (fss_compact e ss)) (abs_subs (fss_subs ss))"
    using compacted_holds [OF v(1,2) assms(8), of opts] disk by (simp add: getTempFile_def)
  from holds_recovers [OF this] obtain ss' where ss': "newFileSubStore opts limit True truncated (fss_disk (fss_compact e ss)) = Inr ss'"
    "abs_subs (fss_subs ss') = abs_subs (fss_subs ss)" by blast
  have "fss_maxSubID (fold sub_exec ?rs s) < fss_maxSubID ss" if "fss_maxSubID s = 0" for s
    using exec_all_max [OF good, of s] that assms(7) by simp
  then have "fss_maxSubID ss' < fss_maxSubID ss"
    using ss'(1) good unfolding disk
    by (auto simp: newFileSubStore_def recoverSubscriptions_def checkFileVersion_ok sub.recover_all Let_def)
  then show ?thesis using ss' by blast
qed

theorem compaction_forgets_ids_witness:
  "\<exists>ss ss'. fss_maxSubID ss = 2 \<and> newFileSubStore DefaultFileStoreOptions 0 True False (fss_disk (fss_compact sample_sub_env ss)) = Inr ss' \<and>
     fss_maxSubID ss' < 2"
proof -
  obtain ss0 where n: "new_store DefaultFileStoreOptions 0 ss0" using sample_new_store ..
  have b: "0 \<le> o_BufferSize DefaultFileStoreOptions" by (simp add: DefaultFileStoreOptions_def)
  let ?ss = "fold sub_step sample_sub_ops ss0"
  have "sub_inv (spec_run 0 sample_sub_ops) ?ss" using sub_run_inv [OF n b sample_sub_pres refl] by simp
  then have v: "fss_maxSubID ?ss = 2" "abs_subs (fss_subs ?ss) = [1 \<mapsto> (sample_SubState\<lparr>ID := 1, LastSent := 5\<rparr>, {5})]"
    by (auto simp: sub_inv_def sample_spec_run)
  have "\<not> fss_open ?ss" by (simp add: sample_sub_ops_def fss_closeFile_def)
  moreover have "\<forall>i \<in> dom (abs_subs (fss_subs ?ss)). i < fss_maxSubID ?ss" "0 < fss_maxSubID ?ss" by (simp_all add: v)
  moreover have "se_compact sample_sub_env = Compact_ok" by (simp add: sample_sub_env_def)
  ultimately show ?thesis
    using compaction_forgets_ids [OF n b sample_sub_pres refl _ _ _ sample_sub_env_ok, of False] v(1) by metis
qed

end
