(* ===== verification/File_Manager.thy ===== *)
theory File_Manager
  imports Prelude
begin

text \<open>
  The files manager of the file store (\<open>filesManager\<close> in \<open>stores/filestore.go\<close>): the life cycle of the files and
  the soft limit on opened file descriptors. All \<open>file\<close> objects live in a heap indexed by their ID; the manager's
  map is the list of the IDs in it, in the order in which Go ranges over it. Whether the system could open a file and
  whether the \<open>beforeClose\<close> callback succeeds are parameters, and so is what other goroutines do while
  \<open>trySwitchState\<close> waits. The goroutines interleave at the compare-and-swap on the state of a file and at the lock of the
  manager: the steps of \<open>fm_step\<close>. The operations are sequences of such steps, and in any interleaving the number of
  opened descriptors is exact and a file in use is left alone.
\<close>

section \<open>State\<close>

datatype fstate = fileOpened | fileInUse | fileClosing | fileClosed | fileRemoved | fmClosed

record fmfile =
  fl_state :: fstate
  fl_handle :: bool
  fl_name :: string
  fl_append :: bool

record fman =
  fm_heap :: "nat \<rightharpoonup> fmfile"
  fm_files :: "nat list"
  fm_openedFDs :: int
  fm_limit :: int
  fm_nextID :: nat
  fm_isClosed :: bool

datatype fm_err = ErrFmClosed | ErrFmRemoved | ErrFmOpen | ErrFmLocked | ErrFmClose | ErrFmPanic

definition createFilesManager :: "int \<Rightarrow> fman" where
  "createFilesManager limit =
     \<lparr>fm_heap = Map.empty, fm_files = [], fm_openedFDs = 0, fm_limit = limit, fm_nextID = 0, fm_isClosed = False\<rparr>"

definition fl_is :: "fstate \<Rightarrow> nat \<Rightarrow> fman \<Rightarrow> bool" where
  "fl_is st i fm = (case fm_heap fm i of None \<Rightarrow> False | Some f \<Rightarrow> fl_state f = st)"

definition upd_file :: "nat \<Rightarrow> (fmfile \<Rightarrow> fmfile) \<Rightarrow> fman \<Rightarrow> fman" where
  "upd_file i g fm = fm\<lparr>fm_heap := (fm_heap fm)(i := map_option g (fm_heap fm i))\<rparr>"

text \<open>\<open>atomic.CompareAndSwapInt32\<close> on the state of a file.\<close>

definition cas :: "nat \<Rightarrow> fstate \<Rightarrow> fstate \<Rightarrow> fman \<Rightarrow> bool \<times> fman" where
  "cas i old new fm = (if fl_is old i fm then (True, upd_file i (\<lambda>f. f\<lparr>fl_state := new\<rparr>) fm) else (False, fm))"

section \<open>Operations\<close>

definition doClose :: "nat \<Rightarrow> fman \<Rightarrow> fman" where
  "doClose i fm =
     (upd_file i (\<lambda>f. f\<lparr>fl_handle := False, fl_state := fileClosed\<rparr>) fm)\<lparr>fm_openedFDs := fm_openedFDs fm - 1\<rparr>"

fun close_unused :: "nat \<Rightarrow> nat list \<Rightarrow> fman \<Rightarrow> fman" where
  "close_unused skip [] fm = fm"
| "close_unused skip (i # is) fm =
     (if i = skip then close_unused skip is fm
      else case cas i fileOpened fileClosing fm of
        (False, _) \<Rightarrow> close_unused skip is fm
      | (True, fm) \<Rightarrow>
          let fm = doClose i fm
          in if fm_openedFDs fm < fm_limit fm then fm else close_unused skip is fm)"

definition closeUnusedFiles :: "nat \<Rightarrow> fman \<Rightarrow> fman" where
  "closeUnusedFiles idToSkip fm = close_unused idToSkip (fm_files fm) fm"

definition within_limit :: "nat \<Rightarrow> fman \<Rightarrow> fman" where
  "within_limit skip fm =
     (if fm_limit fm > 0 \<and> fm_openedFDs fm \<ge> fm_limit fm then closeUnusedFiles skip fm else fm)"

definition createFile :: "bool \<Rightarrow> string \<Rightarrow> bool \<Rightarrow> fman \<Rightarrow> (fm_err + nat) \<times> fman" where
  "createFile opened name app fm =
     (if fm_isClosed fm then (Inl ErrFmClosed, fm)
      else
        let fm = within_limit 0 fm
        in if \<not> opened then (Inl ErrFmOpen, fm)
           else
             let i = fm_nextID fm + 1
             in (Inr i, fm\<lparr>fm_nextID := i,
                   fm_heap := (fm_heap fm)(i \<mapsto> \<lparr>fl_state = fileInUse, fl_handle = True, fl_name = name, fl_append = app\<rparr>),
                   fm_files := fm_files fm @ [i], fm_openedFDs := fm_openedFDs fm + 1\<rparr>))"

definition openFile :: "bool \<Rightarrow> nat \<Rightarrow> fman \<Rightarrow> (fm_err + unit) \<times> fman" where
  "openFile opened i fm =
     (if fm_isClosed fm then (Inl ErrFmClosed, fm)
      else case fm_heap fm i of
        None \<Rightarrow> (Inl ErrFmPanic, fm)
      | Some f \<Rightarrow>
          if fl_state f = fileRemoved then (Inl ErrFmRemoved, fm)
          else if fl_state f \<noteq> fileClosed \<or> fl_handle f then (Inl ErrFmPanic, fm)
          else
            let fm = within_limit i fm
            in if \<not> opened then (Inl ErrFmOpen, fm)
               else (Inr (), (upd_file i (\<lambda>f. f\<lparr>fl_handle := True, fl_state := fileInUse\<rparr>) fm)
                              \<lparr>fm_openedFDs := fm_openedFDs fm + 1\<rparr>))"

definition closing :: "bool \<Rightarrow> nat \<Rightarrow> fman \<Rightarrow> (fm_err + unit) \<times> fman" where
  "closing bc i fm = (if bc then Inr () else Inl ErrFmClose, doClose i fm)"

definition closeLockedFile :: "bool \<Rightarrow> nat \<Rightarrow> fman \<Rightarrow> (fm_err + unit) \<times> fman" where
  "closeLockedFile bc i fm =
     (case cas i fileInUse fileClosing fm of
        (False, _) \<Rightarrow> (Inl ErrFmPanic, fm)
      | (True, fm) \<Rightarrow> closing bc i fm)"

definition closeFileIfOpened :: "bool \<Rightarrow> nat \<Rightarrow> fman \<Rightarrow> (fm_err + unit) \<times> fman" where
  "closeFileIfOpened bc i fm =
     (case cas i fileOpened fileClosing fm of
        (False, _) \<Rightarrow> (Inr (), fm)
      | (True, fm) \<Rightarrow> closing bc i fm)"

definition closeLockedOrOpenedFile :: "bool \<Rightarrow> nat \<Rightarrow> fman \<Rightarrow> (fm_err + unit) \<times> fman" where
  "closeLockedOrOpenedFile bc i fm =
     (case cas i fileInUse fileClosing fm of
        (True, fm) \<Rightarrow> closing bc i fm
      | (False, _) \<Rightarrow>
          (case cas i fileOpened fileClosing fm of
             (False, _) \<Rightarrow> (Inr (), fm)
           | (True, fm) \<Rightarrow> closing bc i fm))"

definition lockFile :: "bool \<Rightarrow> nat \<Rightarrow> fman \<Rightarrow> (fm_err + bool) \<times> fman" where
  "lockFile opened i fm =
     (case cas i fileOpened fileInUse fm of
        (True, fm) \<Rightarrow> (Inr True, fm)
      | (False, _) \<Rightarrow> (let (r, fm) = openFile opened i fm in (case r of Inl e \<Rightarrow> Inl e | Inr _ \<Rightarrow> Inr False, fm)))"

definition lockFileIfOpened :: "nat \<Rightarrow> fman \<Rightarrow> bool \<times> fman" where
  "lockFileIfOpened i fm = cas i fileOpened fileInUse fm"

definition unlockFile :: "nat \<Rightarrow> fman \<Rightarrow> (fm_err + unit) \<times> fman" where
  "unlockFile i fm =
     (case cas i fileInUse fileOpened fm of (True, fm) \<Rightarrow> (Inr (), fm) | (False, _) \<Rightarrow> (Inl ErrFmPanic, fm))"

text \<open>
  \<open>trySwitchState\<close> makes 10000 attempts; \<open>others\<close> is what the other goroutines do before each of them.
\<close>

fun try_switch :: "(nat \<Rightarrow> fman \<Rightarrow> fman) \<Rightarrow> nat \<Rightarrow> fstate \<Rightarrow> nat \<Rightarrow> fman \<Rightarrow> (fm_err + bool) \<times> fman" where
  "try_switch others i newState 0 fm = (Inl ErrFmLocked, fm)"
| "try_switch others i newState (Suc n) fm =
     (case cas i fileOpened newState (others n fm) of
        (True, fm) \<Rightarrow> (Inr True, fm)
      | (False, fm) \<Rightarrow>
          (case cas i fileClosed newState fm of
             (True, fm) \<Rightarrow> (Inr False, fm)
           | (False, fm) \<Rightarrow> try_switch others i newState n fm))"

definition trySwitchState :: "(nat \<Rightarrow> fman \<Rightarrow> fman) \<Rightarrow> nat \<Rightarrow> fstate \<Rightarrow> fman \<Rightarrow> (fm_err + bool) \<times> fman" where
  "trySwitchState others i newState fm = try_switch others i newState 10000 fm"

definition fm_remove :: "(nat \<Rightarrow> fman \<Rightarrow> fman) \<Rightarrow> nat \<Rightarrow> fman \<Rightarrow> bool \<times> fman" where
  "fm_remove others i fm =
     (case trySwitchState others i fileRemoved fm of
        (Inl _, fm) \<Rightarrow> (False, fm)
      | (Inr wasOpened, fm) \<Rightarrow>
          (True, fm\<lparr>fm_files := removeAll i (fm_files fm),
                    fm_openedFDs := fm_openedFDs fm - (if wasOpened then 1 else 0)\<rparr>))"

text \<open>The truncation of a locked file; \<open>trunc\<close> is whether the system calls on the file succeed, \<open>reopened\<close> whether it can be opened again.\<close>

definition truncateFile :: "bool \<Rightarrow> bool \<Rightarrow> bool \<Rightarrow> nat \<Rightarrow> fman \<Rightarrow> (fm_err + unit) \<times> fman" where
  "truncateFile bc trunc reopened i fm =
     (case fm_heap fm i of
        None \<Rightarrow> (Inl ErrFmPanic, fm)
      | Some f \<Rightarrow>
          if fl_append f then
            (case closeLockedFile bc i fm of
               (Inl e, fm) \<Rightarrow> (Inl e, fm)
             | (Inr _, fm) \<Rightarrow> if \<not> trunc then (Inl ErrFmOpen, fm) else openFile reopened i fm)
          else (if trunc then Inr () else Inl ErrFmOpen, fm))"

fun close_all ::
  "(nat \<Rightarrow> nat \<Rightarrow> fman \<Rightarrow> fman) \<Rightarrow> (nat \<Rightarrow> bool) \<Rightarrow> nat list \<Rightarrow> (fm_err + unit) \<times> fman \<Rightarrow> (fm_err + unit) \<times> fman" where
  "close_all others bc [] acc = acc"
| "close_all others bc (i # is) (err, fm) =
     (case trySwitchState (others i) i fmClosed fm of
        (Inl e, fm) \<Rightarrow> close_all others bc is (if err = Inr () then Inl e else err, fm)
      | (Inr wasOpened, fm) \<Rightarrow>
          if wasOpened
          then close_all others bc is (if \<not> bc i \<and> err = Inr () then Inl ErrFmClose else err, doClose i fm)
          else close_all others bc is (err, fm))"

definition fm_close ::
  "(nat \<Rightarrow> nat \<Rightarrow> fman \<Rightarrow> fman) \<Rightarrow> (nat \<Rightarrow> bool) \<Rightarrow> fman \<Rightarrow> (fm_err + unit) \<times> fman" where
  "fm_close others bc fm =
     (if fm_isClosed fm then (Inr (), fm)
      else close_all others bc (fm_files fm) (Inr (), fm\<lparr>fm_isClosed := True, fm_files := []\<rparr>))"

section \<open>Interleaved steps\<close>

text \<open>
  The atomic steps of the goroutines. A file that is \<open>fileClosing\<close>, or \<open>fmClosed\<close> with its handle, is being
  closed by the goroutine that won the compare-and-swap.
\<close>

datatype fm_act =
  A_create bool string bool | A_open bool nat | A_lock nat | A_unlock nat | A_release nat | A_closing nat | A_close nat |
  A_remove nat | A_shutdown | A_switch nat

definition being_closed :: "nat \<Rightarrow> fman \<Rightarrow> bool" where
  "being_closed i fm =
     (case fm_heap fm i of None \<Rightarrow> False | Some f \<Rightarrow> fl_state f = fileClosing \<or> fl_state f = fmClosed \<and> fl_handle f)"

definition unlisted :: "nat \<Rightarrow> bool \<Rightarrow> fman \<Rightarrow> fman" where
  "unlisted i wasOpened fm =
     fm\<lparr>fm_files := removeAll i (fm_files fm), fm_openedFDs := fm_openedFDs fm - (if wasOpened then 1 else 0)\<rparr>"

inductive fm_step :: "fm_act \<Rightarrow> fman \<Rightarrow> fman \<Rightarrow> bool" where
  fm_create: "fm_step (A_create opened name app) fm (snd (createFile opened name app fm))"
| fm_open: "fm_step (A_open opened i) fm (snd (openFile opened i fm))"
| fm_lock: "cas i fileOpened fileInUse fm = (True, fm') \<Longrightarrow> fm_step (A_lock i) fm fm'"
| fm_unlock: "cas i fileInUse fileOpened fm = (True, fm') \<Longrightarrow> fm_step (A_unlock i) fm fm'"
| closing_locked: "cas i fileInUse fileClosing fm = (True, fm') \<Longrightarrow> fm_step (A_release i) fm fm'"
| closing_opened: "cas i fileOpened fileClosing fm = (True, fm') \<Longrightarrow> fm_step (A_closing i) fm fm'"
| fm_close: "being_closed i fm \<Longrightarrow> fm_step (A_close i) fm (doClose i fm)"
| remove_opened: "cas i fileOpened fileRemoved fm = (True, fm') \<Longrightarrow> fm_step (A_remove i) fm (unlisted i True fm')"
| remove_closed: "cas i fileClosed fileRemoved fm = (True, fm') \<Longrightarrow> fm_step (A_remove i) fm (unlisted i False fm')"
| fm_shutdown: "\<not> fm_isClosed fm \<Longrightarrow> fm_step A_shutdown fm (fm\<lparr>fm_isClosed := True, fm_files := []\<rparr>)"
| switch_opened: "fm_isClosed fm \<Longrightarrow> cas i fileOpened fmClosed fm = (True, fm') \<Longrightarrow> fm_step (A_switch i) fm fm'"
| switch_closed: "fm_isClosed fm \<Longrightarrow> cas i fileClosed fmClosed fm = (True, fm') \<Longrightarrow> fm_step (A_switch i) fm fm'"

inductive fm_run :: "fm_act list \<Rightarrow> fman \<Rightarrow> fman \<Rightarrow> bool" where
  fm_done: "fm_run [] fm fm"
| fm_step: "fm_step a fm fm1 \<Longrightarrow> fm_run as fm1 fm2 \<Longrightarrow> fm_run (a # as) fm fm2"

inductive_cases fm_runE: "fm_run as fm fm'"

section \<open>File descriptors are counted\<close>

text \<open>The descriptors held by the files of the manager; a removed file keeps its handle but is no longer managed.\<close>

definition held :: "fman \<Rightarrow> nat set" where
  "held fm = {i. \<exists>f. fm_heap fm i = Some f \<and> fl_handle f \<and> fl_state f \<noteq> fileRemoved}"

definition file_ok :: "bool \<Rightarrow> fmfile \<Rightarrow> bool" where
  "file_ok shut f \<longleftrightarrow>
     (fl_state f \<in> {fileOpened, fileInUse, fileClosing} \<longrightarrow> fl_handle f) \<and> (fl_state f = fileClosed \<longrightarrow> \<not> fl_handle f) \<and>
     (fl_state f = fmClosed \<longrightarrow> shut)"

definition fm_inv :: "fman \<Rightarrow> bool" where
  "fm_inv fm \<longleftrightarrow>
     finite (dom (fm_heap fm)) \<and> (\<forall>i \<in> dom (fm_heap fm). 0 < i \<and> i \<le> fm_nextID fm) \<and>
     (\<forall>i f. fm_heap fm i = Some f \<longrightarrow> file_ok (fm_isClosed fm) f) \<and>
     distinct (fm_files fm) \<and> set (fm_files fm) \<subseteq> dom (fm_heap fm) \<and>
     (\<forall>i f. fm_heap fm i = Some f \<longrightarrow> fm_isClosed fm \<or> fl_state f = fileRemoved \<or> i \<in> set (fm_files fm)) \<and>
     fm_openedFDs fm = int (card (held fm))"

lemma finite_held: "fm_inv fm \<Longrightarrow> finite (held fm)"
  by (rule finite_subset [of _ "dom (fm_heap fm)"]) (auto simp: fm_inv_def held_def)

lemma inv_listed:
  "fm_inv fm \<Longrightarrow> fm_heap fm i = Some f \<Longrightarrow> fm_isClosed fm \<or> fl_state f = fileRemoved \<or> i \<in> set (fm_files fm)"
  unfolding fm_inv_def by blast

text \<open>Every step but the creation of a file changes one file \<open>f\<close> to \<open>g f\<close> and the counter by what that changes in the held handles.\<close>

lemma upd_file_inv:
  assumes "fm_inv fm" "fm_heap fm i = Some f" "file_ok (fm_isClosed fm) (g f)"
    and "fm_openedFDs fm' = fm_openedFDs fm + of_bool (fl_handle (g f) \<and> fl_state (g f) \<noteq> fileRemoved)
           - of_bool (fl_handle f \<and> fl_state f \<noteq> fileRemoved)"
    and "fm_heap fm' = (fm_heap fm)(i \<mapsto> g f)" "fm_nextID fm' = fm_nextID fm" "fm_isClosed fm' = fm_isClosed fm"
    and "fm_files fm' = fm_files fm \<and> (fl_state f \<noteq> fileRemoved \<or> fl_state (g f) = fileRemoved) \<or>
         fm_files fm' = removeAll i (fm_files fm) \<and> fl_state (g f) = fileRemoved"
  shows "fm_inv fm'"
proof -
  have fin: "finite (held fm)" by (rule finite_held [OF assms(1)])
  have h: "held fm' = (if fl_handle (g f) \<and> fl_state (g f) \<noteq> fileRemoved then insert i (held fm) else held fm - {i})"
    using assms(5) by (auto simp: held_def)
  have i: "i \<in> held fm \<longleftrightarrow> fl_handle f \<and> fl_state f \<noteq> fileRemoved"
    using assms(2) by (auto simp: held_def)
  have c: "int (card (held fm')) = int (card (held fm)) + of_bool (fl_handle (g f) \<and> fl_state (g f) \<noteq> fileRemoved)
             - of_bool (i \<in> held fm)"
    using fin card_gt_0_iff [of "held fm"] unfolding h
    by (auto simp: card_insert_if card_Diff_singleton_if of_nat_diff Suc_le_eq)
  have l: "fm_isClosed fm' \<or> fl_state h = fileRemoved \<or> j \<in> set (fm_files fm')" if "fm_heap fm' j = Some h" for j h
    using inv_listed [OF assms(1), of j] assms(2,7,8) that unfolding assms(5) by (cases "j = i") auto
  have d: "distinct (fm_files fm')" "set (fm_files fm') \<subseteq> dom (fm_heap fm')"
    using assms(1,2,8) unfolding assms(5) by (auto simp: fm_inv_def distinct_removeAll)
  have k: "file_ok (fm_isClosed fm') h" if "fm_heap fm' j = Some h" for j h
    using assms(1,3,7) that unfolding assms(5) by (auto simp: fm_inv_def split: if_splits)
  have b: "finite (dom (fm_heap fm'))" "\<forall>j \<in> dom (fm_heap fm'). 0 < j \<and> j \<le> fm_nextID fm'"
    using assms(1,2,6) unfolding assms(5) by (auto simp: fm_inv_def)
  have "fm_openedFDs fm' = int (card (held fm'))"
    using assms(1,4) c i by (simp add: fm_inv_def)
  with b d show ?thesis unfolding fm_inv_def using l k by blast
qed

lemmas upd_inv = upd_file_inv [OF _ _ _ _ _ _ _ disjI1 [OF conjI]]

lemma casD:
  assumes "cas i old new fm = (True, fm')"
  obtains f where "fm_heap fm i = Some f" "fl_state f = old" "fm' = upd_file i (\<lambda>f. f\<lparr>fl_state := new\<rparr>) fm"
  using assms by (auto simp: cas_def fl_is_def split: if_splits option.splits)

lemma heap_upd_file: "fm_heap fm i = Some f \<Longrightarrow> fm_heap (upd_file i g fm) = (fm_heap fm)(i \<mapsto> g f)"
  by (simp add: upd_file_def)

lemma upd_file_rest [simp]:
  "fm_nextID (upd_file i g fm) = fm_nextID fm" "fm_isClosed (upd_file i g fm) = fm_isClosed fm"
  "fm_files (upd_file i g fm) = fm_files fm" "fm_openedFDs (upd_file i g fm) = fm_openedFDs fm"
  "fm_limit (upd_file i g fm) = fm_limit fm"
  by (simp_all add: upd_file_def)

lemma inv_file_ok: "fm_inv fm \<Longrightarrow> fm_heap fm i = Some f \<Longrightarrow> file_ok (fm_isClosed fm) f"
  by (simp add: fm_inv_def)

lemma cas_inv:
  assumes inv: "fm_inv fm" and "cas i old new fm = (True, fm')"
    and "old \<noteq> fileRemoved" "new \<noteq> fileRemoved"
    and ok: "\<And>f. file_ok (fm_isClosed fm) f \<Longrightarrow> fl_state f = old \<Longrightarrow> file_ok (fm_isClosed fm) (f\<lparr>fl_state := new\<rparr>)"
  shows "fm_inv fm'"
proof -
  obtain f where f: "fm_heap fm i = Some f" "fl_state f = old" and fm': "fm' = upd_file i (\<lambda>f. f\<lparr>fl_state := new\<rparr>) fm"
    using assms(2) by (rule casD)
  show ?thesis
    by (rule upd_inv [where g = "\<lambda>f. f\<lparr>fl_state := new\<rparr>", OF inv f(1) ok])
      (simp_all add: inv_file_ok [OF inv f(1)] f assms(3,4) fm' heap_upd_file)
qed

lemma remove_inv:
  assumes inv: "fm_inv fm" and "cas i old fileRemoved fm = (True, fm')" "old = (if opened then fileOpened else fileClosed)"
  shows "fm_inv (unlisted i opened fm')"
proof -
  obtain f where f: "fm_heap fm i = Some f" "fl_state f = old" and fm': "fm' = upd_file i (\<lambda>f. f\<lparr>fl_state := fileRemoved\<rparr>) fm"
    using assms(2) by (rule casD)
  show ?thesis
    by (rule upd_file_inv [where g = "\<lambda>f. f\<lparr>fl_state := fileRemoved\<rparr>", OF inv f(1)])
      (use inv_file_ok [OF inv f(1)] f(2) assms(3) in
        \<open>simp_all add: f(1) unlisted_def fm' heap_upd_file file_ok_def split: if_splits\<close>)
qed

lemma doClose_inv:
  assumes inv: "fm_inv fm" and "being_closed i fm"
  shows "fm_inv (doClose i fm)"
proof -
  obtain f where f: "fm_heap fm i = Some f" "fl_handle f" "fl_state f \<noteq> fileRemoved"
    using assms inv_file_ok [OF inv, of i] by (fastforce simp: being_closed_def file_ok_def split: option.splits)
  show ?thesis
    by (rule upd_inv [where g = "\<lambda>f. f\<lparr>fl_handle := False, fl_state := fileClosed\<rparr>", OF inv f(1)])
      (simp_all add: f doClose_def heap_upd_file file_ok_def)
qed

lemma being_closed_cas:
  "cas i old fileClosing fm = (True, fm') \<Longrightarrow> being_closed i fm'"
  by (erule casD) (simp add: being_closed_def heap_upd_file)

lemma close_unused_Cons:
  "close_unused skip (i # is) fm =
     (if i = skip \<or> \<not> fl_is fileOpened i fm then close_unused skip is fm
      else let fm1 = doClose i (snd (cas i fileOpened fileClosing fm))
           in if fm_openedFDs fm1 < fm_limit fm1 then fm1 else close_unused skip is fm1)"
  by (simp add: cas_def)

lemma close_opened_inv:
  assumes inv: "fm_inv fm" and "fl_is fileOpened i fm"
  shows "fm_inv (doClose i (snd (cas i fileOpened fileClosing fm)))"
proof -
  obtain fm1 where c: "cas i fileOpened fileClosing fm = (True, fm1)" using assms(2) by (simp add: cas_def)
  have "fm_inv fm1" by (rule cas_inv [OF inv c]) (simp_all add: file_ok_def)
  then show ?thesis using doClose_inv being_closed_cas [OF c] c by simp
qed

lemma close_unused_inv: "fm_inv fm \<Longrightarrow> fm_inv (close_unused skip is fm)"
  by (induction "is" arbitrary: fm) (simp_all add: close_unused_Cons Let_def close_opened_inv del: close_unused.simps(2))

lemma close_opened_frame [simp]:
  "fm_nextID (doClose i (snd (cas i old new fm))) = fm_nextID fm"
  "fm_isClosed (doClose i (snd (cas i old new fm))) = fm_isClosed fm"
  "fm_files (doClose i (snd (cas i old new fm))) = fm_files fm"
  "fm_limit (doClose i (snd (cas i old new fm))) = fm_limit fm"
  by (simp_all add: doClose_def cas_def)

lemma close_unused_frame [simp]:
  "fm_nextID (close_unused skip is fm) = fm_nextID fm" "fm_isClosed (close_unused skip is fm) = fm_isClosed fm"
  "fm_files (close_unused skip is fm) = fm_files fm" "fm_limit (close_unused skip is fm) = fm_limit fm"
  by (induction "is" arbitrary: fm; simp add: close_unused_Cons Let_def del: close_unused.simps(2))+

lemma close_unused_other:
  "\<not> fl_is fileOpened j fm \<or> j = skip \<Longrightarrow> fm_heap (close_unused skip is fm) j = fm_heap fm j"
proof (induction "is" arbitrary: fm)
  case (Cons i "is")
  have *: "fm_heap (doClose i (snd (cas i fileOpened fileClosing fm))) j = fm_heap fm j" if "i \<noteq> j"
    using that by (simp add: doClose_def cas_def upd_file_def)
  then have "fl_is fileOpened j (doClose i (snd (cas i fileOpened fileClosing fm))) = fl_is fileOpened j fm" if "i \<noteq> j"
    using that by (simp add: fl_is_def)
  then show ?case
    using Cons.prems Cons.IH [OF Cons.prems] * Cons.IH [of "doClose i (snd (cas i fileOpened fileClosing fm))"]
    by (cases "i = j") (auto simp: close_unused_Cons Let_def simp del: close_unused.simps(2))
qed simp

lemma close_unused_limit:
  "fm_openedFDs (close_unused skip is fm) < fm_limit fm \<or>
   (\<forall>i \<in> set is. i \<noteq> skip \<longrightarrow> \<not> fl_is fileOpened i (close_unused skip is fm))"
proof (induction "is" arbitrary: fm)
  case (Cons i "is")
  have "\<not> fl_is fileOpened i (close_unused skip is fm1)" if "\<not> fl_is fileOpened i fm1" for fm1
    using that close_unused_other [of i fm1 skip "is"] by (simp add: fl_is_def)
  moreover have "\<not> fl_is fileOpened i (doClose i (snd (cas i fileOpened fileClosing fm)))"
    by (auto simp: fl_is_def doClose_def cas_def upd_file_def split: option.splits)
  ultimately show ?case
    using Cons.IH [of fm] Cons.IH [of "doClose i (snd (cas i fileOpened fileClosing fm))"]
    by (auto simp: close_unused_Cons Let_def simp del: close_unused.simps(2))
qed simp

lemma within_limit_inv: "fm_inv fm \<Longrightarrow> fm_inv (within_limit skip fm)"
  by (simp add: within_limit_def closeUnusedFiles_def close_unused_inv)

lemma within_limit_frame [simp]:
  "fm_nextID (within_limit skip fm) = fm_nextID fm" "fm_isClosed (within_limit skip fm) = fm_isClosed fm"
  "fm_files (within_limit skip fm) = fm_files fm" "fm_limit (within_limit skip fm) = fm_limit fm"
  by (simp_all add: within_limit_def closeUnusedFiles_def)

lemma within_limit_other:
  "\<not> fl_is fileOpened j fm \<or> j = skip \<Longrightarrow> fm_heap (within_limit skip fm) j = fm_heap fm j"
  using close_unused_other [of j fm skip "fm_files fm"] by (simp add: within_limit_def closeUnusedFiles_def)

lemma within_limit_bound:
  "0 < fm_limit fm \<Longrightarrow> fm_openedFDs (within_limit skip fm) < fm_limit fm \<or>
   (\<forall>i \<in> set (fm_files fm). i \<noteq> skip \<longrightarrow> \<not> fl_is fileOpened i (within_limit skip fm))"
  using close_unused_limit [of skip "fm_files fm" fm] by (auto simp: within_limit_def closeUnusedFiles_def)

definition new_file :: "string \<Rightarrow> bool \<Rightarrow> fman \<Rightarrow> fman" where
  "new_file name app fm = fm\<lparr>fm_nextID := fm_nextID fm + 1,
     fm_heap := (fm_heap fm)(fm_nextID fm + 1 \<mapsto> \<lparr>fl_state = fileInUse, fl_handle = True, fl_name = name, fl_append = app\<rparr>),
     fm_files := fm_files fm @ [fm_nextID fm + 1], fm_openedFDs := fm_openedFDs fm + 1\<rparr>"

definition opened_file :: "nat \<Rightarrow> fman \<Rightarrow> fman" where
  "opened_file i fm = (upd_file i (\<lambda>f. f\<lparr>fl_handle := True, fl_state := fileInUse\<rparr>) fm)\<lparr>fm_openedFDs := fm_openedFDs fm + 1\<rparr>"

lemma createFile_cases:
  "createFile opened name app fm =
     (if fm_isClosed fm then (Inl ErrFmClosed, fm)
      else if \<not> opened then (Inl ErrFmOpen, within_limit 0 fm)
      else (Inr (fm_nextID fm + 1), new_file name app (within_limit 0 fm)))"
  by (simp add: createFile_def new_file_def Let_def)

lemma openFile_cases:
  "openFile opened i fm =
     (if fm_isClosed fm then (Inl ErrFmClosed, fm)
      else if fm_heap fm i = None then (Inl ErrFmPanic, fm)
      else if fl_is fileRemoved i fm then (Inl ErrFmRemoved, fm)
      else if \<not> fl_is fileClosed i fm \<or> fl_handle (the (fm_heap fm i)) then (Inl ErrFmPanic, fm)
      else if \<not> opened then (Inl ErrFmOpen, within_limit i fm)
      else (Inr (), opened_file i (within_limit i fm)))"
  by (cases "fm_heap fm i") (simp_all add: openFile_def opened_file_def Let_def fl_is_def)

lemma new_file_inv:
  assumes "fm_inv fm" "\<not> fm_isClosed fm"
  shows "fm_inv (new_file name app fm)"
proof -
  let ?i = "fm_nextID fm + 1"
  have new: "?i \<notin> dom (fm_heap fm)" 
  proof
    assume "?i \<in> dom (fm_heap fm)"
    moreover have "\<forall>i \<in> dom (fm_heap fm). i \<le> fm_nextID fm" using assms(1) unfolding fm_inv_def by blast
    ultimately show False using bspec by fastforce
  qed
  then have h: "held (new_file name app fm) = insert ?i (held fm)" "?i \<notin> held fm"
    by (auto simp: held_def new_file_def)
  then have "int (card (held (new_file name app fm))) = int (card (held fm)) + 1"
    using finite_held [OF assms(1)] by simp
  moreover have "fm_heap (new_file name app fm) =
      (fm_heap fm)(?i \<mapsto> \<lparr>fl_state = fileInUse, fl_handle = True, fl_name = name, fl_append = app\<rparr>)"
    "fm_nextID (new_file name app fm) = ?i" "fm_files (new_file name app fm) = fm_files fm @ [?i]"
    "fm_openedFDs (new_file name app fm) = fm_openedFDs fm + 1" "fm_isClosed (new_file name app fm) = fm_isClosed fm"
    by (simp_all add: new_file_def)
  moreover have "?i \<notin> set (fm_files fm)" using assms(1) new by (auto simp: fm_inv_def)
  ultimately show ?thesis
    using assms unfolding fm_inv_def by (simp add: file_ok_def le_SucI subset_insertI2)
qed

lemma opened_file_inv:
  assumes inv: "fm_inv fm" and "fl_is fileClosed i fm"
  shows "fm_inv (opened_file i fm)"
proof -
  obtain f where f: "fm_heap fm i = Some f" "fl_state f = fileClosed"
    using assms(2) by (auto simp: fl_is_def split: option.splits)
  then have h: "\<not> fl_handle f" using inv_file_ok [OF inv f(1)] by (simp add: file_ok_def)
  show ?thesis
    by (rule upd_inv [where g = "\<lambda>f. f\<lparr>fl_handle := True, fl_state := fileInUse\<rparr>", OF inv f(1)])
      (simp_all add: f h opened_file_def heap_upd_file file_ok_def)
qed

lemma fl_is_within_limit: "\<not> fl_is fileOpened i fm \<or> i = skip \<Longrightarrow> fl_is st i (within_limit skip fm) = fl_is st i fm"
  by (simp add: fl_is_def within_limit_other)

lemma fm_step_inv: "fm_step a fm fm' \<Longrightarrow> fm_inv fm \<Longrightarrow> fm_inv fm'"
proof (induction rule: fm_step.induct)
  case (fm_create opened name app fm)
  then show ?case by (simp add: createFile_cases within_limit_inv new_file_inv)
next
  case (fm_open opened i fm)
  then show ?case by (simp add: openFile_cases within_limit_inv opened_file_inv fl_is_within_limit)
next
  case (fm_shutdown fm)
  then show ?case by (auto simp: fm_inv_def file_ok_def held_def)
qed (auto simp: file_ok_def intro: doClose_inv remove_inv elim: cas_inv)

lemma fm_run_inv: "fm_run as fm fm' \<Longrightarrow> fm_inv fm \<Longrightarrow> fm_inv fm'"
  by (induction rule: fm_run.induct) (auto intro: fm_step_inv)

lemma init_inv: "fm_inv (createFilesManager limit)"
  by (simp add: fm_inv_def createFilesManager_def held_def)

lemmas reachable_inv = fm_run_inv [OF _ init_inv]

section \<open>A file in use is left alone\<close>

definition by_holder :: "nat \<Rightarrow> fm_act \<Rightarrow> bool" where
  "by_holder i a \<longleftrightarrow> a = A_unlock i \<or> a = A_release i"

lemma cas_frame: "cas j old new fm = (True, fm') \<Longrightarrow> j \<noteq> i \<or> \<not> fl_is old i fm \<Longrightarrow> fm_heap fm' i = fm_heap fm i"
  by (auto simp: cas_def upd_file_def split: if_splits)

lemma fl_is_unique: "fl_is st i fm \<Longrightarrow> fl_is st' i fm \<longleftrightarrow> st' = st"
  by (auto simp: fl_is_def split: option.splits)

lemma in_use_step:
  assumes "fm_step a fm fm'" "fm_inv fm" "fl_is fileInUse i fm" "\<not> by_holder i a"
  shows "fm_heap fm' i = fm_heap fm i"
  using assms
proof (induction rule: fm_step.induct)
  case (fm_create opened name app fm)
  then have "i \<in> dom (fm_heap fm)" by (auto simp: fl_is_def split: option.splits)
  then have "i \<le> fm_nextID fm" using fm_create.prems(1) unfolding fm_inv_def by blast
  then show ?case
    using fm_create by (simp add: createFile_cases within_limit_other fl_is_unique new_file_def)
next
  case (fm_open opened j fm)
  then show ?case
    by (auto simp: openFile_cases within_limit_other fl_is_unique opened_file_def upd_file_def)
next
  case (fm_close j fm)
  then show ?case
    by (auto simp: being_closed_def doClose_def upd_file_def fl_is_def split: option.splits)
qed (auto simp: by_holder_def unlisted_def fl_is_unique dest: cas_frame [where i = i])

lemma in_use_run:
  assumes "fm_run as fm fm'" "fm_inv fm" "fl_is fileInUse i fm" "list_all (\<lambda>a. \<not> by_holder i a) as"
  shows "fm_heap fm' i = fm_heap fm i"
  using assms
proof (induction rule: fm_run.induct)
  case (fm_step a fm fm1 as fm2)
  then have h: "fm_heap fm1 i = fm_heap fm i" by (auto dest: in_use_step)
  then have "fl_is fileInUse i fm1" using fm_step.prems(2) by (simp add: fl_is_def)
  then show ?case using fm_step h by (auto intro: fm_step_inv)
qed simp

section \<open>The limit\<close>

text \<open>The files that cannot be closed to make room: in use, or being closed already.\<close>

definition busy :: "fman \<Rightarrow> nat set" where
  "busy fm = {i. fl_is fileInUse i fm \<or> fl_is fileClosing i fm}"

lemma held_busy:
  assumes inv: "fm_inv fm" and "\<not> fm_isClosed fm" "\<forall>i \<in> set (fm_files fm). i \<noteq> skip \<longrightarrow> \<not> fl_is fileOpened i fm"
    "\<not> fl_is fileOpened skip fm"
  shows "held fm \<subseteq> busy fm"
proof
  fix i assume "i \<in> held fm"
  then obtain f where f: "fm_heap fm i = Some f" "fl_handle f" "fl_state f \<noteq> fileRemoved" by (auto simp: held_def)
  then have "fl_state f \<noteq> fileOpened" using inv_listed [OF inv f(1)] assms(2-4) by (auto simp: fl_is_def)
  then show "i \<in> busy fm"
    using inv_file_ok [OF inv f(1)] f assms(2) by (cases "fl_state f") (auto simp: busy_def fl_is_def file_ok_def)
qed

lemma within_limit_busy:
  assumes inv: "fm_inv fm" and "\<not> fm_isClosed fm" "0 < fm_limit fm" "\<not> fl_is fileOpened skip fm"
  shows "fm_openedFDs (within_limit skip fm) < fm_limit fm \<or> held (within_limit skip fm) \<subseteq> busy (within_limit skip fm)"
  using within_limit_bound [OF assms(3), of skip] held_busy [OF within_limit_inv [OF inv, of skip], of skip] assms(2,4)
  by (auto simp: fl_is_within_limit)

lemma finite_busy: "fm_inv fm \<Longrightarrow> finite (busy fm)"
  by (rule finite_subset [of _ "dom (fm_heap fm)"]) (auto simp: fm_inv_def busy_def fl_is_def split: option.splits)

lemma one_more_busy:
  assumes inv: "fm_inv fm" "fm_inv fm'" and "fm_openedFDs fm < lim \<or> held fm \<subseteq> busy fm"
    and "fm_openedFDs fm' = fm_openedFDs fm + 1" "insert i (busy fm) \<subseteq> busy fm'" "i \<notin> busy fm"
  shows "fm_openedFDs fm' \<le> max lim (int (card (busy fm')))"
proof (cases "fm_openedFDs fm < lim")
  case False
  then have "card (held fm) \<le> card (busy fm)"
    using assms(3) finite_busy [OF inv(1)] by (auto intro: card_mono)
  moreover have "Suc (card (busy fm)) \<le> card (busy fm')"
    using card_mono [OF finite_busy [OF inv(2)] assms(5)] finite_busy [OF inv(1)] assms(6) by simp
  ultimately show ?thesis using assms(4) inv(1) by (simp add: fm_inv_def)
qed (use assms(4) in simp)

lemma create_bounded:
  assumes inv: "fm_inv fm" and "0 < fm_limit fm" "createFile True name app fm = (Inr i, fm')"
  shows "fm_openedFDs fm' \<le> max (fm_limit fm) (int (card (busy fm')))"
proof -
  let ?w = "within_limit 0 fm"
  have c: "\<not> fm_isClosed fm" "i = fm_nextID fm + 1" "fm' = new_file name app ?w"
    using assms(3) by (auto simp: createFile_cases split: if_splits)
  have w: "fm_inv ?w" using inv by (rule within_limit_inv)
  have "0 \<notin> dom (fm_heap fm)" using inv unfolding fm_inv_def by blast
  then have z: "\<not> fl_is fileOpened 0 fm" by (auto simp: fl_is_def split: option.splits)
  have "j \<le> fm_nextID ?w" if "j \<in> dom (fm_heap ?w)" for j using w that unfolding fm_inv_def by blast
  then have "i \<notin> dom (fm_heap ?w)" using c(2) by fastforce
  then have "i \<notin> busy ?w" "insert i (busy ?w) \<subseteq> busy fm'"
    using c by (auto simp: busy_def fl_is_def new_file_def split: option.splits)
  moreover have "fm_inv fm'" unfolding c(3) by (rule new_file_inv) (use c w in simp_all)
  moreover have "fm_openedFDs fm' = fm_openedFDs ?w + 1" by (simp add: c(3) new_file_def)
  ultimately show ?thesis
    using one_more_busy [OF w _ within_limit_busy [OF inv c(1) assms(2) z]] by blast
qed

lemma open_bounded:
  assumes inv: "fm_inv fm" and "0 < fm_limit fm" "openFile True i fm = (Inr (), fm')"
  shows "fm_openedFDs fm' \<le> max (fm_limit fm) (int (card (busy fm')))"
proof -
  let ?w = "within_limit i fm"
  have c: "\<not> fm_isClosed fm" "fl_is fileClosed i fm" "fm' = opened_file i ?w"
    using assms(3) by (auto simp: openFile_cases split: if_splits)
  have w: "fm_inv ?w" "fl_is fileClosed i ?w" using inv c(2) by (simp_all add: within_limit_inv fl_is_within_limit)
  have z: "\<not> fl_is fileOpened i fm" using c(2) by (simp add: fl_is_unique)
  have "i \<notin> busy ?w" "insert i (busy ?w) \<subseteq> busy fm'"
    using w(2) c(3) by (auto simp: busy_def fl_is_def opened_file_def upd_file_def split: option.splits)
  moreover have "fm_inv fm'" unfolding c(3) by (rule opened_file_inv [OF w])
  moreover have "fm_openedFDs fm' = fm_openedFDs ?w + 1" by (simp add: c(3) opened_file_def)
  ultimately show ?thesis
    using one_more_busy [OF w(1) _ within_limit_busy [OF inv c(1) assms(2) z]] by blast
qed

section \<open>The operations are sequences of steps\<close>

definition runs :: "(fm_act \<Rightarrow> bool) \<Rightarrow> fman \<Rightarrow> fman \<Rightarrow> bool" where
  "runs P fm fm' \<longleftrightarrow> (\<exists>as. fm_run as fm fm' \<and> list_all P as)"

definition not_held_by :: "nat option \<Rightarrow> fm_act \<Rightarrow> bool" where
  "not_held_by h a \<longleftrightarrow> (case h of None \<Rightarrow> True | Some i \<Rightarrow> \<not> by_holder i a)"

lemma runs_refl [simp, intro]: "runs P fm fm"
  by (auto simp: runs_def intro: fm_done exI [of _ "[]"])

lemma fm_run_append: "fm_run as fm fm1 \<Longrightarrow> fm_run bs fm1 fm2 \<Longrightarrow> fm_run (as @ bs) fm fm2"
  by (induction rule: fm_run.induct) (auto intro: fm_step)

lemma runs_trans [trans]: "runs P fm fm1 \<Longrightarrow> runs P fm1 fm2 \<Longrightarrow> runs P fm fm2"
  unfolding runs_def by (metis fm_run_append list_all_append)

lemma runs_step: "fm_step a fm fm' \<Longrightarrow> P a \<Longrightarrow> runs P fm fm'"
  unfolding runs_def by (rule exI [of _ "[a]"]) (auto intro: fm_step fm_done)

lemma runs_first: "fm_step a fm fm1 \<Longrightarrow> P a \<Longrightarrow> runs P fm1 fm2 \<Longrightarrow> runs P fm fm2"
  using runs_step runs_trans by blast

lemma run_closed: "fm_run as fm fm' \<Longrightarrow> fm_isClosed fm \<Longrightarrow> fm_isClosed fm'"
proof (induction rule: fm_run.induct)
  case (fm_step a fm fm1 as fm2)
  from fm_step.hyps(1) fm_step.prems have "fm_isClosed fm1"
    by cases (auto simp: createFile_cases openFile_cases unlisted_def doClose_def elim!: casD)
  then show ?case using fm_step by simp
qed simp

lemma runs_closed: "runs P fm fm' \<Longrightarrow> fm_isClosed fm \<Longrightarrow> fm_isClosed fm'"
  by (auto simp: runs_def dest: run_closed)

lemma run_limit: "fm_run as fm fm' \<Longrightarrow> fm_limit fm' = fm_limit fm"
proof (induction rule: fm_run.induct)
  case (fm_step a fm fm1 as fm2)
  from fm_step.hyps(1) have "fm_limit fm1 = fm_limit fm"
    by cases (auto simp: createFile_cases openFile_cases unlisted_def doClose_def new_file_def opened_file_def elim!: casD)
  then show ?case using fm_step by simp
qed simp

text \<open>What other goroutines do while an operation waits: steps that respect the holder of \<open>h\<close>.\<close>

definition respecting :: "nat option \<Rightarrow> (nat \<Rightarrow> fman \<Rightarrow> fman) \<Rightarrow> bool" where
  "respecting h others \<longleftrightarrow> (\<forall>k fm. runs (not_held_by h) fm (others k fm))"

lemma close_runs:
  assumes "cas i old fileClosing fm = (True, fm1)"
    and "old = fileInUse \<and> h \<noteq> Some i \<or> old = fileOpened"
  shows "runs (not_held_by h) fm (doClose i fm1)"
proof -
  have "runs (not_held_by h) fm1 (doClose i fm1)"
    using being_closed_cas [OF assms(1)]
    by (intro runs_step [where a = "A_close i"]) (auto intro: fm_step.fm_close simp: not_held_by_def by_holder_def split: option.split)
  moreover have "\<exists>a. fm_step a fm fm1 \<and> not_held_by h a"
    using assms closing_locked [of i fm fm1] closing_opened [of i fm fm1]
    by (fastforce simp: not_held_by_def by_holder_def split: option.split)
  ultimately show ?thesis using runs_first by blast
qed

lemma closing_runs:
  "cas i old fileClosing fm = (True, fm1) \<Longrightarrow> old = fileInUse \<and> h \<noteq> Some i \<or> old = fileOpened \<Longrightarrow>
   runs (not_held_by h) fm (snd (closing bc i fm1))"
  by (simp add: closing_def close_runs)

lemma free_actions [simp]:
  "not_held_by h (A_create opened name app)" "not_held_by h (A_open opened i)" "not_held_by h (A_lock i)"
  "not_held_by h (A_closing i)" "not_held_by h (A_close i)" "not_held_by h (A_remove i)"
  "not_held_by h A_shutdown" "not_held_by h (A_switch i)"
  "not_held_by h (A_unlock i) \<longleftrightarrow> h \<noteq> Some i" "not_held_by h (A_release i) \<longleftrightarrow> h \<noteq> Some i"
  by (auto simp: not_held_by_def by_holder_def split: option.split)

lemma createFile_runs: "runs (not_held_by h) fm (snd (createFile opened name app fm))"
  by (rule runs_step [OF fm_create]) simp

lemma openFile_runs: "runs (not_held_by h) fm (snd (openFile opened i fm))"
  by (rule runs_step [OF fm_open]) simp

lemma closeFileIfOpened_runs: "runs (not_held_by h) fm (snd (closeFileIfOpened bc i fm))"
  by (auto simp: closeFileIfOpened_def intro: closing_runs split: prod.split bool.split)

lemma closeLockedFile_runs: "h \<noteq> Some i \<Longrightarrow> runs (not_held_by h) fm (snd (closeLockedFile bc i fm))"
  by (auto simp: closeLockedFile_def intro: closing_runs split: prod.split bool.split)

lemma closeLockedOrOpenedFile_runs: "h \<noteq> Some i \<Longrightarrow> runs (not_held_by h) fm (snd (closeLockedOrOpenedFile bc i fm))"
  by (auto simp: closeLockedOrOpenedFile_def intro: closing_runs split: prod.split bool.split)

lemma lockFile_runs: "runs (not_held_by h) fm (snd (lockFile opened i fm))"
  using openFile_runs [of h fm opened i]
  by (auto simp: lockFile_def intro: runs_step [OF fm_lock] split: prod.splits bool.split)

lemma lockFileIfOpened_runs: "runs (not_held_by h) fm (snd (lockFileIfOpened i fm))"
  by (cases "cas i fileOpened fileInUse fm")
    (auto simp: lockFileIfOpened_def cas_def intro: runs_step [OF fm_lock] split: if_splits)

lemma unlockFile_runs: "h \<noteq> Some i \<Longrightarrow> runs (not_held_by h) fm (snd (unlockFile i fm))"
  by (auto simp: unlockFile_def intro: runs_step [OF fm_unlock] split: prod.splits bool.split)

lemma truncateFile_runs: "h \<noteq> Some i \<Longrightarrow> runs (not_held_by h) fm (snd (truncateFile bc trunc reopened i fm))"
proof (cases "fm_heap fm i")
  case (Some f)
  assume "h \<noteq> Some i"
  then have *: "runs (not_held_by h) fm (snd (closeLockedFile bc i fm))" by (rule closeLockedFile_runs)
  then have "runs (not_held_by h) fm (snd (openFile reopened i (snd (closeLockedFile bc i fm))))"
    using openFile_runs runs_trans by blast
  with * Some show ?thesis by (auto simp: truncateFile_def split: prod.splits sum.splits)
qed (simp add: truncateFile_def)

text \<open>The switch ends with the compare-and-swap that succeeded, after steps of the others, or with steps of the others only.\<close>

definition switched :: "nat \<Rightarrow> fstate \<Rightarrow> fman \<Rightarrow> (fm_err + bool) \<times> fman \<Rightarrow> bool" where
  "switched i newState fm1 r \<longleftrightarrow>
     (case r of
        (Inl _, fm2) \<Rightarrow> fm2 = fm1
      | (Inr wasOpened, fm2) \<Rightarrow> cas i (if wasOpened then fileOpened else fileClosed) newState fm1 = (True, fm2))"

lemma try_switch_runs:
  assumes "respecting h others"
  shows "\<exists>fm1. runs (not_held_by h) fm fm1 \<and> switched i newState fm1 (try_switch others i newState n fm)"
proof (induction n arbitrary: fm)
  case (Suc n)
  have others: "runs (not_held_by h) fm (others n fm)" using assms by (simp add: respecting_def)
  obtain b fm1 c fm2 where c: "cas i fileOpened newState (others n fm) = (b, fm1)" "cas i fileClosed newState fm1 = (c, fm2)"
    by fastforce
  have e: "\<not> b \<Longrightarrow> fm1 = others n fm" "\<not> c \<Longrightarrow> fm2 = fm1" using c by (auto simp: cas_def split: if_splits)
  show ?case
  proof (cases "b \<or> c")
    case True
    then have "switched i newState (others n fm) (try_switch others i newState (Suc n) fm)"
      using c e by (cases b) (auto simp: switched_def)
    with others show ?thesis by blast
  next
    case False
    then have "try_switch others i newState (Suc n) fm = try_switch others i newState n (others n fm)"
      using c e by simp
    then show ?thesis using Suc.IH [of "others n fm"] runs_trans [OF others] by metis
  qed
qed (auto simp: switched_def)

lemma trySwitchState_runs:
  assumes "respecting h others"
  obtains fm1 where "runs (not_held_by h) fm fm1" "switched i newState fm1 (trySwitchState others i newState fm)"
  using try_switch_runs [OF assms, of fm i newState 10000] unfolding trySwitchState_def by blast

lemma fm_remove_runs:
  assumes "respecting h others"
  shows "runs (not_held_by h) fm (snd (fm_remove others i fm))"
proof -
  obtain fm1 where r: "runs (not_held_by h) fm fm1" and "switched i fileRemoved fm1 (trySwitchState others i fileRemoved fm)"
    using assms by (rule trySwitchState_runs)
  then have "runs (not_held_by h) fm1 (snd (fm_remove others i fm))"
    using runs_step [OF remove_opened, of i fm1 _ "not_held_by h"] runs_step [OF remove_closed, of i fm1 _ "not_held_by h"]
    by (auto simp: fm_remove_def unlisted_def switched_def split: prod.splits sum.splits if_splits)
  with r show ?thesis by (rule runs_trans)
qed

lemma runs_inv: "runs P fm fm' \<Longrightarrow> fm_inv fm \<Longrightarrow> fm_inv fm'"
  by (auto simp: runs_def dest: fm_run_inv)

lemma close_one_runs:
  assumes "respecting h others" "fm_isClosed fm" "fm_inv fm" "trySwitchState others i fmClosed fm = (r, fm2)"
  shows "runs (not_held_by h) fm fm2" "r = Inr True \<Longrightarrow> runs (not_held_by h) fm (doClose i fm2)"
proof -
  obtain fm1 where r: "runs (not_held_by h) fm fm1" and sw: "switched i fmClosed fm1 (r, fm2)"
    using trySwitchState_runs [OF assms(1)] assms(4) by metis
  have closed: "fm_isClosed fm1" using runs_closed [OF r] assms(2) .
  show step: "runs (not_held_by h) fm fm2"
    using r sw runs_trans [OF r runs_step [OF switch_opened [OF closed]]] runs_trans [OF r runs_step [OF switch_closed [OF closed]]]
    by (auto simp: switched_def split: sum.splits if_splits)
  assume "r = Inr True"
  then have "cas i fileOpened fmClosed fm1 = (True, fm2)" using sw by (simp add: switched_def)
  then have "being_closed i fm2"
    using inv_file_ok [OF runs_inv [OF r assms(3)], of i]
    by (auto elim!: casD simp: heap_upd_file being_closed_def file_ok_def)
  then have "runs (not_held_by h) fm2 (doClose i fm2)" by (intro runs_step [OF fm_step.fm_close]) simp_all
  with step show "runs (not_held_by h) fm (doClose i fm2)" by (rule runs_trans)
qed

lemma close_all_runs:
  assumes "\<And>i. respecting h (others i)" "fm_isClosed fm" "fm_inv fm"
  shows "runs (not_held_by h) fm (snd (close_all others bc is (err, fm)))"
  using assms(2,3)
proof (induction "is" arbitrary: fm err)
  case (Cons i "is")
  obtain r fm2 where t: "trySwitchState (others i) i fmClosed fm = (r, fm2)" by fastforce
  note c = close_one_runs [OF assms(1) Cons.prems t]
  have next': "runs (not_held_by h) fm (snd (close_all others bc is (err', fm')))" if "runs (not_held_by h) fm fm'" for err' fm'
    using that Cons.IH [of fm' err'] runs_closed [OF that] runs_inv [OF that] Cons.prems runs_trans by blast
  show ?case
    using t c next' by (cases r) auto
qed simp

lemma fm_close_runs:
  assumes "\<And>i. respecting h (others i)" "fm_inv fm"
  shows "runs (not_held_by h) fm (snd (fm_close others bc fm))"
proof (cases "fm_isClosed fm")
  case False
  let ?fm1 = "fm\<lparr>fm_isClosed := True, fm_files := []\<rparr>"
  have step: "runs (not_held_by h) fm ?fm1" using False by (intro runs_step [OF fm_shutdown]) simp_all
  have "runs (not_held_by h) ?fm1 (snd (close_all others bc (fm_files fm) (Inr (), ?fm1)))"
    by (rule close_all_runs [OF assms(1)]) (simp_all add: runs_inv [OF step assms(2)])
  with step show ?thesis using False runs_trans by (simp add: fm_close_def)
qed (simp add: fm_close_def)

section \<open>Properties\<close>

datatype fm_op =
  Op_create bool string bool | Op_lock bool nat | Op_lock_opened nat | Op_unlock nat |
  Op_close_locked bool nat | Op_close_opened bool nat | Op_close_any bool nat |
  Op_remove "nat \<Rightarrow> fman \<Rightarrow> fman" nat | Op_truncate bool bool bool nat | Op_close "nat \<Rightarrow> nat \<Rightarrow> fman \<Rightarrow> fman" "nat \<Rightarrow> bool"

fun fm_exec :: "fm_op \<Rightarrow> fman \<Rightarrow> fman" where
  "fm_exec (Op_create opened name app) fm = snd (createFile opened name app fm)"
| "fm_exec (Op_lock opened i) fm = snd (lockFile opened i fm)"
| "fm_exec (Op_lock_opened i) fm = snd (lockFileIfOpened i fm)"
| "fm_exec (Op_unlock i) fm = snd (unlockFile i fm)"
| "fm_exec (Op_close_locked bc i) fm = snd (closeLockedFile bc i fm)"
| "fm_exec (Op_close_opened bc i) fm = snd (closeFileIfOpened bc i fm)"
| "fm_exec (Op_close_any bc i) fm = snd (closeLockedOrOpenedFile bc i fm)"
| "fm_exec (Op_remove others i) fm = snd (fm_remove others i fm)"
| "fm_exec (Op_truncate bc trunc reopened i) fm = snd (truncateFile bc trunc reopened i fm)"
| "fm_exec (Op_close others bc) fm = snd (fm_close others bc fm)"

text \<open>The operations that may not be called on \<open>i\<close> by a goroutine that does not hold it, and what happens while an operation waits.\<close>

fun releases :: "nat \<Rightarrow> fm_op \<Rightarrow> bool" where
  "releases i (Op_unlock j) = (j = i)"
| "releases i (Op_close_locked bc j) = (j = i)"
| "releases i (Op_close_any bc j) = (j = i)"
| "releases i (Op_truncate bc trunc reopened j) = (j = i)"
| "releases i _ = False"

fun waits_politely :: "nat option \<Rightarrow> fm_op \<Rightarrow> bool" where
  "waits_politely h (Op_remove others i) = respecting h others"
| "waits_politely h (Op_close others bc) = (\<forall>i. respecting h (others i))"
| "waits_politely h _ = True"

lemma fm_exec_runs:
  assumes "fm_inv fm" "waits_politely h op" "\<And>i. h = Some i \<Longrightarrow> \<not> releases i op"
  shows "runs (not_held_by h) fm (fm_exec op fm)"
  using assms
  by (cases op) (auto intro: createFile_runs lockFile_runs lockFileIfOpened_runs unlockFile_runs closeLockedFile_runs
      closeFileIfOpened_runs closeLockedOrOpenedFile_runs fm_remove_runs truncateFile_runs fm_close_runs)

inductive fm_reachable :: "int \<Rightarrow> fman \<Rightarrow> bool" for limit where
  fm_new: "fm_reachable limit (createFilesManager limit)"
| fm_act: "fm_reachable limit fm \<Longrightarrow> fm_step a fm fm' \<Longrightarrow> fm_reachable limit fm'"
| fm_call: "fm_reachable limit fm \<Longrightarrow> waits_politely None op \<Longrightarrow> fm_reachable limit (fm_exec op fm)"

lemma fm_reachable_inv: "fm_reachable limit fm \<Longrightarrow> fm_inv fm \<and> fm_limit fm = limit"
proof (induction rule: fm_reachable.induct)
  case (fm_act fm a fm')
  then show ?case
    using fm_step_inv run_limit [of "[a]" fm fm'] fm_done fm_step by blast
next
  case (fm_call fm op)
  have "runs (not_held_by None) fm (fm_exec op fm)" using fm_call by (auto intro: fm_exec_runs)
  then show ?case using fm_call.IH runs_inv by (auto simp: runs_def dest: run_limit)
qed (simp add: init_inv, simp add: createFilesManager_def)


definition sample_manager :: fman where
  "sample_manager = fm_exec (Op_unlock 1) (fm_exec (Op_create True ''a'' False) (createFilesManager 1))"

lemma sample_manager_reachable: "fm_reachable 1 sample_manager"
  unfolding sample_manager_def by (intro fm_call fm_new) simp_all

lemmas manager_eval = sample_manager_def createFilesManager_def createFile_def within_limit_def closeUnusedFiles_def
  unlockFile_def cas_def fl_is_def upd_file_def doClose_def openFile_def


text \<open>C13: A file in use belongs to the goroutine that locked it: no operation on other files, no creation, removal or
  shutdown, whatever happens while it waits, changes the file or its handle.
\<close>

theorem in_use_protected:
  assumes "fm_reachable limit fm" "fl_is fileInUse i fm" "\<not> releases i op" "waits_politely (Some i) op"
  shows "fm_heap (fm_exec op fm) i = fm_heap fm i"
proof -
  have inv: "fm_inv fm" using fm_reachable_inv [OF assms(1)] by simp
  have "runs (not_held_by (Some i)) fm (fm_exec op fm)" using fm_exec_runs [OF inv assms(4)] assms(3) by simp
  then obtain as where "fm_run as fm (fm_exec op fm)" "list_all (\<lambda>a. \<not> by_holder i a) as"
    by (auto simp: runs_def not_held_by_def list_all_iff)
  then show ?thesis using in_use_run inv assms(2) by blast
qed

theorem in_use_protected_witness:
  "fl_is fileInUse 1 (fm_exec (Op_lock True 1) sample_manager) \<and>
   fm_heap (fm_exec (Op_close (\<lambda>i k fm. fm) (\<lambda>i. True)) (fm_exec (Op_lock True 1) sample_manager)) 1 =
   fm_heap (fm_exec (Op_lock True 1) sample_manager) 1"
proof -
  have r: "fm_reachable 1 (fm_exec (Op_lock True 1) sample_manager)"
    by (intro fm_call sample_manager_reachable) simp
  have u: "fl_is fileInUse 1 (fm_exec (Op_lock True 1) sample_manager)"
    by (simp add: manager_eval lockFile_def)
  show ?thesis
    using in_use_protected [OF r u, of "Op_close (\<lambda>i k fm. fm) (\<lambda>i. True)"] u by (simp add: respecting_def)
qed

end
