(* ===== verification/Spec2Isabelle.thy ===== *)
theory Spec2Isabelle
  imports Subject_Index Partitions Limits_Props Publish_Props Start_Props Heartbeat_Props Delivery_Fuel
    File_Subs_Refine File_Manager
begin

text \<open>
  A verification development of NATS Streaming Server.

  \<^bold>\<open>The program.\<close> Clients connect to the server, publish messages to named channels and subscribe to
  channels, alone or in queue groups. The server (\<open>server/\<close>) keeps a log of messages per channel in a store
  (\<open>stores/\<close>), sends the messages to the subscriptions, keeps the sent messages as pending until they are
  acknowledged, and sends them again when an acknowledgement does not come in time. A store keeps messages,
  subscriptions and clients in memory or in files. Servers may form a Raft group: then every change goes
  through the log of the group, and the leader replicates sent and acknowledged sequences to the followers. Utilities
  (\<open>util/\<close>) index subjects with wildcards and encode lists of channels.

  \<^bold>\<open>Conventions.\<close> \<open>uint64\<close> and \<open>uint32\<close> are words, \<open>int\<close>, \<open>int64\<close> and durations are integers with
  the wrap-around written out where the code relies on it (\<open>i64\<close>, \<open>i32\<close>); strings and byte slices are lists of characters; Go
  maps are association lists (\<open>gomap\<close>), and the order of \<open>range\<close> over a map is a permutation parameter or irrelevant
  by the statement. Structures are records that the operations take and return. Errors are values; a panic is
  \<open>None\<close> or an error of its own. Clocks, the results of system calls and of calls of NATS, Raft and protocol
  buffer libraries are arguments, mostly fields of an environment record, so the statements hold for all of them.
  Goroutines are atomic where the code holds a lock; a timer is an operation that may happen at any time.

  \<^bold>\<open>Theories.\<close>
  \<^item> \<open>Prelude\<close>: machine types, maps, slices, binary search and the lemmas on them.
  \<^item> \<open>Channel_Names\<close>, \<open>Subject_Sublist\<close>, \<open>Subject_Index\<close>, \<open>Subject_Matches\<close>: names and the trie of
    \<open>util/sublist.go\<close>. The interface \<open>subject_index\<close> says that the trie, its cache and its counter refine a
    multiset of subscriptions; its interpretation discharges this for the code.
  \<^item> \<open>Codec\<close>, \<open>Partitions\<close>: integers, lists of channels and back-off of \<open>util/\<close>; the exchange of
    channel lists between partitioned servers (\<open>server/partitions.go\<close>).
  \<^item> \<open>Store_Types\<close>, \<open>Msg_Store\<close>, \<open>Sub_Store\<close>, \<open>Store_Limits\<close>, \<open>Limits_Props\<close>: the memory
    store, the generic stores and the limits with inheritance (\<open>stores/memstore.go\<close>, \<open>common.go\<close>,
    \<open>limits.go\<close>, \<open>raftstore.go\<close>). The message store is a contiguous log within its limits; limits are inherited
    from the widest name to the narrowest.
  \<^item> \<open>Client_Store\<close>, \<open>Server_State\<close>, \<open>Delivery\<close> with \<open>Delivery_Proofs\<close>, \<open>Delivery_Frame\<close>, \<open>Delivery_Inv\<close>,
    \<open>Delivery_Log\<close>, \<open>Delivery_Props\<close>, \<open>Delivery_Fuel\<close>: the registry of clients (\<open>server/client.go\<close>) and the state of a
    channel with sending, acknowledgement and redelivery (\<open>server/server.go\<close>). A channel keeps its invariant under any
    sequence of events, the pending messages follow the records of the subscription store, and what a ready
    subscription gets is determined by the log.
  \<^item> \<open>Sub_Registry\<close>, \<open>Start_Props\<close>: registration of subscriptions and their start positions.
  \<^item> \<open>Msg_Restore\<close>, \<open>Channel_Store\<close>, \<open>Replication\<close>, \<open>Server\<close>, \<open>Server_Handlers\<close>, \<open>Recovery\<close> with
    \<open>Channel_Props\<close>, \<open>Publish_Props\<close>, \<open>Heartbeat_Props\<close>: channels, request handlers, the replicated state
    machine (\<open>server/clustering.go\<close>), snapshots (\<open>server/snapshot.go\<close>) and recovery. The channel maps agree in every
    reachable state, every published message gets one reply, exactly the acknowledged messages are stored, a silent
    client is closed.
  \<^item> \<open>Proto_Wire\<close>, \<open>Proto_Msgs\<close>: the generated encoders and decoders (\<open>spb/protocol.pb.go\<close>) of the messages in
    files, with the interface \<open>proto_msg\<close> interpreted for each of them.
  \<^item> \<open>File_Records\<close>, \<open>File_Options\<close>, \<open>File_Journal\<close>, \<open>File_Clients\<close>, \<open>File_Buffer\<close>, \<open>File_Subs\<close>,
    \<open>File_Subs_Props\<close>, \<open>File_Subs_Refine\<close>, \<open>File_Manager\<close>: the file store (\<open>stores/filestore.go\<close>). A file is the list of its
    bytes. The interface \<open>journal\<close> states what replaying a file of records gives; the clients file and
    the subscription file are its instances. The subscription file is a journal of the operations at any time and
    recovers to all of them after a flush. The files manager counts descriptors exactly under any interleaving.

  \<^bold>\<open>Fuel.\<close> The loops that send available messages take fuel; \<open>Delivery_Fuel\<close> shows that one unit per stored message and one
  more is enough, whatever the other parameters. All other loops are terminating functions.

  \<^bold>\<open>Not modelled.\<close> The message store in files (\<open>FileMsgStore\<close>: slices with an index file, cache and read-ahead) and
  the directories of the file store; the SQL store, whose operations are statements for a database; the encrypting
  wrapper, which calls third-party ciphers; the adapters of the Raft library (\<open>server/raft_log.go\<close>,
  \<open>server/raft_transport.go\<close>) and Raft itself; the fault tolerance mode, configuration files, monitoring end
  points, logging, signals and lock files, which are system calls and output; the generated code for messages between
  servers, which is an argument where a handler decodes a request.
\<close>

end
